(* ===== verification/Prelude.thy ===== *)
theory Prelude
  imports Main
begin

text \<open>
  Shared vocabulary of the development: JavaScript strings as lists of UTF-16
  code units, fallible computations as sums with a bind, substrings, the
  collections of rewrite rules the component theories extend, and the generic
  list lemmas their proofs rest on.
\<close>

named_theorems err_simps \<open>inversion of the error monad\<close>
named_theorems span_simps \<open>facts about substrings and source spans\<close>

subsection \<open>Strings\<close>

text \<open>
  A JavaScript string is a sequence of UTF-16 code units; a code unit is an
  integer (0 to 65535 in every string that a program builds). The function
  \<open>lit\<close> gives the code units of an ASCII literal of the source.
\<close>

type_synonym code_unit = int
type_synonym jstring = "code_unit list"

definition lit :: "string \<Rightarrow> jstring" where
  "lit s = map of_char s"

lemma lit_inject [simp]: "lit s = lit t \<longleftrightarrow> s = t"
proof -
  have "inj (of_char :: char \<Rightarrow> int)"
    by (rule injI) (simp add: of_char_eq_iff)
  then show ?thesis
    by (simp add: lit_def inj_map_eq_map)
qed

lemma lit_Nil [simp]: "lit [] = []"
  by (simp add: lit_def)

lemma lit_eq_Nil [simp]: "lit s = [] \<longleftrightarrow> s = []" "[] = lit s \<longleftrightarrow> s = []"
  by (auto simp: lit_def)

lemma length_lit [simp]: "length (lit s) = length s"
  by (simp add: lit_def)

subsection \<open>Errors as values\<close>

text \<open>
  A computation that may throw returns \<open>Inl\<close> of what it threw or \<open>Inr\<close> of its
  result; \<open>ebind\<close> runs the rest of the block when nothing was thrown.
\<close>

definition ebind :: "'e + 'a \<Rightarrow> ('a \<Rightarrow> 'e + 'b) \<Rightarrow> 'e + 'b" where
  "ebind m f = (case m of Inl e \<Rightarrow> Inl e | Inr x \<Rightarrow> f x)"

lemma ebind_simps [simp]: "ebind (Inl e) f = Inl e" "ebind (Inr x) f = f x"
  by (simp_all add: ebind_def)

lemma ebind_cong [fundef_cong]:
  assumes "m = m'" and "\<And>x. m' = Inr x \<Longrightarrow> f x = f' x"
  shows "ebind m f = ebind m' f'"
  using assms by (cases m') auto

lemma ebind_Inr_iff [err_simps]: "ebind m f = Inr y \<longleftrightarrow> (\<exists>x. m = Inr x \<and> f x = Inr y)"
  by (cases m) auto

lemma ebind_Inl_iff [err_simps]:
  "ebind m f = Inl e \<longleftrightarrow> m = Inl e \<or> (\<exists>x. m = Inr x \<and> f x = Inl e)"
  by (cases m) auto

lemma ebind_assoc: "ebind (ebind m f) g = ebind m (\<lambda>x. ebind (f x) g)"
  by (cases m) auto

lemma if_Inr_iff [err_simps]:
  "(if b then Inl e else m) = Inr y \<longleftrightarrow> \<not> b \<and> m = Inr y"
  "(if b then m else Inl e) = Inr y \<longleftrightarrow> b \<and> m = Inr y"
  by auto

text \<open>Mapping a fallible function over a list, left to right, stopping at the first error.\<close>

fun emap :: "('a \<Rightarrow> 'e + 'b) \<Rightarrow> 'a list \<Rightarrow> 'e + 'b list" where
  "emap f [] = Inr []"
| "emap f (x # xs) = ebind (f x) (\<lambda>y. ebind (emap f xs) (\<lambda>ys. Inr (y # ys)))"

lemma emap_cong [fundef_cong]:
  assumes "xs = ys" and "\<And>x. x \<in> set ys \<Longrightarrow> f x = g x"
  shows "emap f xs = emap g ys"
  unfolding assms(1) using assms(2) by (induction ys) auto

subsection \<open>Substrings\<close>

text \<open>\<open>slice s a b\<close> is \<open>s.slice(a, b)\<close> for \<open>0 \<le> a \<le> b\<close>.\<close>

definition slice :: "'a list \<Rightarrow> nat \<Rightarrow> nat \<Rightarrow> 'a list" where
  "slice s a b = take (b - a) (drop a s)"

lemma length_slice [span_simps]: "b \<le> length s \<Longrightarrow> length (slice s a b) = b - a"
  by (simp add: slice_def)

lemma slice_append [span_simps]:
  assumes "a \<le> b" "b \<le> c"
  shows "slice s a b @ slice s b c = slice s a c"
proof -
  have "take (c - a) (drop a s) = take ((b - a) + (c - b)) (drop a s)" using assms by simp
  also have "\<dots> = take (b - a) (drop a s) @ take (c - b) (drop (b - a) (drop a s))"
    by (rule take_add)
  also have "drop (b - a) (drop a s) = drop b s" using assms by simp
  finally show ?thesis by (simp add: slice_def)
qed

lemma slice_full [span_simps]: "slice s 0 (length s) = s"
  by (simp add: slice_def)

lemma take_slice [span_simps]: "a + n \<le> b \<Longrightarrow> take n (slice s a b) = slice s a (a + n)"
  by (simp add: slice_def min_def)

lemma drop_slice [span_simps]: "drop n (slice s a b) = slice s (a + n) b"
  by (simp add: slice_def drop_take add.commute)

subsection \<open>Association lists in insertion order\<close>

text \<open>
  A JavaScript \<open>Map\<close> (and a plain object used as one) is an association list in
  insertion order; writing to a present key keeps its place.
\<close>

fun assoc_set :: "'k \<Rightarrow> 'v \<Rightarrow> ('k \<times> 'v) list \<Rightarrow> ('k \<times> 'v) list" where
  "assoc_set k v [] = [(k, v)]"
| "assoc_set k v ((k', v') # m) =
     (if k' = k then (k, v) # m else (k', v') # assoc_set k v m)"

lemma map_of_assoc_set [simp]: "map_of (assoc_set k v m) = (map_of m)(k \<mapsto> v)"
  by (induction m) (auto simp: fun_eq_iff)

lemma keys_assoc_set [simp]: "fst ` set (assoc_set k v m) = insert k (fst ` set m)"
  by (induction k v m rule: assoc_set.induct) (simp_all add: insert_commute)

lemma distinct_assoc_set: "distinct (map fst m) \<Longrightarrow> distinct (map fst (assoc_set k v m))"
  by (induction k v m rule: assoc_set.induct) auto

lemma length_assoc_set:
  "length (assoc_set k v m) = (if k \<in> fst ` set m then length m else Suc (length m))"
  by (induction k v m rule: assoc_set.induct) simp_all

subsection \<open>Lists\<close>

lemma takeWhile_append_stop:
  "(\<And>x. x \<in> set xs \<Longrightarrow> P x) \<Longrightarrow> (ys = [] \<or> \<not> P (hd ys)) \<Longrightarrow> takeWhile P (xs @ ys) = xs"
  by (cases ys) (auto simp: takeWhile_append)

lemma dropWhile_append_stop:
  "(\<And>x. x \<in> set xs \<Longrightarrow> P x) \<Longrightarrow> (ys = [] \<or> \<not> P (hd ys)) \<Longrightarrow> dropWhile P (xs @ ys) = ys"
  by (cases ys) (auto simp: dropWhile_append)

subsection \<open>Memoisation\<close>

text \<open>
  The interface of a cache, which the compiler and the clock of the runtime
  share: what a lookup may return after an insertion. A cache that only ever
  received values of \<open>f\<close> only ever returns values of \<open>f\<close>, whatever it evicts.
\<close>

locale memo_cache =
  fixes get :: "'c \<Rightarrow> 'k \<Rightarrow> 'v option"
    and put :: "'k \<Rightarrow> 'v \<Rightarrow> 'c \<Rightarrow> 'c"
    and empty :: 'c
    and invar :: "'c \<Rightarrow> bool"
  assumes invar_empty: "invar empty"
    and invar_put: "invar c \<Longrightarrow> get c k = None \<Longrightarrow> invar (put k v c)"
    and get_empty: "get empty k = None"
    and get_put_same: "get c k = None \<Longrightarrow> get (put k v c) k = Some v"
    and get_put_other:
      "invar c \<Longrightarrow> get c k = None \<Longrightarrow> k' \<noteq> k \<Longrightarrow> get (put k v c) k' = Some w \<Longrightarrow> get c k' = Some w"
begin

definition sound :: "('k \<Rightarrow> 'v \<Rightarrow> bool) \<Rightarrow> 'c \<Rightarrow> bool" where
  "sound P c \<longleftrightarrow> invar c \<and> (\<forall>k v. get c k = Some v \<longrightarrow> P k v)"

lemma sound_empty: "sound P empty"
  by (simp add: sound_def get_empty invar_empty)

lemma sound_get: "sound P c \<Longrightarrow> get c k = Some v \<Longrightarrow> P k v"
  by (simp add: sound_def)

lemma sound_put:
  assumes "sound P c" "get c k = None" "P k v"
  shows "sound P (put k v c)"
proof -
  have "P k' w" if w: "get (put k v c) k' = Some w" for k' w
  proof (cases "k' = k")
    case True
    then show ?thesis using w assms(3) get_put_same [OF assms(2), of v] by simp
  next
    case False
    then show ?thesis using get_put_other [OF _ assms(2) False w] assms(1) by (simp add: sound_def)
  qed
  then show ?thesis using assms(1,2) invar_put by (simp add: sound_def)
qed

end

end
