(* ===== verification/JS_Number.thy ===== *)
theory JS_Number
  imports Complex_Main Prelude "HOL-Library.Code_Target_Nat"
begin

text \<open>
  The Number type of JavaScript: IEEE 754 binary64 values. A finite value is
  its exact rational; the two zeros and the infinities are kept apart. Every
  operation computes the exact rational result and rounds it to the nearest
  double, ties to even. The theory also has the conversions the program uses:
  decimal text to Number and Number to the shortest decimal text that reads
  back as the same Number.
\<close>

subsection \<open>Logarithms of rationals\<close>

text \<open>\<open>ndigits b n\<close> counts the digits of \<open>n\<close> in base \<open>b\<close>; \<open>ilog b q\<close> is the floor of the logarithm of \<open>q\<close>.\<close>

function ndigits :: "int \<Rightarrow> int \<Rightarrow> int" where
  "ndigits b n = (if b \<le> 1 \<or> n \<le> 0 then 0 else 1 + ndigits b (n div b))"
  by pat_completeness auto
termination
  by (relation "measure (\<lambda>(b, n). nat n)") (auto intro: int_div_less_self)

declare ndigits.simps [simp del]

lemma ndigits_bounds:
  assumes "1 < b" "0 < n"
  shows "\<exists>k. ndigits b n = int (Suc k) \<and> b ^ k \<le> n \<and> n < b ^ Suc k"
  using assms
proof (induction b n rule: ndigits.induct)
  case (1 b n)
  have split: "n = (n div b) * b + n mod b" "0 \<le> n mod b" "n mod b < b"
    using 1(2) by simp_all
  show ?case
  proof (cases "n div b \<le> 0")
    case True
    have "n div b * b \<le> 0" using True 1(2) by (simp add: mult_nonpos_nonneg)
    then have "n < b" using split by linarith
    moreover have "ndigits b n = 1"
      using True 1(2,3) by (simp add: ndigits.simps [of b n] ndigits.simps [of b "n div b"])
    ultimately show ?thesis using 1(3) by (intro exI [of _ 0]) simp
  next
    case False
    then obtain k where k: "ndigits b (n div b) = int (Suc k)" "b ^ k \<le> n div b" "n div b < b ^ Suc k"
      using 1 by auto
    have nd: "ndigits b n = 1 + ndigits b (n div b)"
      using 1(2,3) by (simp add: ndigits.simps [of b n])
    have "b ^ k * b \<le> n div b * b" using k(2) 1(2) by (intro mult_right_mono) auto
    then have "b ^ k * b \<le> n" using split by linarith
    then have lo: "b ^ Suc k \<le> n" by (simp add: mult.commute)
    have "(n div b + 1) * b \<le> b ^ Suc k * b" using k(3) 1(2) by (intro mult_right_mono) auto
    moreover have "(n div b + 1) * b = n div b * b + b" by (simp add: distrib_right)
    ultimately have "n < b ^ Suc k * b" using split by linarith
    then have hi: "n < b ^ Suc (Suc k)" by (simp add: mult.commute)
    show ?thesis using nd k(1) lo hi by (intro exI [of _ "Suc k"]) simp
  qed
qed

definition ilog :: "int \<Rightarrow> rat \<Rightarrow> int" where
  "ilog b q =
     (let (n, d) = quotient_of q;
          k = ndigits b n - ndigits b d
      in if of_int b powi k \<le> q then k else k - 1)"

lemma ilog_bounds:
  assumes b: "1 < b" and q: "0 < q"
  shows "of_int b powi ilog b q \<le> q" "q < of_int b powi (ilog b q + 1)"
proof -
  obtain n d where nd: "quotient_of q = (n, d)" by (cases "quotient_of q")
  have qe: "q = of_int n / of_int d" and d: "0 < d"
    using quotient_of_div [OF nd] quotient_of_denom_pos [OF nd] by auto
  have n: "0 < n" using q d by (simp add: qe zero_less_divide_iff)
  obtain i where i: "ndigits b n = int (Suc i)" "b ^ i \<le> n" "n < b ^ Suc i"
    using ndigits_bounds [OF b n] by blast
  obtain j where j: "ndigits b d = int (Suc j)" "b ^ j \<le> d" "d < b ^ Suc j"
    using ndigits_bounds [OF b d] by blast
  let ?B = "of_int b :: rat"
  have B: "1 < ?B" "?B \<noteq> 0" using b by auto
  have ni: "?B ^ i \<le> of_int n" "of_int n < ?B ^ Suc i"
    using i by (metis of_int_le_iff of_int_power, metis of_int_less_iff of_int_power)
  have dj: "?B ^ j \<le> of_int d" "of_int d < ?B ^ Suc j"
    using j by (metis of_int_le_iff of_int_power, metis of_int_less_iff of_int_power)
  let ?k = "int i - int j"
  have pw: "?B powi ?k = ?B ^ i / ?B ^ j" using B by (simp add: power_int_diff)
  have up: "q < ?B powi (?k + 1)"
  proof -
    have "q \<le> of_int n / ?B ^ j"
      unfolding qe using dj(1) n d B by (intro divide_left_mono) auto
    also have "\<dots> < ?B ^ Suc i / ?B ^ j"
      using ni(2) B by (intro divide_strict_right_mono) auto
    finally show ?thesis using B by (simp add: power_int_add pw mult.commute)
  qed
  have low: "?B powi (?k - 1) \<le> q"
  proof -
    have "?B ^ i / ?B ^ Suc j \<le> of_int n / ?B ^ Suc j"
      using ni(1) B by (intro divide_right_mono) auto
    also have "\<dots> \<le> q"
      unfolding qe using dj(2) n d B by (intro divide_left_mono) auto
    finally show ?thesis using B by (simp add: power_int_diff pw mult.commute)
  qed
  have "ilog b q = (if ?B powi ?k \<le> q then ?k else ?k - 1)"
    by (simp add: ilog_def nd i j)
  then show "?B powi ilog b q \<le> q" "q < ?B powi (ilog b q + 1)"
    using up low by (auto split: if_splits)
qed

lemma ilog_unique:
  assumes b: "1 < b" and k: "of_int b powi k \<le> q" "q < of_int b powi (k + 1)"
  shows "ilog b q = k"
proof -
  have B: "1 < (of_int b :: rat)" using b by simp
  have q: "0 < q" using k(1) b by (meson less_le_trans of_int_0_less_iff zero_less_power_int order_less_trans zero_less_one)
  note l = ilog_bounds [OF b q]
  have "(of_int b :: rat) powi k < of_int b powi (ilog b q + 1)" using k l by linarith
  then have 1: "k < ilog b q + 1" using B
    by (metis linorder_not_le power_int_increasing less_imp_le)
  have "(of_int b :: rat) powi ilog b q < of_int b powi (k + 1)" using k l by linarith
  then have 2: "ilog b q < k + 1" using B
    by (metis linorder_not_le power_int_increasing less_imp_le)
  show ?thesis using 1 2 by linarith
qed
subsection \<open>Rounding to nearest, ties to even\<close>

definition round_half_even :: "rat \<Rightarrow> int" where
  "round_half_even x =
     (let f = \<lfloor>x\<rfloor>; r = x - of_int f
      in if r < 1 / 2 then f
         else if 1 / 2 < r then f + 1
         else if even f then f else f + 1)"

lemma round_half_even_of_int [simp]: "round_half_even (of_int n) = n"
  by (simp add: round_half_even_def)

lemma round_half_even_near: "\<bar>x - of_int (round_half_even x)\<bar> \<le> 1 / 2"
proof -
  have "of_int \<lfloor>x\<rfloor> \<le> x" "x < of_int \<lfloor>x\<rfloor> + 1" by linarith+
  then show ?thesis unfolding round_half_even_def Let_def by auto
qed

lemma round_half_even_mono:
  assumes "x \<le> y"
  shows "round_half_even x \<le> round_half_even y"
proof -
  have fl: "\<lfloor>x\<rfloor> \<le> \<lfloor>y\<rfloor>" using assms by (rule floor_mono)
  consider "\<lfloor>x\<rfloor> = \<lfloor>y\<rfloor>" | "\<lfloor>x\<rfloor> + 1 \<le> \<lfloor>y\<rfloor>" using fl by linarith
  then show ?thesis
  proof cases
    case 1
    then show ?thesis using assms unfolding round_half_even_def Let_def by auto
  next
    case 2
    have "round_half_even x \<le> \<lfloor>x\<rfloor> + 1" "\<lfloor>y\<rfloor> \<le> round_half_even y"
      unfolding round_half_even_def Let_def by auto
    with 2 show ?thesis by linarith
  qed
qed

text \<open>
  Magnitudes round to 53 significant bits, and never below the exponent of the
  smallest subnormal, \<open>2\<^sup>-\<^sup>1\<^sup>0\<^sup>7\<^sup>4\<close>.
\<close>

definition ulp_exp :: "rat \<Rightarrow> int" where
  "ulp_exp q = max (ilog 2 q - 52) (- 1074)"

definition round_mag :: "rat \<Rightarrow> rat" where
  "round_mag q =
     (if q = 0 then 0 else of_int (round_half_even (q / 2 powi ulp_exp q)) * 2 powi ulp_exp q)"

lemma ilog2_bounds:
  assumes "0 < q"
  shows "2 powi ilog 2 q \<le> q" "q < 2 powi (ilog 2 q + 1)"
  using ilog_bounds [of 2 q] assms by simp_all

lemma powi2_mono: "i \<le> j \<Longrightarrow> (2::rat) powi i \<le> 2 powi j"
  by (rule power_int_increasing) auto

lemma ilog2_mono:
  assumes "0 < q" "q \<le> r"
  shows "ilog 2 q \<le> ilog 2 r"
proof (rule ccontr)
  assume "\<not> ?thesis"
  then have "(2::rat) powi (ilog 2 r + 1) \<le> 2 powi ilog 2 q" by (intro powi2_mono) simp
  then show False using ilog2_bounds [of q] ilog2_bounds [of r] assms by linarith
qed

lemma round_mag_exact:
  assumes n: "0 < n" "n \<le> 2 ^ 53" and e: "- 1074 \<le> e" and q: "q = of_int n * 2 powi e"
  shows "round_mag q = q"
proof -
  have q0: "0 < q" using n by (simp add: q)
  have nr: "(of_int n :: rat) \<le> 2 powi 53"
    using n(2) by (metis of_int_le_iff of_int_numeral of_int_power power_int_numeral)
  have qle: "q \<le> 2 powi (53 + e)" using nr by (simp add: q power_int_add)
  show ?thesis
  proof (cases "ulp_exp q \<le> e")
    case True
    have "q / 2 powi ulp_exp q = of_int n * 2 powi (e - ulp_exp q)"
      by (simp add: q power_int_diff)
    also have "\<dots> = of_int (n * 2 ^ nat (e - ulp_exp q))"
      using True by (simp add: power_int_def)
    finally have "round_half_even (q / 2 powi ulp_exp q) = n * 2 ^ nat (e - ulp_exp q)"
      by (simp only: round_half_even_of_int)
    moreover have "(2::rat) ^ nat (e - ulp_exp q) * 2 powi ulp_exp q = 2 powi e"
    proof -
      have "(2::rat) ^ nat (e - ulp_exp q) = 2 powi (e - ulp_exp q)"
        using True by (simp add: power_int_def)
      then show ?thesis by (simp add: power_int_diff)
    qed
    ultimately show ?thesis using q0 by (simp add: round_mag_def q mult.assoc)
  next
    case False
    have l: "ilog 2 q \<ge> e + 53" using False e by (simp add: ulp_exp_def)
    have "2 powi ilog 2 q \<ge> (2::rat) powi (53 + e)" using l by (intro powi2_mono) simp
    then have qe: "q = 2 powi (53 + e)" using qle ilog2_bounds [OF q0] by linarith
    have "ilog 2 q = 53 + e" unfolding qe by (rule ilog_unique) (auto simp: power_int_add)
    then have u: "ulp_exp q = e + 1" using e by (simp add: ulp_exp_def)
    have "q / 2 powi ulp_exp q = 2 powi 52" unfolding u by (simp add: qe power_int_add)
    also have "\<dots> = of_int (2 ^ 52)" by simp
    finally have "round_half_even (q / 2 powi ulp_exp q) = 2 ^ 52" by (simp only: round_half_even_of_int)
    then show ?thesis using q0 u by (simp add: round_mag_def qe power_int_add)
  qed
qed

lemma round_mag_form:
  assumes "0 < q"
  obtains n e where "round_mag q = of_int n * 2 powi e" "0 \<le> n" "n \<le> 2 ^ 53" "- 1074 \<le> e"
    "\<bar>q - round_mag q\<bar> \<le> 2 powi e / 2"  "e = ulp_exp q"
proof -
  let ?e = "ulp_exp q"
  let ?n = "round_half_even (q / 2 powi ?e)"
  have "q < 2 powi (53 + ?e)"
  proof -
    have "(2::rat) powi (ilog 2 q + 1) \<le> 2 powi (53 + ?e)"
      by (rule powi2_mono) (simp add: ulp_exp_def)
    then show ?thesis using ilog2_bounds [OF assms] by linarith
  qed
  then have "q / 2 powi ?e \<le> of_int (2 ^ 53)" by (simp add: power_int_add divide_le_eq)
  then have le: "?n \<le> 2 ^ 53" using round_half_even_mono round_half_even_of_int by metis
  have "of_int 0 \<le> q / 2 powi ?e" using assms by simp
  then have ge: "0 \<le> ?n" using round_half_even_mono round_half_even_of_int by metis
  have r: "round_mag q = of_int ?n * 2 powi ?e" using assms by (simp add: round_mag_def)
  have "\<bar>q / 2 powi ?e - of_int ?n\<bar> * 2 powi ?e \<le> 1 / 2 * 2 powi ?e"
    by (rule mult_right_mono) (use round_half_even_near in auto)
  moreover have "\<bar>q / 2 powi ?e - of_int ?n\<bar> * 2 powi ?e = \<bar>(q / 2 powi ?e - of_int ?n) * 2 powi ?e\<bar>"
    by (simp add: abs_mult)
  ultimately have "\<bar>q - round_mag q\<bar> \<le> 2 powi ?e / 2"
    unfolding r by (simp add: left_diff_distrib)
  then show ?thesis using that [OF r ge le] by (simp add: ulp_exp_def)
qed

lemma round_mag_0 [simp]: "round_mag 0 = 0"
  by (simp add: round_mag_def)

lemma round_mag_nonneg: "0 \<le> q \<Longrightarrow> 0 \<le> round_mag q"
  using round_half_even_mono [of 0 "q / 2 powi ulp_exp q"] round_half_even_of_int [of 0]
  by (auto simp: round_mag_def)

lemma round_mag_idem: 
  assumes "0 \<le> q"
  shows "round_mag (round_mag q) = round_mag q"
proof (cases "q = 0")
  case False
  then have "0 < q" using assms by simp
  then obtain n e where r: "round_mag q = of_int n * 2 powi e" "0 \<le> n" "n \<le> 2 ^ 53" "- 1074 \<le> e"
    by (rule round_mag_form)
  then show ?thesis using round_mag_exact [of n e "round_mag q"] by (cases "n = 0") auto
qed simp

lemma round_mag_le_pow:
  assumes "0 < q" "q \<le> 2 powi k" "ulp_exp q \<le> k"
  shows "round_mag q \<le> 2 powi k"
proof -
  let ?e = "ulp_exp q"
  have "q / 2 powi ?e \<le> 2 powi (k - ?e)"
    using assms(2) by (simp add: power_int_diff divide_right_mono)
  also have "\<dots> = of_int (2 ^ nat (k - ?e))" using assms(3) by (simp add: power_int_def)
  finally have "round_half_even (q / 2 powi ?e) \<le> 2 ^ nat (k - ?e)"
    using round_half_even_mono round_half_even_of_int by metis
  then have "(of_int (round_half_even (q / 2 powi ?e)) :: rat) \<le> of_int (2 ^ nat (k - ?e))"
    by (simp only: of_int_le_iff)
  also have "\<dots> = 2 powi (k - ?e)" using assms(3) by (simp add: power_int_def)
  finally have "of_int (round_half_even (q / 2 powi ?e)) * 2 powi ?e \<le> (2::rat) powi (k - ?e) * 2 powi ?e"
    by (rule mult_right_mono) simp
  then show ?thesis using assms(1) by (simp add: round_mag_def power_int_diff)
qed

lemma round_mag_ge_pow:
  assumes "2 powi k \<le> q" "ulp_exp q \<le> k"
  shows "2 powi k \<le> round_mag q"
proof -
  let ?e = "ulp_exp q"
  have q: "0 < q" using assms(1) by (rule less_le_trans [rotated]) simp
  have "of_int (2 ^ nat (k - ?e)) = (2::rat) powi (k - ?e)" using assms(2) by (simp add: power_int_def)
  also have "\<dots> \<le> q / 2 powi ?e"
    using assms(1) by (simp add: power_int_diff divide_right_mono)
  finally have "2 ^ nat (k - ?e) \<le> round_half_even (q / 2 powi ?e)"
    using round_half_even_mono round_half_even_of_int by metis
  then have "(of_int (2 ^ nat (k - ?e)) :: rat) \<le> of_int (round_half_even (q / 2 powi ?e))"
    by (simp only: of_int_le_iff)
  then have "(2::rat) powi (k - ?e) \<le> of_int (round_half_even (q / 2 powi ?e))"
    using assms(2) by (simp add: power_int_def)
  then have "(2::rat) powi (k - ?e) * 2 powi ?e \<le> of_int (round_half_even (q / 2 powi ?e)) * 2 powi ?e"
    by (rule mult_right_mono) simp
  then show ?thesis using q by (simp add: round_mag_def power_int_diff)
qed

lemma round_mag_mono:
  assumes "0 \<le> q" "q \<le> r"
  shows "round_mag q \<le> round_mag r"
proof (cases "q = 0")
  case True
  then show ?thesis using round_mag_nonneg [of r] assms by simp
next
  case False
  then have q: "0 < q" and r: "0 < r" using assms by auto
  have l: "ilog 2 q \<le> ilog 2 r" using ilog2_mono q assms(2) by blast
  have ule: "ulp_exp q \<le> ulp_exp r" unfolding ulp_exp_def using l by (intro max.mono) auto
  consider "ulp_exp q = ulp_exp r" | "ulp_exp q < ulp_exp r" using ule by linarith
  then show ?thesis
  proof cases
    case 1
    have "round_half_even (q / 2 powi ulp_exp r) \<le> round_half_even (r / 2 powi ulp_exp r)"
      by (rule round_half_even_mono) (simp add: assms(2) divide_right_mono)
    then show ?thesis using 1 q r by (simp add: round_mag_def)
  next
    case 2
    then have k: "ilog 2 q + 1 \<le> ilog 2 r" by (auto simp: ulp_exp_def)
    have "round_mag q \<le> 2 powi (max (ilog 2 q + 1) (- 1074))"
      by (rule round_mag_le_pow)
        (use q ilog2_bounds [OF q] powi2_mono [of "ilog 2 q + 1" "max (ilog 2 q + 1) (- 1074)"] in \<open>auto simp: ulp_exp_def\<close>)
    also have "\<dots> \<le> 2 powi ilog 2 r"
      using 2 k by (intro powi2_mono) (auto simp: ulp_exp_def)
    also have "\<dots> \<le> round_mag r"
      by (rule round_mag_ge_pow) (use 2 ilog2_bounds [OF r] in \<open>auto simp: ulp_exp_def\<close>)
    finally show ?thesis .
  qed
qed

subsection \<open>Numbers\<close>

datatype number = NaN | PInf | NInf | NegZero | Fin rat

text \<open>The double nearest to an exact rational; a nonzero value too small to represent keeps its sign.\<close>

definition num_of_rat :: "rat \<Rightarrow> number" where
  "num_of_rat q =
     (let m = round_mag \<bar>q\<bar>
      in if 2 ^ 1024 \<le> m then (if q < 0 then NInf else PInf)
         else if m = 0 then (if q < 0 then NegZero else Fin 0)
         else Fin (if q < 0 then - m else m))"

fun is_double :: "number \<Rightarrow> bool" where
  "is_double (Fin q) \<longleftrightarrow> round_mag \<bar>q\<bar> = \<bar>q\<bar> \<and> \<bar>q\<bar> < 2 ^ 1024"
| "is_double _ \<longleftrightarrow> True"

fun num_val :: "number \<Rightarrow> rat" where
  "num_val (Fin q) = q"
| "num_val _ = 0"

text \<open>\<open>Number.isFinite\<close>, \<open>Number.isInteger\<close> and \<open>Number.isSafeInteger\<close>.\<close>

definition isFinite :: "number \<Rightarrow> bool" where
  "isFinite a \<longleftrightarrow> a \<noteq> NaN \<and> a \<noteq> PInf \<and> a \<noteq> NInf"

definition isInteger :: "number \<Rightarrow> bool" where
  "isInteger a \<longleftrightarrow> isFinite a \<and> of_int \<lfloor>num_val a\<rfloor> = num_val a"

definition isSafeInteger :: "number \<Rightarrow> bool" where
  "isSafeInteger a \<longleftrightarrow> isInteger a \<and> \<bar>num_val a\<bar> \<le> 2 ^ 53 - 1"

definition num_negative :: "number \<Rightarrow> bool" where
  "num_negative a = (case a of NInf \<Rightarrow> True | NegZero \<Rightarrow> True | Fin q \<Rightarrow> q < 0 | _ \<Rightarrow> False)"

definition signed_zero :: "bool \<Rightarrow> number" where
  "signed_zero neg = (if neg then NegZero else Fin 0)"

definition signed_inf :: "bool \<Rightarrow> number" where
  "signed_inf neg = (if neg then NInf else PInf)"

definition num_neg :: "number \<Rightarrow> number" where
  "num_neg a =
     (case a of NaN \<Rightarrow> NaN | PInf \<Rightarrow> NInf | NInf \<Rightarrow> PInf | NegZero \<Rightarrow> Fin 0
      | Fin q \<Rightarrow> if q = 0 then NegZero else Fin (- q))"

definition num_add :: "number \<Rightarrow> number \<Rightarrow> number" where
  "num_add a b =
     (if a = NaN \<or> b = NaN then NaN
      else if a = PInf then (if b = NInf then NaN else PInf)
      else if a = NInf then (if b = PInf then NaN else NInf)
      else if b = PInf \<or> b = NInf then b
      else if a = NegZero \<and> b = NegZero then NegZero
      else num_of_rat (num_val a + num_val b))"

definition num_sub :: "number \<Rightarrow> number \<Rightarrow> number" where
  "num_sub a b = num_add a (num_neg b)"

definition num_mul :: "number \<Rightarrow> number \<Rightarrow> number" where
  "num_mul a b =
     (let neg = (num_negative a \<noteq> num_negative b)
      in if a = NaN \<or> b = NaN then NaN
         else if \<not> isFinite a \<or> \<not> isFinite b then
           (if (isFinite a \<and> num_val a = 0) \<or> (isFinite b \<and> num_val b = 0) then NaN
            else signed_inf neg)
         else if num_val a * num_val b = 0 then signed_zero neg
         else num_of_rat (num_val a * num_val b))"

definition num_div :: "number \<Rightarrow> number \<Rightarrow> number" where
  "num_div a b =
     (let neg = (num_negative a \<noteq> num_negative b)
      in if a = NaN \<or> b = NaN then NaN
         else if \<not> isFinite a then (if isFinite b then signed_inf neg else NaN)
         else if \<not> isFinite b then signed_zero neg
         else if num_val b = 0 then (if num_val a = 0 then NaN else signed_inf neg)
         else if num_val a = 0 then signed_zero neg
         else num_of_rat (num_val a / num_val b))"

text \<open>The remainder \<open>%\<close> truncates towards zero and takes the sign of the dividend.\<close>

definition rat_trunc :: "rat \<Rightarrow> int" where
  "rat_trunc q = (if q < 0 then - \<lfloor>- q\<rfloor> else \<lfloor>q\<rfloor>)"

definition num_rem :: "number \<Rightarrow> number \<Rightarrow> number" where
  "num_rem a b =
     (if a = NaN \<or> b = NaN \<or> \<not> isFinite a \<or> (isFinite b \<and> num_val b = 0) then NaN
      else if \<not> isFinite b \<or> num_val a = 0 then a
      else let r = num_val a - num_val b * of_int (rat_trunc (num_val a / num_val b))
           in if r = 0 then signed_zero (num_negative a) else num_of_rat r)"

text \<open>The comparisons \<open><\<close>, \<open><=\<close> and \<open>===\<close>: false on NaN, and the two zeros are equal.\<close>

definition num_lt :: "number \<Rightarrow> number \<Rightarrow> bool" where
  "num_lt a b =
     (if a = NaN \<or> b = NaN then False
      else if a = NInf then b \<noteq> NInf
      else if b = PInf then a \<noteq> PInf
      else if a = PInf \<or> b = NInf then False
      else num_val a < num_val b)"

definition num_eq :: "number \<Rightarrow> number \<Rightarrow> bool" where
  "num_eq a b =
     (a \<noteq> NaN \<and> b \<noteq> NaN \<and>
      (a = b \<or> (isFinite a \<and> isFinite b \<and> num_val a = num_val b)))"

definition num_le :: "number \<Rightarrow> number \<Rightarrow> bool" where
  "num_le a b = (num_lt a b \<or> num_eq a b)"

text \<open>\<open>Math.min\<close>, \<open>Math.max\<close>, \<open>Math.abs\<close>, \<open>Math.floor\<close> and \<open>Math.ceil\<close>.\<close>

definition math_min :: "number \<Rightarrow> number \<Rightarrow> number" where
  "math_min a b =
     (if a = NaN \<or> b = NaN then NaN
      else if a = NegZero \<and> num_eq b (Fin 0) then NegZero
      else if b = NegZero \<and> num_eq a (Fin 0) then NegZero
      else if num_lt b a then b else a)"

definition math_max :: "number \<Rightarrow> number \<Rightarrow> number" where
  "math_max a b =
     (if a = NaN \<or> b = NaN then NaN
      else if a = NegZero \<and> num_eq b (Fin 0) then b
      else if b = NegZero \<and> num_eq a (Fin 0) then a
      else if num_lt a b then b else a)"

definition math_abs :: "number \<Rightarrow> number" where
  "math_abs a = (case a of NInf \<Rightarrow> PInf | NegZero \<Rightarrow> Fin 0 | Fin q \<Rightarrow> Fin \<bar>q\<bar> | _ \<Rightarrow> a)"

definition math_floor :: "number \<Rightarrow> number" where
  "math_floor a = (case a of Fin q \<Rightarrow> Fin (of_int \<lfloor>q\<rfloor>) | _ \<Rightarrow> a)"

definition math_ceil :: "number \<Rightarrow> number" where
  "math_ceil a =
     (case a of Fin q \<Rightarrow> if q < 0 \<and> - 1 < q then NegZero else Fin (of_int \<lceil>q\<rceil>) | _ \<Rightarrow> a)"

subsection \<open>Properties of rounding\<close>


lemma is_double_num_of_rat [simp]: "is_double (num_of_rat q)"
  using round_mag_idem [of "\<bar>q\<bar>"] round_mag_nonneg [of "\<bar>q\<bar>"]
  by (auto simp: num_of_rat_def Let_def)

lemma num_of_rat_id: "is_double (Fin q) \<Longrightarrow> num_of_rat q = Fin q"
  by (auto simp: num_of_rat_def)

lemma num_of_rat_0 [simp]: "num_of_rat 0 = Fin 0"
  by (simp add: num_of_rat_def)

lemma round_mag_int:
  assumes "\<bar>n\<bar> \<le> 2 ^ 53"
  shows "round_mag \<bar>of_int n\<bar> = \<bar>of_int n\<bar>"
proof (cases "n = 0")
  case False
  then show ?thesis using assms round_mag_exact [of "\<bar>n\<bar>" 0 "\<bar>of_int n\<bar>"] by simp
qed simp

lemma is_double_int: "\<bar>n\<bar> \<le> 2 ^ 53 \<Longrightarrow> is_double (Fin (of_int n))"
proof -
  assume n: "\<bar>n\<bar> \<le> 2 ^ 53"
  have "(of_int \<bar>n\<bar> :: rat) \<le> of_int (2 ^ 53)" using n by (simp only: of_int_le_iff)
  then have "\<bar>of_int n :: rat\<bar> < 2 ^ 1024" by (simp add: le_less_trans)
  then show ?thesis using round_mag_int [OF n] by simp
qed

lemma num_of_rat_int: "\<bar>n\<bar> \<le> 2 ^ 53 \<Longrightarrow> num_of_rat (of_int n) = Fin (of_int n)"
  by (rule num_of_rat_id) (rule is_double_int)

lemma num_of_rat_mono:
  assumes "q \<le> r"
  shows "num_le (num_of_rat q) (num_of_rat r)"
proof -
  have P: "num_le (num_of_rat q) (num_of_rat r)" if "0 \<le> q" "q \<le> r" for q r
    using round_mag_mono [OF that] that
    by (auto simp: num_of_rat_def Let_def num_le_def num_lt_def num_eq_def isFinite_def)
  have neg: "num_of_rat (- x) = num_neg (num_of_rat x)" if "x \<noteq> 0" for x
    using that round_mag_nonneg [of "\<bar>x\<bar>"] by (auto simp: num_of_rat_def Let_def num_neg_def)
  have flip: "num_le (num_neg b) (num_neg a) \<longleftrightarrow> num_le a b" for a b
    by (cases a; cases b) (auto simp: num_le_def num_lt_def num_eq_def num_neg_def isFinite_def)
  consider "0 \<le> q" | "q < 0" "r < 0" | "q < 0" "0 \<le> r" by linarith
  then show ?thesis
  proof cases
    case 1
    then show ?thesis using P assms by blast
  next
    case 2
    then have "num_le (num_of_rat (- r)) (num_of_rat (- q))" using P assms by simp
    then show ?thesis using 2 by (simp add: neg flip)
  next
    case 3
    then show ?thesis using round_mag_nonneg [of "\<bar>q\<bar>"] round_mag_nonneg [of r]
      by (auto simp: num_of_rat_def Let_def num_le_def num_lt_def num_eq_def isFinite_def)
  qed
qed

lemma num_of_rat_nonneg: "0 \<le> q \<Longrightarrow> isFinite (num_of_rat q) \<Longrightarrow> 0 \<le> num_val (num_of_rat q)"
  using round_mag_nonneg [of "\<bar>q\<bar>"] by (auto simp: num_of_rat_def Let_def)

text \<open>An integer result that passes \<open>Number.isSafeInteger\<close> is the exact integer: nothing was rounded.\<close>

lemma safe_integer_exact:
  assumes "isSafeInteger (num_of_rat (of_int n))"
  shows "\<bar>n\<bar> \<le> 2 ^ 53 - 1" and "num_of_rat (of_int n) = Fin (of_int n)"
proof -
  have "\<bar>n\<bar> < 2 ^ 53"
  proof (rule ccontr)
    assume "\<not> ?thesis"
    then have "(2::int) ^ 53 \<le> \<bar>n\<bar>" by simp
    then have "(of_int (2 ^ 53) :: rat) \<le> of_int \<bar>n\<bar>" by (simp only: of_int_le_iff)
    then have "round_mag (of_int (2 ^ 53)) \<le> round_mag \<bar>of_int n :: rat\<bar>"
      by (intro round_mag_mono) auto
    moreover have "round_mag (of_int (2 ^ 53)) = of_int (2 ^ 53)"
      using round_mag_int [of "2 ^ 53"] by simp
    ultimately show False using assms
      by (auto simp: num_of_rat_def Let_def isSafeInteger_def isInteger_def isFinite_def split: if_splits)
  qed
  then show "\<bar>n\<bar> \<le> 2 ^ 53 - 1" by simp
  then show "num_of_rat (of_int n) = Fin (of_int n)" by (intro num_of_rat_int) simp
qed

lemma is_double_ops [simp]:
  "is_double a \<Longrightarrow> is_double (num_neg a)"
  "is_double (num_add a b)"
  "is_double (num_sub a b)"
  "is_double (num_mul a b)"
  "is_double (num_div a b)"
  "is_double a \<Longrightarrow> is_double (num_rem a b)"
  "is_double a \<Longrightarrow> is_double b \<Longrightarrow> is_double (math_min a b)"
  "is_double a \<Longrightarrow> is_double b \<Longrightarrow> is_double (math_max a b)"
  "is_double a \<Longrightarrow> is_double (math_abs a)"
  by (auto simp: num_neg_def num_add_def num_sub_def num_mul_def num_div_def num_rem_def Let_def
      math_min_def math_max_def math_abs_def signed_zero_def signed_inf_def split: number.splits)

subsection \<open>Evaluation\<close>

text \<open>
  Rounding on numerators and denominators, so that concrete numbers evaluate
  without normalising fractions of large powers.
\<close>

definition div_half_even :: "int \<Rightarrow> int \<Rightarrow> int" where
  "div_half_even n d =
     (let f = n div d; r = 2 * (n mod d)
      in if r < d then f else if d < r then f + 1 else if even f then f else f + 1)"

lemma div_half_even:
  assumes "0 < d"
  shows "round_half_even (of_int n / of_int d) = div_half_even n d"
proof -
  have r: "(of_int n / of_int d :: rat) - of_int (n div d) = of_int (n mod d) / of_int d"
    using assms by (simp add: field_simps flip: of_int_mult of_int_add)
  have "(of_int (n mod d) / of_int d :: rat) < 1 / 2 \<longleftrightarrow> of_int (2 * (n mod d)) < (of_int d :: rat)"
    "1 / 2 < (of_int (n mod d) / of_int d :: rat) \<longleftrightarrow> (of_int d :: rat) < of_int (2 * (n mod d))"
    using assms by (simp_all add: field_simps del: of_int_less_iff)
  then have c: "(of_int (n mod d) / of_int d :: rat) < 1 / 2 \<longleftrightarrow> 2 * (n mod d) < d"
    "1 / 2 < (of_int (n mod d) / of_int d :: rat) \<longleftrightarrow> d < 2 * (n mod d)"
    by (simp_all only: of_int_less_iff)
  show ?thesis
    by (simp only: round_half_even_def div_half_even_def Let_def floor_divide_of_int_eq r c)
qed

lemma ilog_code [code]:
  "ilog b q =
     (let (n, d) = quotient_of q; k = ndigits b n - ndigits b d
      in if (if 0 \<le> k then b ^ nat k * d \<le> n else d \<le> n * b ^ nat (- k)) then k else k - 1)"
proof -
  obtain n d where q: "quotient_of q = (n, d)" by (cases "quotient_of q")
  then have d: "0 < d" and qe: "q = of_int n / of_int d"
    by (simp_all add: quotient_of_denom_pos quotient_of_div)
  define k where "k = ndigits b n - ndigits b d"
  have b: "b \<le> 1 \<Longrightarrow> k = 0" by (simp add: k_def ndigits.simps [of b n] ndigits.simps [of b d])
  have c: "of_int b powi k \<le> q \<longleftrightarrow> (if 0 \<le> k then b ^ nat k * d \<le> n else d \<le> n * b ^ nat (- k))"
  proof (cases "0 \<le> k")
    case True
    have "of_int b powi k \<le> q \<longleftrightarrow> (of_int (b ^ nat k * d) :: rat) \<le> of_int n"
      using True d by (simp add: qe power_int_def field_simps)
    then show ?thesis using True by (simp only: of_int_le_iff if_True)
  next
    case False
    then have "0 < b" using b by (cases "b \<le> 1") auto
    then have "of_int b powi k \<le> q \<longleftrightarrow> (of_int d :: rat) \<le> of_int (n * b ^ nat (- k))"
      using False d by (simp add: qe power_int_def field_simps)
    then show ?thesis using False by (simp only: of_int_le_iff if_False)
  qed
  show ?thesis by (simp only: ilog_def q Let_def prod.case k_def [symmetric] c)
qed

lemma round_mag_code [code]:
  "round_mag q =
     (let (n, d) = quotient_of q
      in if n = 0 then 0
         else let e = ulp_exp q
              in if 0 \<le> e then of_int (div_half_even n (d * 2 ^ nat e) * 2 ^ nat e)
                 else of_int (div_half_even (n * 2 ^ nat (- e)) d) / of_int (2 ^ nat (- e)))"
proof -
  obtain n d where q: "quotient_of q = (n, d)" by (cases "quotient_of q")
  then have d: "0 < d" and qe: "q = of_int n / of_int d"
    by (simp_all add: quotient_of_denom_pos quotient_of_div)
  have z: "q = 0 \<longleftrightarrow> n = 0" using d qe by simp
  show ?thesis
  proof (cases "0 \<le> ulp_exp q")
    case True
    have "q / 2 powi ulp_exp q = of_int n / of_int (d * 2 ^ nat (ulp_exp q))"
      using True by (simp add: qe power_int_def)
    then show ?thesis using True q z d div_half_even [of "d * 2 ^ nat (ulp_exp q)" n]
      by (simp add: round_mag_def power_int_def Let_def)
  next
    case False
    have "q / 2 powi ulp_exp q = of_int (n * 2 ^ nat (- ulp_exp q)) / of_int d"
      using False by (simp add: qe power_int_def power_one_over)
    then have "round_half_even (q / 2 powi ulp_exp q) = div_half_even (n * 2 ^ nat (- ulp_exp q)) d"
      by (simp only: div_half_even [OF d])
    then show ?thesis using False q z
      by (simp add: round_mag_def Let_def) (simp add: power_int_def power_one_over)
  qed
qed

lemma pow2_le_iff:
  assumes "0 \<le> m"
  shows "(2::rat) ^ K \<le> m \<longleftrightarrow> m \<noteq> 0 \<and> int K \<le> ilog 2 m"
proof (cases "m = 0")
  case False
  then have p: "0 < m" using assms by simp
  have "\<not> int K \<le> ilog 2 m \<Longrightarrow> \<not> (2::rat) powi int K \<le> m"
    using ilog2_bounds(2) [OF p] powi2_mono [of "ilog 2 m + 1" "int K"] by linarith
  moreover have "int K \<le> ilog 2 m \<Longrightarrow> (2::rat) powi int K \<le> m"
    using ilog2_bounds(1) [OF p] powi2_mono [of "int K" "ilog 2 m"] by linarith
  ultimately show ?thesis using False by auto
qed (simp add: not_le)

lemma overflow_iff:
  "(2::rat) ^ 1024 \<le> round_mag \<bar>q\<bar> \<longleftrightarrow> round_mag \<bar>q\<bar> \<noteq> 0 \<and> 1024 \<le> ilog 2 (round_mag \<bar>q\<bar>)"
  by (rule pow2_le_iff [of "round_mag \<bar>q\<bar>" 1024, OF round_mag_nonneg [OF abs_ge_zero], unfolded of_nat_numeral])

lemma num_of_rat_code [code]:
  "num_of_rat q =
     (let m = round_mag \<bar>q\<bar>
      in if m \<noteq> 0 \<and> 1024 \<le> ilog 2 m then (if q < 0 then NInf else PInf)
         else if m = 0 then (if q < 0 then NegZero else Fin 0)
         else Fin (if q < 0 then - m else m))"
  unfolding num_of_rat_def Let_def overflow_iff by (rule refl)

lemma is_double_code [code]:
  "is_double a = (case a of Fin q \<Rightarrow> num_of_rat q = Fin q | _ \<Rightarrow> True)"
proof (cases a)
  case (Fin q)
  have "is_double (Fin q) \<longleftrightarrow> num_of_rat q = Fin q"
    using num_of_rat_id [of q] is_double_num_of_rat [of q] by metis
  then show ?thesis by (simp add: Fin del: is_double.simps)
qed simp_all

end
