(* ===== verification/JS_Decimal.thy ===== *)
theory JS_Decimal
  imports JS_Number
begin

text \<open>
  Decimal text and Numbers: the numeric literals the program scans with the
  regular expression \<open>(\d+(\.\d*)?|\.\d+)([eE][+-]?\d+)?\<close>, the Number such a
  literal denotes, and \<open>Number.prototype.toString\<close>, which prints the shortest
  decimal that reads back as the same Number. The main result is that round
  trip.
\<close>

subsection \<open>Digits\<close>

definition is_digit :: "code_unit \<Rightarrow> bool" where
  "is_digit c \<longleftrightarrow> 48 \<le> c \<and> c \<le> 57"

definition digits_val :: "jstring \<Rightarrow> int" where
  "digits_val ds = foldl (\<lambda>a c. a * 10 + (c - 48)) 0 ds"

function int_digits :: "int \<Rightarrow> jstring" where
  "int_digits n = (if n < 10 then [48 + n] else int_digits (n div 10) @ [48 + n mod 10])"
  by pat_completeness auto
termination
  by (relation "measure nat") auto

declare int_digits.simps [simp del]

subsection \<open>Scanning a numeric literal\<close>

definition scan_mantissa :: "jstring \<Rightarrow> jstring" where
  "scan_mantissa s =
     (let ip = takeWhile is_digit s; r = dropWhile is_digit s
      in if ip \<noteq> [] then
           (case r of c # r' \<Rightarrow> if c = 46 then ip @ 46 # takeWhile is_digit r' else ip | [] \<Rightarrow> ip)
         else
           (case r of
              c # r' \<Rightarrow> if c = 46 \<and> takeWhile is_digit r' \<noteq> [] then 46 # takeWhile is_digit r' else []
            | [] \<Rightarrow> []))"

definition scan_exponent :: "jstring \<Rightarrow> jstring" where
  "scan_exponent s =
     (case s of
        [] \<Rightarrow> []
      | c # r \<Rightarrow>
          if c = 101 \<or> c = 69 then
            (let sg = (case r of d # _ \<Rightarrow> if d = 43 \<or> d = 45 then [d] else [] | [] \<Rightarrow> []);
                 ds = takeWhile is_digit (drop (length sg) r)
             in if ds = [] then [] else c # sg @ ds)
          else [])"

text \<open>The text the regular expression matches at the start of \<open>s\<close>; empty when it does not match.\<close>

definition scan_number :: "jstring \<Rightarrow> jstring" where
  "scan_number s =
     (let m = scan_mantissa s
      in if m = [] then [] else m @ scan_exponent (drop (length m) s))"

subsection \<open>The Number a literal denotes\<close>

definition exponent_val :: "jstring \<Rightarrow> int" where
  "exponent_val s =
     (case s of
        c # d # ds \<Rightarrow>
          if d = 45 then - digits_val ds else if d = 43 then digits_val ds else digits_val (d # ds)
      | _ \<Rightarrow> 0)"

definition decimal_rat :: "jstring \<Rightarrow> rat" where
  "decimal_rat s =
     (let ip = takeWhile is_digit s; r = dropWhile is_digit s;
          fp = (case r of c # r' \<Rightarrow> if c = 46 then takeWhile is_digit r' else [] | [] \<Rightarrow> []);
          ex = (case r of c # r' \<Rightarrow> if c = 46 then dropWhile is_digit r' else r | [] \<Rightarrow> [])
      in of_int (digits_val (ip @ fp)) * 10 powi (exponent_val ex - int (length fp)))"

definition decimal_number :: "jstring \<Rightarrow> number" where
  "decimal_number s = num_of_rat (decimal_rat s)"

subsection \<open>Shortest decimal digits\<close>

text \<open>
  \<open>try_digits q n k\<close>: a \<open>k\<close>-digit decimal that rounds to \<open>q\<close>, the nearer of the
  two neighbours of \<open>q\<close> first. The search takes the least \<open>k\<close>; it always
  succeeds, because a double has a finite decimal expansion.
\<close>

definition try_digits :: "rat \<Rightarrow> int \<Rightarrow> int \<Rightarrow> int option" where
  "try_digits q n k =
     (let y = q * 10 powi (k - n); a = round_half_even y; f = \<lfloor>y\<rfloor>;
          b = (if a = f then f + 1 else f)
      in if num_of_rat (of_int a * 10 powi (n - k)) = Fin q then Some a
         else if num_of_rat (of_int b * 10 powi (n - k)) = Fin q then Some b
         else None)"

function shortest_from :: "rat \<Rightarrow> int \<Rightarrow> int \<Rightarrow> (int \<times> int \<times> int) option" where
  "shortest_from q n k =
     (if 1500 < k then None
      else case try_digits q n k of
             None \<Rightarrow> shortest_from q n (k + 1)
           | Some s \<Rightarrow> Some (if s = 10 ^ nat k then (10 ^ nat (k - 1), k, n + 1) else (s, k, n)))"
  by pat_completeness auto
termination
  by (relation "measure (\<lambda>(q, n, k). nat (1501 - k))") auto

declare shortest_from.simps [simp del]

text \<open>The digits \<open>s\<close>, their number \<open>k\<close> and the position \<open>n\<close> of the decimal point: \<open>q\<close> prints as \<open>s \<sqdot> 10\<^sup>n\<^sup>-\<^sup>k\<close>.\<close>

definition shortest :: "rat \<Rightarrow> int \<times> int \<times> int" where
  "shortest q =
     (case shortest_from q (ilog 10 q + 1) 1 of Some r \<Rightarrow> r | None \<Rightarrow> (0, 1, 1))"

definition signed_exponent :: "int \<Rightarrow> jstring" where
  "signed_exponent e = (if e < 0 then 45 # int_digits (- e) else 43 # int_digits e)"

definition positive_to_string :: "rat \<Rightarrow> jstring" where
  "positive_to_string q =
     (let (s, k, n) = shortest q; ds = int_digits s
      in if k \<le> n \<and> n \<le> 21 then ds @ replicate (nat (n - k)) 48
         else if 0 < n \<and> n \<le> 21 then take (nat n) ds @ 46 # drop (nat n) ds
         else if - 6 < n \<and> n \<le> 0 then 48 # 46 # replicate (nat (- n)) 48 @ ds
         else if k = 1 then ds @ 101 # signed_exponent (n - 1)
         else take 1 ds @ 46 # drop 1 ds @ 101 # signed_exponent (n - 1))"

definition number_to_string :: "number \<Rightarrow> jstring" where
  "number_to_string a =
     (case a of
        NaN \<Rightarrow> lit ''NaN''
      | PInf \<Rightarrow> lit ''Infinity''
      | NInf \<Rightarrow> lit ''-Infinity''
      | NegZero \<Rightarrow> lit ''0''
      | Fin q \<Rightarrow> if q = 0 then lit ''0''
                else if q < 0 then 45 # positive_to_string (- q)
                else positive_to_string q)"

subsection \<open>Digits read back\<close>

lemma digits_val_snoc: "digits_val (xs @ [c]) = digits_val xs * 10 + (c - 48)"
  by (simp add: digits_val_def)

lemma digits_val_Nil [simp]: "digits_val [] = 0"
  by (simp add: digits_val_def)

lemma digits_val_append: "digits_val (xs @ ys) = digits_val xs * 10 ^ length ys + digits_val ys"
proof (induction ys rule: rev_induct)
  case (snoc y ys)
  then show ?case
    using digits_val_snoc [of "xs @ ys" y] digits_val_snoc [of ys y] by (simp add: algebra_simps)
qed simp

lemma digits_val_zeros [simp]: "digits_val (replicate n 48) = 0"
  by (induction n) (simp_all add: digits_val_append [of "[48]", simplified] digits_val_def)

lemma digits_val_Cons: "digits_val (c # ys) = (c - 48) * 10 ^ length ys + digits_val ys"
  using digits_val_append [of "[c]" ys] by (simp add: digits_val_def)

lemma digits_val_nonneg: "(\<And>c. c \<in> set ds \<Longrightarrow> is_digit c) \<Longrightarrow> 0 \<le> digits_val ds"
  by (induction ds) (auto simp: digits_val_Cons is_digit_def)

lemma int_digits_props:
  assumes "0 \<le> n"
  shows "digits_val (int_digits n) = n" "\<forall>c \<in> set (int_digits n). is_digit c" "int_digits n \<noteq> []"
  using assms
proof (induction n rule: int_digits.induct)
  case (1 n)
  {
    case 1
    then show ?case using "1.IH" by (simp add: int_digits.simps [of n] digits_val_snoc digits_val_Cons)
  next
    case 2
    then show ?case using "1.IH" by (auto simp: int_digits.simps [of n] is_digit_def)
  next
    case 3
    then show ?case by (simp add: int_digits.simps [of n])
  }
qed

lemma length_int_digits: "0 < n \<Longrightarrow> int (length (int_digits n)) = ndigits 10 n"
proof (induction n rule: int_digits.induct)
  case (1 n)
  show ?case
  proof (cases "n < 10")
    case True
    then have "n div 10 = 0" using 1(2) by simp
    then show ?thesis using True 1(2)
      by (simp add: int_digits.simps [of n] ndigits.simps [of 10 n] ndigits.simps [of 10 0])
  next
    case False
    then show ?thesis using 1
      by (simp add: int_digits.simps [of n] ndigits.simps [of 10 n])
  qed
qed

lemma length_int_digits_bounds:
  assumes "1 \<le> k" "10 ^ nat (k - 1) \<le> s" "s < 10 ^ nat k"
  shows "length (int_digits s) = nat k"
proof -
  have s: "0 < s" using assms(2) by (rule less_le_trans [rotated]) simp
  obtain j where j: "ndigits 10 s = int (Suc j)" "10 ^ j \<le> s" "s < 10 ^ Suc j"
    using ndigits_bounds [of 10 s] s by auto
  have "(10::int) ^ j < 10 ^ nat k" using j(2) assms(3) by linarith
  then have 1: "j < nat k" by (metis power_strict_increasing_iff one_less_numeral_iff semiring_norm(76))
  have "(10::int) ^ nat (k - 1) < 10 ^ Suc j" using j(3) assms(2) by linarith
  then have 2: "nat (k - 1) < Suc j" by (metis power_strict_increasing_iff one_less_numeral_iff semiring_norm(76))
  show ?thesis using length_int_digits [OF s] j(1) 1 2 assms(1) by linarith
qed

subsection \<open>The search for the shortest digits succeeds\<close>

lemma try_digits_correct:
  "try_digits q n k = Some s \<Longrightarrow> num_of_rat (of_int s * 10 powi (n - k)) = Fin q"
  by (auto simp: try_digits_def Let_def split: if_splits)

lemma try_digits_bounds:
  assumes "try_digits q n k = Some s" "10 powi (n - 1) \<le> q" "q < 10 powi n" "1 \<le> k"
  shows "10 ^ nat (k - 1) \<le> s" "s \<le> 10 ^ nat k"
proof -
  let ?y = "q * 10 powi (k - n)"
  have s: "s = \<lfloor>?y\<rfloor> \<or> s = \<lfloor>?y\<rfloor> + 1"
    using assms(1) by (auto simp: try_digits_def Let_def round_half_even_def split: if_splits)
  have "10 powi (n - 1) * 10 powi (k - n) \<le> ?y" using assms(2) by (intro mult_right_mono) auto
  moreover have "(10::rat) powi (n - 1) * 10 powi (k - n) = 10 powi (k - 1)"
    by (simp add: power_int_add [symmetric])
  ultimately have lo: "of_int (10 ^ nat (k - 1)) \<le> ?y" using assms(4) by (simp add: power_int_def)
  have "?y < 10 powi n * 10 powi (k - n)" using assms(3) by (intro mult_strict_right_mono) auto
  moreover have "(10::rat) powi n * 10 powi (k - n) = 10 powi k"
    by (simp add: power_int_add [symmetric])
  ultimately have hi: "?y < of_int (10 ^ nat k)" using assms(4) by (simp add: power_int_def)
  have "10 ^ nat (k - 1) \<le> \<lfloor>?y\<rfloor>" using lo by (simp only: le_floor_iff)
  then show "10 ^ nat (k - 1) \<le> s" using s by linarith
  have "\<lfloor>?y\<rfloor> < 10 ^ nat k" using hi by (simp only: floor_less_iff)
  then show "s \<le> 10 ^ nat k" using s by linarith
qed

lemma shortest_from_correct:
  assumes "shortest_from q n k = Some (s, k', n')" "10 powi (n - 1) \<le> q" "q < 10 powi n" "1 \<le> k"
  shows "num_of_rat (of_int s * 10 powi (n' - k')) = Fin q \<and> 1 \<le> k' \<and>
    10 ^ nat (k' - 1) \<le> s \<and> s < 10 ^ nat k'"
  using assms
proof (induction q n k rule: shortest_from.induct)
  case (1 q n k)
  show ?case
  proof (cases "try_digits q n k")
    case None
    then show ?thesis using 1 by (simp add: shortest_from.simps [of q n k] split: if_splits)
  next
    case (Some t)
    note tb = try_digits_bounds [OF Some 1(3,4,5)] and tc = try_digits_correct [OF Some]
    show ?thesis
    proof (cases "t = 10 ^ nat k")
      case True
      have e: "s = 10 ^ nat (k - 1)" "k' = k" "n' = n + 1"
        using 1(2) Some True by (auto simp: shortest_from.simps [of q n k] split: if_splits)
      have "(of_int s :: rat) * 10 powi (n' - k') = of_int t * 10 powi (n - k)"
        using 1(5) by (simp add: e True power_int_def [of 10 "k - 1", symmetric, simplified]
            nat_diff_distrib power_int_diff power_int_add flip: power_int_of_nat)
      then show ?thesis using tc 1(5) by (simp add: e)
    next
      case False
      have "s = t" "k' = k" "n' = n"
        using 1(2) Some False by (simp_all add: shortest_from.simps [of q n k] split: if_splits)
      then show ?thesis using tc tb False 1(5) by simp
    qed
  qed
qed

lemma powi10_less_imp: "(10::rat) powi i < 10 powi j \<Longrightarrow> i < j"
  using power_int_increasing [of j i "10::rat"] by fastforce

lemma ilog10_double:
  assumes "is_double (Fin q)" "0 < q"
  shows "- 324 \<le> ilog 10 q" "ilog 10 q \<le> 308"
proof -
  note l = ilog_bounds [of 10 q, simplified, OF assms(2)]
  obtain n e where f: "round_mag q = of_int n * 2 powi e" "0 \<le> n" "- 1074 \<le> e"
    using round_mag_form [OF assms(2)] by metis
  have q: "q = of_int n * 2 powi e" using f assms by simp
  have n: "1 \<le> n" using assms(2) f(2) q by (cases "n = 0") auto
  have "(2::rat) powi (- 1074) \<le> 2 powi e" using f(3) by (rule powi2_mono)
  also have "\<dots> \<le> q" using n by (simp add: q)
  finally have lo: "(2::rat) powi (- 1074) \<le> q" .
  have "(10::rat) powi (- 324) \<le> 2 powi (- 1074)"
    by (simp add: power_int_minus divide_simps)
  then have "(10::rat) powi (- 324) < 10 powi (ilog 10 q + 1)" using lo l(2) by linarith
  then have "- 324 < ilog 10 q + 1" by (rule powi10_less_imp)
  then show "- 324 \<le> ilog 10 q" by simp
  have "q < 2 ^ 1024" using assms by simp
  also have "(2::rat) ^ 1024 \<le> 10 powi 309" by simp
  finally have "(10::rat) powi ilog 10 q < 10 powi 309" using l(1) by linarith
  then have "ilog 10 q < 309" by (rule powi10_less_imp)
  then show "ilog 10 q \<le> 308" by simp
qed

lemma scaled_dyadic_int:
  assumes "- K \<le> e" "0 \<le> K"
  shows "\<exists>z. of_int m * 2 powi e * (10::rat) powi K = of_int z"
proof -
  have "(10::rat) powi K = 5 powi K * 2 powi K"
    using power_int_mult_distrib [of "5::rat" 2 K] by simp
  then have "of_int m * 2 powi e * (10::rat) powi K = of_int m * 5 powi K * 2 powi (e + K)"
    by (simp add: power_int_add)
  also have "\<dots> = of_int (m * 5 ^ nat K * 2 ^ nat (e + K))"
    using assms by (simp add: power_int_def)
  finally show ?thesis by blast
qed

lemma try_digits_exact:
  assumes "is_double (Fin q)" "0 < q" "k = n + 1074"
  shows "try_digits q n k \<noteq> None"
proof -
  obtain m e where f: "round_mag q = of_int m * 2 powi e" "- 1074 \<le> e"
    using round_mag_form [OF assms(2)] by metis
  have q: "q = of_int m * 2 powi e" using f assms by simp
  have "0 \<le> k - n" "- (k - n) \<le> e" using f(2) assms(3) by simp_all
  then obtain z where z: "q * 10 powi (k - n) = of_int z"
    using scaled_dyadic_int q by metis
  have "of_int z * 10 powi (n - k) = q * (10 powi (k - n) * 10 powi (n - k))"
    by (simp only: z [symmetric] mult.assoc)
  also have "(10::rat) powi (k - n) * 10 powi (n - k) = 1"
    by (simp add: power_int_add [symmetric])
  finally have "of_int z * 10 powi (n - k) = q" by simp
  then have "num_of_rat (of_int (round_half_even (q * 10 powi (k - n))) * 10 powi (n - k)) = Fin q"
    using num_of_rat_id [OF assms(1)] by (simp only: z round_half_even_of_int)
  then show ?thesis by (simp add: try_digits_def)
qed

lemma shortest_from_total:
  assumes "is_double (Fin q)" "0 < q" "k \<le> n + 1074" "n + 1074 \<le> 1500"
  shows "shortest_from q n k \<noteq> None"
  using assms
proof (induction q n k rule: shortest_from.induct)
  case (1 q n k)
  show ?case
  proof (cases "try_digits q n k")
    case None
    then have "k \<noteq> n + 1074" using try_digits_exact 1(2,3) by blast
    then show ?thesis using 1 None by (simp add: shortest_from.simps [of q n k])
  next
    case (Some t)
    then show ?thesis using 1 by (simp add: shortest_from.simps [of q n k])
  qed
qed

lemma shortest_correct:
  assumes "is_double (Fin q)" "0 < q" "shortest q = (s, k, n)"
  shows "num_of_rat (of_int s * 10 powi (n - k)) = Fin q" "1 \<le> k" "0 < s"
    "length (int_digits s) = nat k"
proof -
  note b = ilog10_double [OF assms(1,2)]
  have "shortest_from q (ilog 10 q + 1) 1 \<noteq> None"
    by (rule shortest_from_total) (use assms b in auto)
  then have sf: "shortest_from q (ilog 10 q + 1) 1 = Some (s, k, n)"
    using assms(3) by (auto simp: shortest_def split: option.splits)
  have c: "num_of_rat (of_int s * 10 powi (n - k)) = Fin q \<and> 1 \<le> k \<and> 10 ^ nat (k - 1) \<le> s \<and> s < 10 ^ nat k"
    by (rule shortest_from_correct [OF sf]) (use ilog_bounds [of 10 q] assms(2) in auto)
  then show "num_of_rat (of_int s * 10 powi (n - k)) = Fin q" "1 \<le> k" by auto
  show "0 < s" using c by (auto intro: less_le_trans [of _ "10 ^ nat (k - 1)"])
  show "length (int_digits s) = nat k" using c by (intro length_int_digits_bounds) auto
qed

subsection \<open>The round trip\<close>

text \<open>
  Every format \<open>toString\<close> may choose is \<open>ip\<close>, an optional fraction and an
  optional exponent; the lemmas read such a text back.
\<close>

lemma takeWhile_digits:
  assumes "\<forall>c \<in> set ds. is_digit c" "r = [] \<or> \<not> is_digit (hd r)"
  shows "takeWhile is_digit (ds @ r) = ds" "dropWhile is_digit (ds @ r) = r"
  using takeWhile_append_stop [of ds is_digit r] dropWhile_append_stop [of ds is_digit r] assms
  by auto

lemma not_digit_consts [simp]:
  "\<not> is_digit 46" "\<not> is_digit 101" "\<not> is_digit 43" "\<not> is_digit 45" "is_digit 48"
  by (simp_all add: is_digit_def)

definition exponent_text :: "int \<Rightarrow> jstring" where
  "exponent_text e = 101 # signed_exponent e"

lemma exponent_text_props:
  "exponent_val (exponent_text e) = e" "exponent_text e \<noteq> []" "\<not> is_digit (hd (exponent_text e))"
  "hd (exponent_text e) \<noteq> 46" "scan_exponent (exponent_text e) = exponent_text e"
proof -
  have tw: "takeWhile is_digit (int_digits n) = int_digits n" if "0 \<le> n" for n
    using int_digits_props(2) [OF that] by (simp add: takeWhile_eq_all_conv)
  show "exponent_val (exponent_text e) = e" "exponent_text e \<noteq> []" "\<not> is_digit (hd (exponent_text e))"
    "hd (exponent_text e) \<noteq> 46" "scan_exponent (exponent_text e) = exponent_text e"
    using int_digits_props [of e] int_digits_props [of "- e"]
    by (auto simp: exponent_text_def signed_exponent_def exponent_val_def scan_exponent_def Let_def tw)
qed

text \<open>A text of the shape the printer produces: integer digits, perhaps a fraction, perhaps an exponent.\<close>

definition dec_text :: "jstring \<Rightarrow> jstring option \<Rightarrow> int option \<Rightarrow> jstring" where
  "dec_text ip fp ex =
     ip @ (case fp of None \<Rightarrow> [] | Some f \<Rightarrow> 46 # f)
        @ (case ex of None \<Rightarrow> [] | Some e \<Rightarrow> exponent_text e)"

lemma dec_text_reads:
  assumes ip: "\<forall>c \<in> set ip. is_digit c" "ip \<noteq> []"
    and fp: "\<And>f. fp = Some f \<Longrightarrow> \<forall>c \<in> set f. is_digit c"
  shows "decimal_rat (dec_text ip fp ex) =
      of_int (digits_val (ip @ (case fp of None \<Rightarrow> [] | Some f \<Rightarrow> f))) *
      10 powi ((case ex of None \<Rightarrow> 0 | Some e \<Rightarrow> e) - int (length (case fp of None \<Rightarrow> [] | Some f \<Rightarrow> f)))"
    and "scan_number (dec_text ip fp ex) = dec_text ip fp ex"
proof -
  let ?E = "case ex of None \<Rightarrow> [] | Some e \<Rightarrow> exponent_text e"
  have E: "?E = [] \<or> \<not> is_digit (hd ?E)" "?E = [] \<or> hd ?E \<noteq> 46"
    "exponent_val ?E = (case ex of None \<Rightarrow> 0 | Some e \<Rightarrow> e)" "scan_exponent ?E = ?E"
    by (auto split: option.splits simp: exponent_text_props)
       (auto simp: exponent_val_def scan_exponent_def)
  have "decimal_rat (dec_text ip fp ex) =
      of_int (digits_val (ip @ (case fp of None \<Rightarrow> [] | Some f \<Rightarrow> f))) *
      10 powi ((case ex of None \<Rightarrow> 0 | Some e \<Rightarrow> e) - int (length (case fp of None \<Rightarrow> [] | Some f \<Rightarrow> f)))
    \<and> scan_number (dec_text ip fp ex) = dec_text ip fp ex"
  proof (cases fp)
    case None
    have t: "takeWhile is_digit (dec_text ip fp ex) = ip" "dropWhile is_digit (dec_text ip fp ex) = ?E"
      using takeWhile_digits [OF ip(1) E(1)] by (simp_all add: dec_text_def None)
    have "scan_mantissa (dec_text ip fp ex) = ip"
      using E(2) ip(2) by (cases ?E) (auto simp: scan_mantissa_def t Let_def)
    then have "scan_number (dec_text ip fp ex) = dec_text ip fp ex"
      using ip(2) E(4) by (simp add: scan_number_def dec_text_def None)
    moreover have "decimal_rat (dec_text ip fp ex) =
        of_int (digits_val ip) * 10 powi (exponent_val ?E)"
      using E(2) by (cases ?E) (auto simp: decimal_rat_def t)
    ultimately show ?thesis by (simp add: None E(3))
  next
    case (Some f)
    have f: "takeWhile is_digit (f @ ?E) = f" "dropWhile is_digit (f @ ?E) = ?E"
      using takeWhile_digits [OF fp [OF Some] E(1)] by simp_all
    have t: "takeWhile is_digit (dec_text ip fp ex) = ip" "dropWhile is_digit (dec_text ip fp ex) = 46 # f @ ?E"
      using takeWhile_digits [OF ip(1), of "46 # f @ ?E"] by (simp_all add: dec_text_def Some)
    have "scan_mantissa (dec_text ip fp ex) = ip @ 46 # f"
      using ip(2) by (simp add: scan_mantissa_def t f)
    then have "scan_number (dec_text ip fp ex) = dec_text ip fp ex"
      using E(4) by (simp add: scan_number_def dec_text_def Some)
    moreover have "decimal_rat (dec_text ip fp ex) =
        of_int (digits_val (ip @ f)) * 10 powi (exponent_val ?E - int (length f))"
      by (simp add: decimal_rat_def t f)
    ultimately show ?thesis by (simp add: Some E(3))
  qed
  then show "decimal_rat (dec_text ip fp ex) =
      of_int (digits_val (ip @ (case fp of None \<Rightarrow> [] | Some f \<Rightarrow> f))) *
      10 powi ((case ex of None \<Rightarrow> 0 | Some e \<Rightarrow> e) - int (length (case fp of None \<Rightarrow> [] | Some f \<Rightarrow> f)))"
    and "scan_number (dec_text ip fp ex) = dec_text ip fp ex" by blast+
qed

lemma positive_to_string_form:
  assumes "is_double (Fin q)" "0 < q"
  obtains ip fp ex where "positive_to_string q = dec_text ip fp ex"
    "\<forall>c \<in> set ip. is_digit c" "ip \<noteq> []" "\<And>f. fp = Some f \<Longrightarrow> \<forall>c \<in> set f. is_digit c"
    "num_of_rat (of_int (digits_val (ip @ (case fp of None \<Rightarrow> [] | Some f \<Rightarrow> f))) *
      10 powi ((case ex of None \<Rightarrow> 0 | Some e \<Rightarrow> e) - int (length (case fp of None \<Rightarrow> [] | Some f \<Rightarrow> f)))) = Fin q"
proof -
  obtain s k n where skn: "shortest q = (s, k, n)" by (cases "shortest q")
  note c = shortest_correct [OF assms skn]
  let ?ds = "int_digits s"
  have ds: "\<forall>c \<in> set ?ds. is_digit c" "digits_val ?ds = s" "?ds \<noteq> []"
    using int_digits_props [of s] c(3) by auto
  have sub: "\<forall>c \<in> set (take i ?ds). is_digit c" "\<forall>c \<in> set (drop i ?ds). is_digit c" for i
    using ds(1) by (meson in_set_takeD, meson in_set_dropD)
  consider "k \<le> n" "n \<le> 21" | "\<not> (k \<le> n \<and> n \<le> 21)" "0 < n" "n \<le> 21"
    | "- 6 < n" "n \<le> 0" | "\<not> (k \<le> n \<and> n \<le> 21)" "\<not> (0 < n \<and> n \<le> 21)" "\<not> (- 6 < n \<and> n \<le> 0)" "k = 1"
    | "\<not> (k \<le> n \<and> n \<le> 21)" "\<not> (0 < n \<and> n \<le> 21)" "\<not> (- 6 < n \<and> n \<le> 0)" "k \<noteq> 1"
    by blast
  then show ?thesis
  proof cases
    case 1
    have "(of_int (digits_val (?ds @ replicate (nat (n - k)) 48)) :: rat) = of_int s * 10 powi (n - k)"
      using 1 by (simp add: digits_val_append ds power_int_def)
    moreover have "\<forall>c \<in> set (?ds @ replicate (nat (n - k)) 48). is_digit c"
      using ds(1) by (auto simp: set_replicate_conv_if)
    ultimately show ?thesis using that [of "?ds @ replicate (nat (n - k)) 48" None None] 1 ds(3) c(1)
      by (simp add: positive_to_string_def skn Let_def dec_text_def)
  next
    case 2
    have "int (length (drop (nat n) ?ds)) = k - n" using c 2 by auto
    then show ?thesis using that [of "take (nat n) ?ds" "Some (drop (nat n) ?ds)" None] 2 ds c sub
      by (auto simp: positive_to_string_def skn Let_def dec_text_def)
  next
    case 3
    have "\<forall>c \<in> set (replicate (nat (- n)) 48 @ ?ds). is_digit c"
      using ds(1) by (auto simp: set_replicate_conv_if)
    then show ?thesis using 3 that [of "[48]" "Some (replicate (nat (- n)) 48 @ ?ds)" None] ds c
      by (auto simp: positive_to_string_def skn Let_def dec_text_def digits_val_append digits_val_Cons)
  next
    case 4
    then show ?thesis using that [of ?ds None "Some (n - 1)"] ds c
      by (auto simp: positive_to_string_def skn Let_def dec_text_def exponent_text_def)
  next
    case 5
    have len: "int (length (drop 1 ?ds)) = k - 1" using c 5 by auto
    then show ?thesis using that [of "take 1 ?ds" "Some (drop 1 ?ds)" "Some (n - 1)"] 5 ds c sub
      by (auto simp: positive_to_string_def skn Let_def dec_text_def exponent_text_def)
  qed
qed

theorem number_round_trip:
  assumes "is_double (Fin q)" "0 \<le> q"
  shows "decimal_number (number_to_string (Fin q)) = Fin q"
    and "scan_number (number_to_string (Fin q)) = number_to_string (Fin q)"
proof -
  have z: "lit ''0'' = dec_text [48] None None" by (simp add: lit_def dec_text_def)
  have "decimal_number (number_to_string (Fin q)) = Fin q \<and>
      scan_number (number_to_string (Fin q)) = number_to_string (Fin q)"
  proof (cases "q = 0")
    case True
    then show ?thesis using dec_text_reads [of "[48]" None None]
      by (simp add: number_to_string_def z decimal_number_def digits_val_Cons)
  next
    case False
    then have q: "0 < q" using assms(2) by simp
    obtain ip fp ex where f: "positive_to_string q = dec_text ip fp ex"
      "\<forall>c \<in> set ip. is_digit c" "ip \<noteq> []" "\<And>f. fp = Some f \<Longrightarrow> \<forall>c \<in> set f. is_digit c"
      "num_of_rat (of_int (digits_val (ip @ (case fp of None \<Rightarrow> [] | Some f \<Rightarrow> f))) *
        10 powi ((case ex of None \<Rightarrow> 0 | Some e \<Rightarrow> e) - int (length (case fp of None \<Rightarrow> [] | Some f \<Rightarrow> f)))) = Fin q"
      using positive_to_string_form [OF assms(1) q] by blast
    show ?thesis using dec_text_reads [OF f(2,3,4)] f(5) q
      by (simp add: number_to_string_def f(1) decimal_number_def)
  qed
  then show "decimal_number (number_to_string (Fin q)) = Fin q"
    and "scan_number (number_to_string (Fin q)) = number_to_string (Fin q)" by blast+
qed
end
