(* ===== verification/JS_String.thy ===== *)
theory JS_String
  imports JS_Decimal "HOL-Library.Sublist"
begin

text \<open>
  The string operations of the language that the program uses: white space and
  \<open>trim\<close>, prefixes, substring search, \<open>split\<close> on one code unit, \<open>join\<close>, the
  order on strings, and \<open>JSON.stringify\<close> of a string.
\<close>

subsection \<open>White space\<close>

text \<open>The class \<open>\s\<close>, which is also what \<open>trim\<close> removes.\<close>

definition is_space :: "code_unit \<Rightarrow> bool" where
  "is_space c \<longleftrightarrow>
     (9 \<le> c \<and> c \<le> 13) \<or> c = 32 \<or> c = 0xA0 \<or> c = 0x1680 \<or> (0x2000 \<le> c \<and> c \<le> 0x200A)
     \<or> c = 0x2028 \<or> c = 0x2029 \<or> c = 0x202F \<or> c = 0x205F \<or> c = 0x3000 \<or> c = 0xFEFF"

definition trim :: "jstring \<Rightarrow> jstring" where
  "trim s = rev (dropWhile is_space (rev (dropWhile is_space s)))"

lemma trim_Nil [simp]: "trim [] = []"
  by (simp add: trim_def)

lemma trim_id:
  assumes "s \<noteq> []" "\<not> is_space (hd s)" "\<not> is_space (last s)"
  shows "trim s = s"
proof -
  have "dropWhile is_space s = s" using assms by (cases s) auto
  moreover have "dropWhile is_space (rev s) = rev s"
    using assms by (cases "rev s") (auto simp: last_rev hd_rev [symmetric])
  ultimately show ?thesis by (simp add: trim_def)
qed

lemma trim_ends:
  assumes "trim s \<noteq> []"
  shows "\<not> is_space (hd (trim s))" "\<not> is_space (last (trim s))"
proof -
  define t where "t = dropWhile is_space s"
  define u where "u = dropWhile is_space (rev t)"
  have tr: "trim s = rev u" by (simp add: trim_def t_def u_def)
  have u: "u \<noteq> []" using assms tr by simp
  show "\<not> is_space (last (trim s))"
    using u hd_dropWhile [of is_space "rev t"] by (simp add: tr last_rev u_def)
  obtain pre where pre: "rev t = pre @ u"
    using takeWhile_dropWhile_id [of is_space "rev t"] unfolding u_def by metis
  then have "t = rev u @ rev pre" by (metis rev_append rev_rev_ident)
  then have "hd t = hd (rev u)" "t \<noteq> []" using u by simp_all
  then show "\<not> is_space (hd (trim s))"
    using hd_dropWhile [of is_space s] by (simp add: tr t_def)
qed

lemma trim_idem [simp]: "trim (trim s) = trim s"
  using trim_id [of "trim s"] trim_ends [of s] by (cases "trim s = []") auto

subsection \<open>Prefixes, search, split and join\<close>

definition starts_with :: "jstring \<Rightarrow> jstring \<Rightarrow> bool" where
  "starts_with s p \<longleftrightarrow> take (length p) s = p"

fun str_includes :: "jstring \<Rightarrow> jstring \<Rightarrow> bool" where
  "str_includes [] p \<longleftrightarrow> p = []"
| "str_includes (c # s) p \<longleftrightarrow> starts_with (c # s) p \<or> str_includes s p"

lemma includes_sublist: "str_includes s p \<longleftrightarrow> sublist p s"
proof (induction s)
  case (Cons c s)
  have "starts_with (c # s) p \<longleftrightarrow> prefix p (c # s)"
    by (auto simp: starts_with_def prefix_def) (metis append_take_drop_id)
  then show ?case using Cons by (auto simp: sublist_Cons_right)
qed auto

text \<open>\<open>split_on c s\<close> is \<open>s.split(c)\<close> for a separator of one code unit: never an empty list.\<close>

fun split_on :: "code_unit \<Rightarrow> jstring \<Rightarrow> jstring list" where
  "split_on c [] = [[]]"
| "split_on c (x # s) =
     (if x = c then [] # split_on c s
      else case split_on c s of [] \<Rightarrow> [[x]] | p # ps \<Rightarrow> (x # p) # ps)"

fun join :: "jstring \<Rightarrow> jstring list \<Rightarrow> jstring" where
  "join sep [] = []"
| "join sep [p] = p"
| "join sep (p # q # ps) = p @ sep @ join sep (q # ps)"

lemma split_on_not_Nil [simp]: "split_on c s \<noteq> []"
  by (induction s) (auto split: list.splits)

lemma join_Cons_Cons: "join sep ((x # p) # ps) = x # join sep (p # ps)"
  by (cases ps) auto

lemma join_Nil_Cons: "ps \<noteq> [] \<Longrightarrow> join sep ([] # ps) = sep @ join sep ps"
  by (cases ps) auto

lemma join_split_on: "join [c] (split_on c s) = s"
proof (induction s)
  case (Cons x s)
  then show ?case
    by (cases "split_on c s") (auto simp: join_Cons_Cons join_Nil_Cons)
qed simp

lemma split_on_parts: "p \<in> set (split_on c s) \<Longrightarrow> c \<notin> set p"
  by (induction s arbitrary: p) (auto split: list.splits if_splits)

lemma split_on_append: "c \<notin> set p \<Longrightarrow> split_on c (p @ c # s) = p # split_on c s"
  by (induction p) auto

lemma split_on_none: "c \<notin> set p \<Longrightarrow> split_on c p = [p]"
  by (induction p) auto

lemma split_on_join: "ps \<noteq> [] \<Longrightarrow> \<forall>p \<in> set ps. c \<notin> set p \<Longrightarrow> split_on c (join [c] ps) = ps"
  by (induction "[c]" ps rule: join.induct) (auto simp: split_on_none split_on_append)

subsection \<open>Order and equality\<close>

text \<open>\<open>a < b\<close> on strings compares code units lexicographically.\<close>

fun string_lt :: "jstring \<Rightarrow> jstring \<Rightarrow> bool" where
  "string_lt _ [] \<longleftrightarrow> False"
| "string_lt [] (_ # _) \<longleftrightarrow> True"
| "string_lt (a # s) (b # t) \<longleftrightarrow> a < b \<or> (a = b \<and> string_lt s t)"

lemma string_lt_irrefl [simp]: "\<not> string_lt s s"
  by (induction s) auto

lemma string_lt_trans: "string_lt s t \<Longrightarrow> string_lt t u \<Longrightarrow> string_lt s u"
proof (induction s t arbitrary: u rule: string_lt.induct)
  case (3 a s b t)
  then show ?case by (cases u) auto
next
  case (2 b t)
  then show ?case by (cases u) auto
qed simp

lemma string_lt_total: "string_lt s t \<or> s = t \<or> string_lt t s"
proof (induction s t rule: string_lt.induct)
  case (1 s)
  then show ?case by (cases s) auto
qed auto

subsection \<open>Identifiers and hexadecimal digits\<close>

definition is_letter :: "code_unit \<Rightarrow> bool" where
  "is_letter c \<longleftrightarrow> (65 \<le> c \<and> c \<le> 90) \<or> (97 \<le> c \<and> c \<le> 122)"

definition is_word :: "code_unit \<Rightarrow> bool" where
  "is_word c \<longleftrightarrow> is_letter c \<or> is_digit c \<or> c = 95"

definition is_hex :: "code_unit \<Rightarrow> bool" where
  "is_hex c \<longleftrightarrow> is_digit c \<or> (97 \<le> c \<and> c \<le> 102) \<or> (65 \<le> c \<and> c \<le> 70)"

definition hex_val :: "code_unit \<Rightarrow> int" where
  "hex_val c = (if is_digit c then c - 48 else if 97 \<le> c then c - 87 else c - 55)"

definition parse_hex :: "jstring \<Rightarrow> int" where
  "parse_hex ds = foldl (\<lambda>a c. a * 16 + hex_val c) 0 ds"

subsection \<open>JSON.stringify of a string\<close>

definition hex_digit :: "int \<Rightarrow> code_unit" where
  "hex_digit d = (if d < 10 then 48 + d else 87 + d)"

definition unicode_escape :: "code_unit \<Rightarrow> jstring" where
  "unicode_escape c =
     [92, 117] @
     [hex_digit (c div 4096), hex_digit (c div 256 mod 16), hex_digit (c div 16 mod 16), hex_digit (c mod 16)]"

definition is_high_surrogate :: "code_unit \<Rightarrow> bool" where
  "is_high_surrogate c \<longleftrightarrow> 0xD800 \<le> c \<and> c \<le> 0xDBFF"

definition is_low_surrogate :: "code_unit \<Rightarrow> bool" where
  "is_low_surrogate c \<longleftrightarrow> 0xDC00 \<le> c \<and> c \<le> 0xDFFF"

definition json_escape :: "code_unit \<Rightarrow> jstring" where
  "json_escape c =
     (if c = 8 then [92, 98] else if c = 9 then [92, 116] else if c = 10 then [92, 110]
      else if c = 12 then [92, 102] else if c = 13 then [92, 114]
      else if c = 34 then [92, 34] else if c = 92 then [92, 92]
      else if c < 32 then unicode_escape c else [c])"

text \<open>A surrogate pair is printed as it is, a lone surrogate as an escape.\<close>

fun json_chars :: "jstring \<Rightarrow> jstring" where
  "json_chars [] = []"
| "json_chars (c # s) =
     (if is_high_surrogate c then
        (case s of
           d # s' \<Rightarrow> if is_low_surrogate d then c # d # json_chars s' else unicode_escape c @ json_chars s
         | [] \<Rightarrow> unicode_escape c)
      else if is_low_surrogate c then unicode_escape c @ json_chars s
      else json_escape c @ json_chars s)"

definition json_string :: "jstring \<Rightarrow> jstring" where
  "json_string s = 34 # json_chars s @ [34]"

end
