(* ===== verification/Billing_Structure.thy ===== *)
theory Billing_Structure
  imports JS_String
begin

text \<open>
  The structural helpers of \<open>billing-expression/structure.ts\<close>, which work on the
  source text without parsing it: splitting at an operator outside parentheses
  and quotes, and removing parentheses around a whole expression. The lemmas show
  that splitting loses nothing but white space, and that unwrapping takes off
  exactly the parentheses around the whole of an expression, as a grammar of texts
  with matching parentheses says.
\<close>

subsection \<open>Splitting\<close>

text \<open>
  The scan over the source: \<open>rest\<close> is the text from the index on, \<open>cur\<close> the text
  from \<open>start\<close> to the index, \<open>quote\<close> the open quote. At an empty operator the loop
  of the code does not advance, which is the result \<open>None\<close>.
\<close>

definition bracket_step :: "code_unit \<Rightarrow> int \<Rightarrow> int" where
  "bracket_step c depth =
     (if c \<in> set (lit ''([{'') then depth + 1 else if c \<in> set (lit '')]}'') then depth - 1 else depth)"

function split_loop ::
  "jstring \<Rightarrow> jstring \<Rightarrow> jstring \<Rightarrow> jstring \<Rightarrow> int \<Rightarrow> code_unit option \<Rightarrow> jstring list \<Rightarrow> jstring list option" where
  "split_loop source operator rest cur depth quote parts =
     (case rest of
        [] \<Rightarrow> Some (filter (\<lambda>p. p \<noteq> []) (parts @ [trim cur]))
      | c # r \<Rightarrow>
          (case quote of
             Some q \<Rightarrow>
               if c = 92 then split_loop source operator (drop 1 r) (cur @ c # take 1 r) depth quote parts
               else split_loop source operator r (cur @ [c]) depth (if c = q then None else quote) parts
           | None \<Rightarrow>
               if c = 34 \<or> c = 39 then split_loop source operator r (cur @ [c]) depth (Some c) parts
               else if bracket_step c depth \<noteq> 0 then
                 split_loop source operator r (cur @ [c]) (bracket_step c depth) None parts
               else if c = 63 then Some [trim source]
               else if starts_with rest operator then
                 if operator = [] then None
                 else split_loop source operator (drop (length operator) rest) [] 0 None (parts @ [trim cur])
               else split_loop source operator r (cur @ [c]) 0 None parts))"
  by pat_completeness auto
termination split_loop
  by (relation "measure (\<lambda>(source, operator, rest, cur, depth, quote, parts). length rest)") auto

declare split_loop.simps [simp del]

definition splitExpressionAtTopLevel :: "jstring \<Rightarrow> jstring \<Rightarrow> jstring list option" where
  "splitExpressionAtTopLevel source operator = split_loop source operator source [] 0 None []"

subsection \<open>Unwrapping\<close>

text \<open>The scan of one round: whether the depth first returns to zero at the last code unit.\<close>

function closes_at_end :: "jstring \<Rightarrow> int \<Rightarrow> code_unit option \<Rightarrow> bool" where
  "closes_at_end rest depth quote =
     (case rest of
        [] \<Rightarrow> False
      | c # r \<Rightarrow>
          (case quote of
             Some q \<Rightarrow>
               if c = 92 then closes_at_end (drop 1 r) depth quote
               else closes_at_end r depth (if c = q then None else quote)
           | None \<Rightarrow>
               if c = 34 \<or> c = 39 then closes_at_end r depth (Some c)
               else
                 let depth' = (if c = 40 then depth + 1 else if c = 41 then depth - 1 else depth)
                 in if depth' = 0 then r = [] else closes_at_end r depth' None))"
  by pat_completeness auto
termination closes_at_end
  by (relation "measure (\<lambda>(rest, depth, quote). length rest)") auto

declare closes_at_end.simps [simp del]

definition wrapped :: "jstring \<Rightarrow> bool" where
  "wrapped e \<longleftrightarrow> e \<noteq> [] \<and> hd e = 40 \<and> last e = 41"

lemma length_trim: "length (trim s) \<le> length s"
proof -
  have "length (dropWhile is_space (rev (dropWhile is_space s))) \<le> length (rev (dropWhile is_space s))"
    by (rule length_dropWhile_le)
  also have "\<dots> \<le> length s" by (simp add: length_dropWhile_le)
  finally show ?thesis by (simp add: trim_def)
qed

function unwrap_loop :: "jstring \<Rightarrow> jstring" where
  "unwrap_loop expression =
     (if wrapped expression \<and> closes_at_end expression 0 None
      then unwrap_loop (trim (butlast (tl expression))) else expression)"
  by pat_completeness auto
termination unwrap_loop
proof (relation "measure length", goal_cases)
  case (2 e)
  then have "e \<noteq> []" by (simp add: wrapped_def)
  then have "length (butlast (tl e)) < length e" by (cases e) auto
  then show ?case using length_trim [of "butlast (tl e)"] by simp
qed simp

declare unwrap_loop.simps [simp del]

definition unwrapExpressionParens :: "jstring \<Rightarrow> jstring" where
  "unwrapExpressionParens source = unwrap_loop (trim source)"

subsection \<open>Splitting is lossless\<close>

text \<open>The untrimmed pieces between the operators.\<close>

lemma join_snoc: "join sep (ps @ [p, q]) = join sep (ps @ [p]) @ sep @ q"
proof (induction ps)
  case (Cons x ps)
  then show ?case by (cases ps) auto
qed simp

lemma join_snoc_append: "join sep (ps @ [p @ q]) = join sep (ps @ [p]) @ q"
proof (induction ps)
  case (Cons x ps)
  then show ?case by (cases ps) auto
qed simp

lemma starts_with_drop: "starts_with s p \<Longrightarrow> s = p @ drop (length p) s"
  by (metis append_take_drop_id starts_with_def)

text \<open>A text in which no question mark and no operator stands outside brackets and quotes.\<close>

function undivided :: "jstring \<Rightarrow> jstring \<Rightarrow> int \<Rightarrow> code_unit option \<Rightarrow> bool" where
  "undivided operator rest depth quote =
     (case rest of
        [] \<Rightarrow> True
      | c # r \<Rightarrow>
          (case quote of
             Some q \<Rightarrow>
               if c = 92 then undivided operator (drop 1 r) depth quote
               else undivided operator r depth (if c = q then None else quote)
           | None \<Rightarrow>
               if c = 34 \<or> c = 39 then undivided operator r depth (Some c)
               else if bracket_step c depth \<noteq> 0 then undivided operator r (bracket_step c depth) None
               else c \<noteq> 63 \<and> \<not> starts_with rest operator \<and> undivided operator r 0 None))"
  by pat_completeness auto
termination undivided
  by (relation "measure (\<lambda>(operator, rest, depth, quote). length rest)") auto

declare undivided.simps [simp del]

lemma undivided_Nil [simp]: "undivided operator [] depth quote"
  by (simp add: undivided.simps)

text \<open>The piece read so far, continued by a part of the rest, is scanned to the state of the loop.\<close>

definition piece_read :: "jstring \<Rightarrow> jstring \<Rightarrow> jstring \<Rightarrow> int \<Rightarrow> code_unit option \<Rightarrow> bool" where
  "piece_read operator cur rest depth quote \<longleftrightarrow>
     (\<forall>x y. rest = x @ y \<longrightarrow> undivided operator (cur @ x) 0 None = undivided operator x depth quote)"

lemma piece_read_start [simp]: "piece_read operator [] rest 0 None"
  by (simp add: piece_read_def)

lemma piece_read_undivided: "piece_read operator cur rest depth quote \<Longrightarrow> undivided operator cur 0 None"
  unfolding piece_read_def by (metis append.right_neutral append_Nil undivided_Nil)

lemma piece_read_step:
  assumes "piece_read operator cur (c # r) depth quote"
    and "\<And>x y. drop n r = x @ y \<Longrightarrow> undivided operator (c # take n r @ x) depth quote = undivided operator x d q"
  shows "piece_read operator (cur @ c # take n r) (drop n r) d q"
  unfolding piece_read_def
proof (intro allI impI)
  fix x y
  assume x: "drop n r = x @ y"
  then have "c # r = (c # take n r @ x) @ y" by (metis append.assoc append_Cons append_take_drop_id)
  then have "undivided operator (cur @ c # take n r @ x) 0 None = undivided operator (c # take n r @ x) depth quote"
    using assms(1) unfolding piece_read_def by blast
  then show "undivided operator ((cur @ c # take n r) @ x) 0 None = undivided operator x d q"
    using assms(2) [OF x] by simp
qed

lemma starts_with_extend: "starts_with x p \<Longrightarrow> starts_with (x @ y) p"
  using starts_with_drop [of x p] by (metis append.assoc append_eq_conv_conj starts_with_def)

lemma split_loop_lossless:
  assumes "split_loop source operator rest cur depth quote (map trim raws) = Some out"
    and "join operator (raws @ [cur]) @ rest = source" and "piece_read operator cur rest depth quote"
    and "\<forall>p \<in> set raws. undivided operator p 0 None"
  shows "out = [trim source] \<and> 63 \<in> set source \<or>
    (\<exists>raw. join operator raw = source \<and> (\<forall>p \<in> set raw. undivided operator p 0 None) \<and>
      out = filter (\<lambda>p. p \<noteq> []) (map trim raw))"
  using assms
proof (induction "length rest" arbitrary: rest cur depth quote raws rule: less_induct)
  case less
  have cur: "\<forall>p \<in> set (raws @ [cur]). undivided operator p 0 None"
    using less.prems(4) piece_read_undivided [OF less.prems(3)] by simp
  show ?case
  proof (cases rest)
    case Nil
    then have "out = filter (\<lambda>p. p \<noteq> []) (map trim (raws @ [cur]))"
      using less.prems(1) by (simp add: split_loop.simps [of source operator "[]"])
    then show ?thesis using less.prems(2) Nil cur by (intro disjI2 exI [of _ "raws @ [cur]"]) simp
  next
    case (Cons c r)
    note p = less.prems(3) [unfolded Cons]
    have step: ?thesis if "split_loop source operator (drop n r) (cur @ c # take n r) d q (map trim raws) = Some out"
      "\<And>x y. drop n r = x @ y \<Longrightarrow> undivided operator (c # take n r @ x) depth quote = undivided operator x d q"
      for n d q
      using less.hyps [of "drop n r" "cur @ c # take n r" d q raws] that(1) less.prems(2,4) Cons
        piece_read_step [OF p that(2)]
      by (simp add: join_snoc_append)
    have ex: "split_loop source operator (c # r) cur depth quote (map trim raws) = Some out"
      using less.prems(1) Cons by simp
    note eqs = split_loop.simps [of source operator "c # r"] undivided.simps [of operator "c # _"]
    have esc: "drop 1 (take 1 r @ x) = x" if "drop 1 r = x @ y" for x y using that by (cases r) auto
    show ?thesis
    proof (cases quote)
      case (Some q)
      then show ?thesis
        using ex step [of 1 depth quote] step [of 0 depth "if c = q then None else quote"] esc
        by (auto simp: eqs split: if_splits)
    next
      case None
      have cut: ?thesis if s: "starts_with rest operator" "operator \<noteq> []"
        "split_loop source operator (drop (length operator) rest) [] 0 None (map trim (raws @ [cur])) = Some out"
      proof (rule less.hyps [OF _ s(3) _ _ cur])
        show "length (drop (length operator) rest) < length rest" using s(2) Cons by simp
        show "join operator ((raws @ [cur]) @ [[]]) @ drop (length operator) rest = source"
          using join_snoc [of operator raws cur "[]"] starts_with_drop [OF s(1)] less.prems(2)
          by simp
      qed simp
      have plain: "undivided operator (c # x) depth quote = undivided operator x 0 None"
        if "\<not> starts_with (c # r) operator" "r = x @ y" "c \<notin> {34, 39, 63}" "bracket_step c depth = 0" for x y
        using that starts_with_extend [of "c # x" operator y] None by (auto simp: undivided.simps [of operator "c # _"])
      have mark: "63 \<in> set source" if "c = 63" using less.prems(2) Cons that by auto
      consider "c \<in> {34, 39}" | "c \<notin> {34, 39}" "bracket_step c depth \<noteq> 0"
        | "c \<notin> {34, 39}" "bracket_step c depth = 0" "c = 63 \<or> starts_with rest operator"
        | "c \<notin> {34, 39, 63}" "bracket_step c depth = 0" "\<not> starts_with (c # r) operator"
        using Cons by auto
      then show ?thesis
      proof cases
        case 1
        then show ?thesis using ex step [of 0 depth "Some c"] None by (auto simp: eqs)
      next
        case 2
        then show ?thesis using ex step [of 0 "bracket_step c depth" None] None by (auto simp: eqs)
      next
        case 3
        then show ?thesis using ex cut mark None Cons by (auto simp: eqs split: if_splits)
      next
        case 4
        then show ?thesis using ex step [of 0 0 None] plain [OF 4(3) _ 4(1,2)] None
          by (auto simp: split_loop.simps [of source operator "c # r"])
      qed
    qed
  qed
qed

subsection \<open>Parenthesised texts\<close>

text \<open>
  The grammar of texts whose parentheses match: the rest of a string up to its
  closing quote, and texts made of plain characters, strings and parenthesised
  texts.
\<close>

inductive quoted :: "code_unit \<Rightarrow> jstring \<Rightarrow> bool" for q where
  quoted_end: "quoted q [q]"
| quoted_escape: "quoted q s \<Longrightarrow> quoted q (92 # c # s)"
| quoted_plain: "c \<noteq> 92 \<Longrightarrow> c \<noteq> q \<Longrightarrow> quoted q s \<Longrightarrow> quoted q (c # s)"

inductive nested :: "jstring \<Rightarrow> bool" where
  nested_Nil: "nested []"
| nested_plain: "c \<notin> {34, 39, 40, 41} \<Longrightarrow> nested s \<Longrightarrow> nested (c # s)"
| nested_string: "q \<in> {34, 39} \<Longrightarrow> quoted q t \<Longrightarrow> nested s \<Longrightarrow> nested (q # t @ s)"
| nested_parens: "nested t \<Longrightarrow> nested s \<Longrightarrow> nested (40 # t @ 41 # s)"

text \<open>As many closing parentheses as the depth says, each after a matching text.\<close>

inductive closing :: "nat \<Rightarrow> jstring \<Rightarrow> bool" where
  closing_0: "closing 0 []"
| closing_Suc: "nested t \<Longrightarrow> closing d s \<Longrightarrow> closing (Suc d) (t @ 41 # s)"

inductive_cases closing_0E: "closing 0 s"
inductive_cases closing_SucE: "closing (Suc d) s"

lemma closes_quoted: "quoted q t \<Longrightarrow> q \<noteq> 92 \<Longrightarrow> closes_at_end (t @ s) depth (Some q) = closes_at_end s depth None"
  by (induction rule: quoted.induct) (simp_all add: closes_at_end.simps [of "_ # _"])

lemma closes_nested: "nested t \<Longrightarrow> 0 < depth \<Longrightarrow> closes_at_end (t @ s) depth None = closes_at_end s depth None"
proof (induction arbitrary: depth s rule: nested.induct)
  case (nested_string q t u)
  then show ?case using closes_quoted [of q t "u @ s" depth]
    by (auto simp: closes_at_end.simps [of "34 # _"] closes_at_end.simps [of "39 # _"])
next
  case (nested_parens t u)
  then show ?case
    by (simp add: closes_at_end.simps [of "40 # _"] closes_at_end.simps [of "41 # _"])
qed (simp_all add: closes_at_end.simps [of "_ # _"])

lemma closing_prepend:
  assumes "closing d s" "0 < d" "\<And>t. nested t \<Longrightarrow> nested (c # t)"
  shows "closing d (c # s)"
proof -
  obtain e where d: "d = Suc e" using assms(2) by (cases d) auto
  from assms(1) obtain t u where "s = t @ 41 # u" "nested t" "closing e u" unfolding d by (rule closing_SucE)
  then show ?thesis using closing_Suc [OF assms(3), of t e u] d by simp
qed

lemma closing_string: "q \<in> {34, 39} \<Longrightarrow> quoted q t \<Longrightarrow> closing d s \<Longrightarrow> 0 < d \<Longrightarrow> closing d (q # t @ s)"
proof -
  assume a: "q \<in> {34, 39}" "quoted q t" "closing d s" "0 < d"
  then obtain e where d: "d = Suc e" by (cases d) auto
  from a(3) obtain v u where "s = v @ 41 # u" "nested v" "closing e u" unfolding d by (rule closing_SucE)
  then show ?thesis using closing_Suc [OF nested_string [OF a(1,2)], of v e u] d by simp
qed

lemma closing_open: "closing (Suc d) s \<Longrightarrow> 0 < d \<Longrightarrow> closing d (40 # s)"
proof -
  assume a: "closing (Suc d) s" "0 < d"
  then obtain e where d: "d = Suc e" by (cases d) auto
  from a(1) obtain t u where t: "s = t @ 41 # u" "nested t" "closing d u" by (rule closing_SucE)
  from t(3) obtain v w where "u = v @ 41 # w" "nested v" "closing e w" unfolding d by (rule closing_SucE)
  then show ?thesis using closing_Suc [OF nested_parens [OF t(2)], of v e w] d t(1) by simp
qed

lemma closes_at_end_closing:
  "closes_at_end s (int d) quote \<Longrightarrow> 0 < d \<Longrightarrow>
     (case quote of None \<Rightarrow> closing d s | Some q \<Rightarrow> \<exists>t u. s = t @ u \<and> quoted q t \<and> closing d u)"
proof (induction "length s" arbitrary: s d quote rule: less_induct)
  case less
  obtain c r where s: "s = c # r" using less.prems(1) by (cases s) (auto simp: closes_at_end.simps)
  note e = less.prems(1) [unfolded s closes_at_end.simps [of "c # r"]]
  have IH: "closes_at_end r (int d) quote' \<Longrightarrow> 0 < d \<Longrightarrow>
      (case quote' of None \<Rightarrow> closing d r | Some q \<Rightarrow> \<exists>t u. r = t @ u \<and> quoted q t \<and> closing d u)" for d quote'
    using less.hyps [of r d quote'] s by simp
  show ?case
  proof (cases quote)
    case (Some q)
    consider "c = 92" | "c \<noteq> 92" "c = q" | "c \<noteq> 92" "c \<noteq> q" by blast
    then show ?thesis
    proof cases
      case 1
      then have k: "closes_at_end (drop 1 r) (int d) quote" using e Some by simp
      then obtain x r' where r: "r = x # r'" by (cases r) (auto simp: closes_at_end.simps)
      obtain t u where "r' = t @ u" "quoted q t" "closing d u"
        using less.hyps [of r' d quote] k r s less.prems(2) Some by auto
      then have "s = (92 # x # t) @ u" "quoted q (92 # x # t)" "closing d u"
        using s r 1 quoted_escape [of q t x] by auto
      then show ?thesis unfolding Some option.case by blast
    next
      case 2
      then have "closing d r" using e Some IH [of d None] less.prems(2) by simp
      then have "s = [q] @ r" "quoted q [q]" "closing d r" using s 2 quoted_end [of q] by auto
      then show ?thesis unfolding Some option.case by blast
    next
      case 3
      then obtain t u where "r = t @ u" "quoted q t" "closing d u" using e Some IH [of d quote] less.prems(2) by auto
      then have "s = (c # t) @ u" "quoted q (c # t)" "closing d u" using s 3 quoted_plain [of c q t] by auto
      then show ?thesis unfolding Some option.case by blast
    qed
  next
    case None
    consider "c \<in> {34, 39}" | "c = 40" | "c = 41" | "c \<notin> {34, 39, 40, 41}" by blast
    then show ?thesis
    proof cases
      case 1
      then obtain t u where "r = t @ u" "quoted c t" "closing d u" using e None IH [of d "Some c"] less.prems(2) by auto
      then show ?thesis using None s closing_string [OF 1, of t d u] less.prems(2) by simp
    next
      case 2
      then have "closes_at_end r (int (Suc d)) None" using e None less.prems(2) by (simp add: algebra_simps)
      then show ?thesis using None s 2 IH [of "Suc d" None] closing_open [of d r] less.prems(2) by simp
    next
      case 3
      obtain f where d: "d = Suc f" using less.prems(2) by (cases d) auto
      then have "if f = 0 then r = [] else closes_at_end r (int f) None" using e None 3 by auto
      then have "closing f r" using IH [of f None] closing_0 by (cases "f = 0") auto
      then show ?thesis using None s 3 closing_Suc [OF nested_Nil, of f r] d by simp
    next
      case 4
      then have "closing d r" using e None IH [of d None] less.prems(2) by auto
      then show ?thesis using None s closing_prepend [of d r c] nested_plain [OF 4] less.prems(2) by simp
    qed
  qed
qed

lemma wrapped_iff: "wrapped e \<and> closes_at_end e 0 None \<longleftrightarrow> (\<exists>x. e = 40 # x @ [41] \<and> nested x)"
proof
  assume a: "wrapped e \<and> closes_at_end e 0 None"
  then obtain r where e: "e = 40 # r" by (cases e) (auto simp: wrapped_def)
  then have "closes_at_end r (int 1) None" using a by (simp add: closes_at_end.simps [of "40 # r"])
  then have "closing (Suc 0) r" using closes_at_end_closing [of r 1 None] by simp
  then show "\<exists>x. e = 40 # x @ [41] \<and> nested x" unfolding e by (auto elim!: closing_SucE closing_0E)
next
  assume "\<exists>x. e = 40 # x @ [41] \<and> nested x"
  then show "wrapped e \<and> closes_at_end e 0 None"
    using closes_nested [of _ 1 "[41]"]
    by (auto simp: wrapped_def closes_at_end.simps [of "40 # _"] closes_at_end.simps [of "[41]"])
qed

subsection \<open>Unwrapping\<close>

text \<open>
  What taking parentheses off a text may give: the text without the white space
  at its ends, and from a parenthesised matching text what is between the
  parentheses, without the white space at its ends.
\<close>

inductive strips_to :: "jstring \<Rightarrow> jstring \<Rightarrow> bool" for s where
  strips_trim: "strips_to s (trim s)"
| strips_pair: "strips_to s (40 # x @ [41]) \<Longrightarrow> nested x \<Longrightarrow> strips_to s (trim x)"

lemma unwrap_loop_pair: "nested x \<Longrightarrow> unwrap_loop (40 # x @ [41]) = unwrap_loop (trim x)"
  using wrapped_iff [of "40 # x @ [41]"] by (subst unwrap_loop.simps) auto

lemma unwrap_loop_stop: "unwrap_loop e \<noteq> 40 # x @ [41] \<or> \<not> nested x"
proof (induction e rule: unwrap_loop.induct)
  case (1 e)
  then show ?case using wrapped_iff [of e] by (subst unwrap_loop.simps) auto
qed

lemma strips_unwrap_loop: "strips_to s e \<Longrightarrow> strips_to s (unwrap_loop e)"
proof (induction e rule: unwrap_loop.induct)
  case (1 e)
  show ?case
  proof (cases "wrapped e \<and> closes_at_end e 0 None")
    case True
    then obtain x where x: "e = 40 # x @ [41]" "nested x" using wrapped_iff by blast
    then show ?thesis using 1 True strips_pair [of s x] unwrap_loop_pair [OF x(2)] by simp
  next
    case False
    then show ?thesis using 1(2) by (subst unwrap_loop.simps) auto
  qed
qed

lemma trim_unwrap_loop: "trim e = e \<Longrightarrow> trim (unwrap_loop e) = unwrap_loop e"
  by (induction e rule: unwrap_loop.induct) (subst (1 2) unwrap_loop.simps, simp)

text \<open>A text in \<open>n\<close> pairs of parentheses.\<close>

primrec in_parens :: "nat \<Rightarrow> jstring \<Rightarrow> jstring" where
  "in_parens 0 s = s"
| "in_parens (Suc n) s = 40 # in_parens n s @ [41]"

lemma nested_in_parens: "nested s \<Longrightarrow> nested (in_parens n s)"
  using nested_parens [OF _ nested_Nil] by (induction n) auto

lemma unwrap_in_parens:
  assumes "nested s"
  shows "unwrapExpressionParens (in_parens n s) = unwrapExpressionParens s"
proof (induction n)
  case (Suc n)
  have "trim (40 # in_parens n s @ [41]) = 40 # in_parens n s @ [41]" by (intro trim_id) (simp_all add: is_space_def)
  then show ?case using Suc unwrap_loop_pair [OF nested_in_parens [OF assms]]
    by (simp add: unwrapExpressionParens_def)
qed simp

subsection \<open>Properties\<close>

text \<open>
  C14: splitting at a non-empty operator always ends, loses nothing but white
  space and leaves nothing to split: the parts are the non-empty trimmed pieces of
  a division of the source at the operator, so that joining the untrimmed pieces
  with it gives the source back, and in no piece an operator stands outside
  brackets and quotes. Only a source with a question mark may be kept whole.
\<close>

theorem split_is_lossless:
  assumes "operator \<noteq> []"
  shows "\<exists>out. splitExpressionAtTopLevel source operator = Some out \<and>
    (out = [trim source] \<and> 63 \<in> set source \<or>
     (\<exists>raw. join operator raw = source \<and> (\<forall>p \<in> set raw. undivided operator p 0 None) \<and>
       out = filter (\<lambda>p. p \<noteq> []) (map trim raw)))"
proof -
  have "\<exists>out. split_loop source operator rest cur depth quote parts = Some out" for rest cur depth quote parts
    using assms
    by (induction source operator rest cur depth quote parts rule: split_loop.induct)
      (subst split_loop.simps, auto split: list.split option.split)
  then obtain out where "splitExpressionAtTopLevel source operator = Some out"
    unfolding splitExpressionAtTopLevel_def by blast
  then show ?thesis using split_loop_lossless [of source operator source "[]" 0 None "[]" out]
    by (simp add: splitExpressionAtTopLevel_def)
qed

theorem split_is_lossless_witness:
  "\<exists>out. splitExpressionAtTopLevel (lit ''a * (b * c) * d'') (lit ''*'') = Some out \<and>
    out = map lit [''a'', ''(b * c)'', ''d''] \<and>
    (\<exists>raw. join (lit ''*'') raw = lit ''a * (b * c) * d'' \<and> (\<forall>p \<in> set raw. undivided (lit ''*'') p 0 None) \<and>
      out = filter (\<lambda>p. p \<noteq> []) (map trim raw))"
proof -
  have "splitExpressionAtTopLevel (lit ''a * (b * c) * d'') (lit ''*'') = Some (map lit [''a'', ''(b * c)'', ''d''])"
    "63 \<notin> set (lit ''a * (b * c) * d'')" "lit ''*'' \<noteq> []"
    by code_simp+
  then show ?thesis using split_is_lossless [of "lit ''*''" "lit ''a * (b * c) * d''"] by auto
qed

text \<open>
  C15: unwrapping an expression takes off the parentheses around the whole of it
  and nothing else. The result is reached from the source by removing white space
  at the ends and pairs of parentheses between which parentheses match, as the
  grammar of matching texts says; no such pair is left around it; it has no white
  space at its ends and unwrapping it again changes nothing; and a matching text
  in any number of pairs of parentheses is unwrapped to the same result.
\<close>

theorem unwrap_removes_enclosing_parens_only:
  "strips_to s (unwrapExpressionParens s) \<and>
   (\<nexists>x. unwrapExpressionParens s = 40 # x @ [41] \<and> nested x) \<and>
   trim (unwrapExpressionParens s) = unwrapExpressionParens s \<and>
   unwrapExpressionParens (unwrapExpressionParens s) = unwrapExpressionParens s \<and>
   (nested s \<longrightarrow> unwrapExpressionParens (in_parens n s) = unwrapExpressionParens s)"
proof -
  have i: "unwrap_loop (unwrap_loop e) = unwrap_loop e" for e
    using unwrap_loop_stop [of e] wrapped_iff [of "unwrap_loop e"] by (subst unwrap_loop.simps) auto
  show ?thesis
    using strips_unwrap_loop [OF strips_trim, of s] unwrap_loop_stop [of "trim s"] trim_unwrap_loop [of "trim s"]
      i [of "trim s"] unwrap_in_parens [of s n]
    by (auto simp: unwrapExpressionParens_def)
qed

theorem unwrap_removes_enclosing_parens_only_witness:
  "unwrapExpressionParens (in_parens 3 (lit ''(a)*(b)'')) = lit ''(a)*(b)'' \<and>
   strips_to (lit ''(a)*(b)'') (lit ''(a)*(b)'')"
proof -
  have "lit ''(a)*(b)'' = [40, 97, 41, 42, 40, 98, 41]" by code_simp
  then have "nested (lit ''(a)*(b)'')"
    using nested_parens [OF nested_plain [of 97, OF _ nested_Nil] nested_plain [of 42, OF _
        nested_parens [OF nested_plain [of 98, OF _ nested_Nil] nested_Nil]]] by simp
  moreover have "unwrapExpressionParens (lit ''(a)*(b)'') = lit ''(a)*(b)''" by code_simp
  ultimately show ?thesis using unwrap_removes_enclosing_parens_only [of "lit ''(a)*(b)''" 3] by simp
qed

end
