(* ===== verification/Billing_Types.thy ===== *)
theory Billing_Types
  imports JS_String
begin

text \<open>
  The types of the billing expression language
  (\<open>web/src/features/pricing/lib/billing-expression/types.ts\<close>): its variables
  and functions, the syntax tree with source spans, diagnostics and failures,
  the bounded traversal \<open>visitExpression\<close>, and the dependencies of an
  expression. The iterative traversal is shown equal to the recursive
  post-order walk it stands for.
\<close>

subsection \<open>Vocabulary\<close>

definition TOKEN_VARIABLES :: "jstring list" where
  "TOKEN_VARIABLES =
     map lit [''p'', ''c'', ''len'', ''cr'', ''cc'', ''cc1h'', ''img'', ''img_cr'', ''img_o'', ''ai'', ''ao'']"

definition BILLING_VARIABLES :: "jstring list" where
  "BILLING_VARIABLES = TOKEN_VARIABLES @ [lit ''image_count'']"

definition TIME_FUNCTIONS :: "jstring list" where
  "TIME_FUNCTIONS = map lit [''hour'', ''minute'', ''weekday'', ''month'', ''day'']"

definition BILLING_FUNCTIONS :: "(jstring \<times> nat) list" where
  "BILLING_FUNCTIONS =
     map (\<lambda>(f, n). (lit f, n))
       [(''tier'', 2), (''fixed'', 1), (''param'', 1), (''header'', 1), (''has'', 2), (''u'', 1),
        (''hour'', 1), (''minute'', 1), (''weekday'', 1), (''month'', 1), (''day'', 1),
        (''min'', 2), (''max'', 2), (''abs'', 1), (''ceil'', 1), (''floor'', 1)]"

subsection \<open>The syntax tree\<close>

text \<open>
  \<open>ExpressionNode\<close>: the flag of a literal is its optional field \<open>integer\<close>,
  which the code only reads as a condition (absent counts as false); every node
  carries the offsets \<open>start\<close> and \<open>end\<close> of the source text it was read from.
\<close>

datatype literal_value = LString jstring | LNumber number | LBoolean bool | LNil

datatype node =
    Literal literal_value bool (node_start: nat) (node_end: nat)
  | Variable jstring (node_start: nat) (node_end: nat)
  | Call jstring "node list" (node_start: nat) (node_end: nat)
  | Unary jstring node (node_start: nat) (node_end: nat)
  | Binary jstring node node (node_start: nat) (node_end: nat)
  | Conditional node node node (node_start: nat) (node_end: nat)

fun set_span :: "node \<Rightarrow> nat \<Rightarrow> nat \<Rightarrow> node" where
  "set_span (Literal v i _ _) a b = Literal v i a b"
| "set_span (Variable x _ _) a b = Variable x a b"
| "set_span (Call f ns _ _) a b = Call f ns a b"
| "set_span (Unary p n _ _) a b = Unary p n a b"
| "set_span (Binary p l r _ _) a b = Binary p l r a b"
| "set_span (Conditional c y n _ _) a b = Conditional c y n a b"

lemma set_span_span [simp]: "node_start (set_span n a b) = a" "node_end (set_span n a b) = b"
  by (cases n; simp)+

fun node_children :: "node \<Rightarrow> node list" where
  "node_children (Literal _ _ _ _) = []"
| "node_children (Variable _ _ _) = []"
| "node_children (Call _ ns _ _) = ns"
| "node_children (Unary _ n _ _) = [n]"
| "node_children (Binary _ l r _ _) = [l, r]"
| "node_children (Conditional c y n _ _) = [c, y, n]"

lemma node_children_set_span [simp]: "node_children (set_span n a b) = node_children n"
  by (cases n) simp_all

lemma node_children_size [termination_simp]: "c \<in> set (node_children n) \<Longrightarrow> size c < size n"
  by (cases n) (auto simp: less_Suc_eq_le dest: size_list_estimation' [OF _ order_refl])

text \<open>Induction over the tree along \<open>node_children\<close>.\<close>

lemma node_tree_induct [case_names node]:
  assumes "\<And>n. (\<And>c. c \<in> set (node_children n) \<Longrightarrow> P c) \<Longrightarrow> P n"
  shows "P n"
  by (induction n rule: measure_induct_rule [of size]) (rule assms, simp add: node_children_size)

fun subnodes :: "node \<Rightarrow> node list" where
  "subnodes n = concat (map subnodes (node_children n)) @ [n]"

declare subnodes.simps [simp del]

subsection \<open>Diagnostics\<close>

datatype diagnostic_code = C_syntax | C_unsupported | C_missing_context | C_type | C_number | C_limit

record diagnostic =
  d_code :: diagnostic_code
  d_detail :: jstring
  d_position :: "nat option"

text \<open>What the code throws: a \<open>BillingExpressionError\<close>, or another \<open>Error\<close> with its message.\<close>

datatype js_error = BillingExpressionError diagnostic | OtherError jstring

abbreviation billing_error :: "diagnostic_code \<Rightarrow> jstring \<Rightarrow> nat option \<Rightarrow> js_error" where
  "billing_error c d p \<equiv> BillingExpressionError \<lparr>d_code = c, d_detail = d, d_position = p\<rparr>"

datatype failure_status = S_unsupported | S_invalid | S_missing_context

record expression_failure =
  f_status :: failure_status
  f_diagnostic :: diagnostic

definition expressionFailure :: "js_error \<Rightarrow> expression_failure" where
  "expressionFailure error =
     (let d = (case error of
                 BillingExpressionError dg \<Rightarrow> dg
               | OtherError m \<Rightarrow> \<lparr>d_code = C_syntax, d_detail = m, d_position = None\<rparr>);
          s1 = (if d_code d = C_missing_context then S_missing_context else S_invalid);
          s2 = (if d_code d = C_unsupported \<or> d_code d = C_limit then S_unsupported else s1)
      in \<lparr>f_status = s2, f_diagnostic = d\<rparr>)"

subsection \<open>Bounded post-order traversal\<close>

abbreviation depth_error :: js_error where
  "depth_error \<equiv> billing_error C_limit (lit ''expression depth'') None"

text \<open>
  The explicit stack of \<open>visitExpression\<close>, its top first: an entry is a node,
  whether its children have been pushed, and its depth. The visitor is a
  fallible state transformer.
\<close>

type_synonym visit_entry = "node \<times> bool \<times> nat"

fun node_weight :: "node \<Rightarrow> nat" where
  "node_weight n = 2 + sum_list (map node_weight (node_children n))"

declare node_weight.simps [simp del]

function visit_loop ::
  "(node \<Rightarrow> 's \<Rightarrow> js_error + 's) \<Rightarrow> visit_entry list \<Rightarrow> 's \<Rightarrow> js_error + 's" where
  "visit_loop f [] s = Inr s"
| "visit_loop f ((n, visited, d) # stack) s =
     (if 256 < d then Inl depth_error
      else if visited then ebind (f n s) (visit_loop f stack)
      else visit_loop f (map (\<lambda>c. (c, False, d + 1)) (node_children n) @ (n, True, d) # stack) s)"
  by pat_completeness auto
termination
proof (relation "measure (\<lambda>(f, st, s). sum_list (map (\<lambda>(n, v, d). if v then 1 else node_weight n) st))",
    goal_cases)
  case (3 f n visited d stack s)
  then show ?case by (simp add: node_weight.simps [of n] comp_def)
qed auto

declare visit_loop.simps(2) [simp del]

definition visitExpression :: "node \<Rightarrow> (node \<Rightarrow> 's \<Rightarrow> js_error + 's) \<Rightarrow> 's \<Rightarrow> js_error + 's" where
  "visitExpression n f s = visit_loop f [(n, False, 0)] s"

text \<open>The recursive walk the loop stands for: the children, one level deeper, then the node.\<close>

fun efold :: "('a \<Rightarrow> 's \<Rightarrow> 'e + 's) \<Rightarrow> 'a list \<Rightarrow> 's \<Rightarrow> 'e + 's" where
  "efold f [] s = Inr s"
| "efold f (x # xs) s = ebind (f x s) (efold f xs)"

lemma efold_cong [fundef_cong]:
  assumes "xs = ys" and "s = t" and "\<And>x s. x \<in> set ys \<Longrightarrow> f x s = g x s"
  shows "efold f xs s = efold g ys t"
proof -
  have "efold f ys s = efold g ys s" for s
    using assms(3) by (induction ys arbitrary: s) (auto intro!: ebind_cong)
  then show ?thesis using assms(1,2) by simp
qed

lemma efold_append: "efold f (xs @ ys) s = ebind (efold f xs s) (efold f ys)"
  by (induction xs arbitrary: s) (auto simp: ebind_assoc intro!: ebind_cong)

fun visit_rec :: "(node \<Rightarrow> 's \<Rightarrow> js_error + 's) \<Rightarrow> nat \<Rightarrow> node \<Rightarrow> 's \<Rightarrow> js_error + 's" where
  "visit_rec f d n s =
     (if 256 < d then Inl depth_error
      else ebind (efold (\<lambda>c. visit_rec f (d + 1) c) (node_children n) s) (f n))"

declare visit_rec.simps [simp del]

lemma visit_loop_rec:
  "visit_loop f ((n, False, d) # stack) s = ebind (visit_rec f d n s) (visit_loop f stack)"
proof (induction n arbitrary: d stack s rule: node_tree_induct)
  case (node n)
  have kids: "visit_loop f (map (\<lambda>c. (c, False, Suc d)) cs @ st) s
      = ebind (efold (visit_rec f (Suc d)) cs s) (visit_loop f st)"
    if "set cs \<subseteq> set (node_children n)" for cs st s
    using that by (induction cs arbitrary: s) (auto simp: node ebind_assoc intro!: ebind_cong)
  show ?case
    by (auto simp: visit_rec.simps [of f d n s] visit_loop.simps(2) [of f n _ d] kids [OF subset_refl] ebind_assoc
        intro!: ebind_cong)
qed

lemma visitExpression_rec: "visitExpression n f s = visit_rec f 0 n s"
  using visit_loop_rec [of f n 0 "[]" s] by (cases "visit_rec f 0 n s") (auto simp: visitExpression_def)

text \<open>
  Depth of a tree. A walk succeeds when the tree is at most 256 deep and the visitor
  succeeds on its nodes in post-order.
\<close>

fun node_depth :: "node \<Rightarrow> nat" where
  "node_depth n = foldr (\<lambda>c k. max (Suc (node_depth c)) k) (node_children n) 0"

declare node_depth.simps [simp del]

lemma foldr_max_le: "foldr (\<lambda>c k. max (f c) k) cs 0 \<le> (m :: nat) \<longleftrightarrow> (\<forall>c \<in> set cs. f c \<le> m)"
  by (induction cs) auto

lemma node_depth_le: "node_depth n \<le> m \<longleftrightarrow> (\<forall>c \<in> set (node_children n). node_depth c < m)"
  by (simp add: node_depth.simps [of n] foldr_max_le Suc_le_eq)

lemma visit_rec_Inr_iff:
  "visit_rec f d n s = Inr s' \<longleftrightarrow> d + node_depth n \<le> 256 \<and> efold f (subnodes n) s = Inr s'"
proof (induction n arbitrary: d s s' rule: node_tree_induct)
  case (node n)
  have kids: "efold (visit_rec f (Suc d)) cs s = Inr s' \<longleftrightarrow>
      (\<forall>c \<in> set cs. d + node_depth c < 256) \<and> efold f (concat (map subnodes cs)) s = Inr s'"
    if "set cs \<subseteq> set (node_children n)" for cs s s'
    using that by (induction cs arbitrary: s) (auto simp: node efold_append err_simps)
  have "d + node_depth n \<le> 256 \<longleftrightarrow> d \<le> 256 \<and> (\<forall>c \<in> set (node_children n). d + node_depth c < 256)"
    using node_depth_le [of n "256 - d"] by (auto simp: less_diff_conv2 less_diff_conv add.commute)
  then show ?case
    by (auto simp: visit_rec.simps [of f d n s] subnodes.simps [of n] efold_append err_simps kids [OF subset_refl])
qed

lemma visitExpression_Inr_iff:
  "visitExpression n f s = Inr s' \<longleftrightarrow> node_depth n \<le> 256 \<and> efold f (subnodes n) s = Inr s'"
  by (simp add: visitExpression_rec visit_rec_Inr_iff)

subsection \<open>Dependencies\<close>

text \<open>A JavaScript \<open>Set\<close> as the list of its elements in insertion order.\<close>

definition set_add :: "'a \<Rightarrow> 'a list \<Rightarrow> 'a list" where
  "set_add x xs = (if x \<in> set xs then xs else xs @ [x])"

lemma set_set_add [simp]: "set (set_add x xs) = insert x (set xs)"
  by (auto simp: set_add_def)

definition add_dependency :: "node \<Rightarrow> jstring list \<times> jstring list \<Rightarrow> js_error + jstring list \<times> jstring list" where
  "add_dependency part s =
     (case part of
        Variable x _ _ \<Rightarrow> Inr (set_add x (fst s), snd s)
      | Call f _ _ _ \<Rightarrow> Inr (fst s, set_add f (snd s))
      | _ \<Rightarrow> Inr s)"

definition expressionDependencies :: "node \<Rightarrow> js_error + jstring list \<times> jstring list" where
  "expressionDependencies n = visitExpression n add_dependency ([], [])"

text \<open>The sets \<open>expressionDependencies\<close> collects, read off the tree.\<close>

definition called_functions :: "node \<Rightarrow> jstring set" where
  "called_functions n = {f. \<exists>ns a b. Call f ns a b \<in> set (subnodes n)}"

definition used_variables :: "node \<Rightarrow> jstring set" where
  "used_variables n = {x. \<exists>a b. Variable x a b \<in> set (subnodes n)}"

lemma efold_add_dependency:
  "efold add_dependency ns s = Inr (vs, fs) \<Longrightarrow>
     set vs = set (fst s) \<union> {x. \<exists>a b. Variable x a b \<in> set ns} \<and>
     set fs = set (snd s) \<union> {f. \<exists>as a b. Call f as a b \<in> set ns}"
proof (induction ns arbitrary: s)
  case (Cons n ns)
  then obtain t where t: "add_dependency n s = Inr t" "efold add_dependency ns t = Inr (vs, fs)"
    by (auto simp: err_simps)
  show ?case using Cons.IH [OF t(2)] t(1)
    by (fastforce simp: add_dependency_def split: node.splits)
qed simp

lemma efold_add_dependency_total: "\<exists>s'. efold add_dependency ns s = Inr s'"
  by (induction ns arbitrary: s) (auto simp: add_dependency_def split: node.splits)

lemma expressionDependencies_Inr:
  "expressionDependencies n = Inr (vs, fs) \<Longrightarrow>
     set vs = used_variables n \<and> set fs = called_functions n \<and> node_depth n \<le> 256"
  using efold_add_dependency [of "subnodes n" "([], [])" vs fs]
  by (simp add: expressionDependencies_def visitExpression_Inr_iff used_variables_def called_functions_def)

lemma expressionDependencies_total: "node_depth n \<le> 256 \<Longrightarrow> \<exists>d. expressionDependencies n = Inr d"
  using efold_add_dependency_total [of "subnodes n" "([], [])"]
  by (auto simp: expressionDependencies_def visitExpression_Inr_iff)

subsection \<open>Property\<close>

text \<open>
  C8: the iterative traversal \<open>visitExpression\<close>, with its explicit stack and its
  two visits to every entry, runs the visitor exactly as the recursive
  post-order walk does: the children from left to right, one level deeper, then
  the node; a node below depth 256 stops it with the same error.
\<close>

theorem visitExpression_is_post_order: "visitExpression n f s = visit_rec f 0 n s"
  by (rule visitExpression_rec)

end
