(* ===== verification/Billing_Lexer.thy ===== *)
theory Billing_Lexer
  imports Billing_Types
begin

text \<open>
  The lexer of the billing expression parser: the method \<open>next\<close> of
  \<open>BillingParser\<close> in \<open>billing-expression/parser.ts\<close>, with its token limit,
  numeric and string literals, names and operators. The lemmas say what every
  lexeme is: a nonempty piece of the source between the old and the new cursor,
  and numbers are finite doubles.
\<close>

subsection \<open>Lexemes\<close>

datatype lexeme_kind = K_number | K_string | K_symbol | K_name | K_end

record lexeme =
  lx_kind :: lexeme_kind
  lx_text :: jstring
  lx_start :: nat
  lx_end :: nat
  lx_value :: literal_value
  lx_integer :: bool

abbreviation mk_lexeme :: "lexeme_kind \<Rightarrow> jstring \<Rightarrow> nat \<Rightarrow> nat \<Rightarrow> lexeme" where
  "mk_lexeme k t a b \<equiv>
     \<lparr>lx_kind = k, lx_text = t, lx_start = a, lx_end = b, lx_value = LNil, lx_integer = False\<rparr>"

subsection \<open>String literals\<close>

definition string_escape :: "code_unit \<Rightarrow> code_unit option" where
  "string_escape c =
     map_of [(110, 10), (114, 13), (116, 9), (98, 8), (102, 12), (118, 11),
             (92, 92), (34, 34), (39, 39), (47, 47)] c"

abbreviation unterminated :: "nat \<Rightarrow> js_error" where
  "unterminated p \<equiv> billing_error C_syntax (lit ''unterminated string'') (Some p)"

function string_loop :: "jstring \<Rightarrow> code_unit \<Rightarrow> nat \<Rightarrow> nat \<Rightarrow> jstring \<Rightarrow> js_error + jstring \<times> nat" where
  "string_loop src quote begn cur value =
     (if length src \<le> cur then Inl (unterminated begn)
      else if src ! cur = quote then Inr (value, cur + 1)
      else if src ! cur = 10 \<or> src ! cur = 13 then Inl (unterminated begn)
      else if src ! cur \<noteq> 92 then string_loop src quote begn (cur + 1) (value @ [src ! cur])
      else if length src \<le> cur + 1 then
        Inl (billing_error C_unsupported (lit ''string escape'') (Some (cur + 1)))
      else
        let escaped = src ! (cur + 1)
        in case string_escape escaped of
             Some c \<Rightarrow> string_loop src quote begn (cur + 2) (value @ [c])
           | None \<Rightarrow>
               if escaped = 117 \<or> escaped = 120 then
                 let len = (if escaped = 117 then 4 else 2);
                     hex = slice src (cur + 2) (cur + 2 + len)
                 in if length hex \<noteq> len \<or> \<not> list_all is_hex hex then Inl (unterminated begn)
                    else string_loop src quote begn (cur + 2 + len) (value @ [parse_hex hex])
               else Inl (billing_error C_unsupported (lit ''string escape'') (Some (cur + 1))))"
  by pat_completeness auto
termination
  by (relation "measure (\<lambda>(src, quote, begn, cur, value). length src - cur)") auto

declare string_loop.simps [simp del]

subsection \<open>Names and operators\<close>

definition scan_name :: "jstring \<Rightarrow> jstring" where
  "scan_name s =
     (case s of c # r \<Rightarrow> if is_letter c \<or> c = 95 then c # takeWhile is_word r else [] | [] \<Rightarrow> [])"

definition two_unit_operators :: "jstring list" where
  "two_unit_operators = map lit [''&&'', ''||'', ''=='', ''!='', ''<='', ''>='']"

definition one_unit_operators :: jstring where
  "one_unit_operators = lit ''+-*/%<>()!?:,''"

definition scan_operator :: "jstring \<Rightarrow> jstring" where
  "scan_operator s =
     (if take 2 s \<in> set two_unit_operators then take 2 s
      else if s \<noteq> [] \<and> hd s \<in> set one_unit_operators then [hd s]
      else [])"

subsection \<open>The next lexeme\<close>

text \<open>Skipping white space: the offset of the first code unit at or after \<open>cur\<close> that is not one.\<close>

definition skip_space :: "jstring \<Rightarrow> nat \<Rightarrow> nat" where
  "skip_space src cur = cur + length (takeWhile is_space (drop cur src))"

definition lex_number :: "jstring \<Rightarrow> nat \<Rightarrow> js_error + lexeme" where
  "lex_number text begn =
     (let value = decimal_number text;
          integer = (46 \<notin> set text \<and> 101 \<notin> set text \<and> 69 \<notin> set text)
      in if \<not> isFinite value then Inl (billing_error C_number text (Some begn))
         else if integer \<and> \<not> isSafeInteger value then
           Inl (billing_error C_unsupported (lit ''integer precision'') (Some begn))
         else Inr \<lparr>lx_kind = K_number, lx_text = text, lx_start = begn,
                   lx_end = begn + length text, lx_value = LNumber value, lx_integer = integer\<rparr>)"

definition lex_string :: "jstring \<Rightarrow> nat \<Rightarrow> js_error + lexeme" where
  "lex_string src begn =
     ebind (string_loop src (src ! begn) begn (begn + 1) []) (\<lambda>(value, cur).
       Inr \<lparr>lx_kind = K_string, lx_text = slice src begn cur, lx_start = begn,
            lx_end = cur, lx_value = LString value, lx_integer = False\<rparr>)"

text \<open>
  \<open>next_lexeme src cur cnt\<close> is \<open>next()\<close> at cursor \<open>cur\<close> with token count \<open>cnt\<close>.
  Its result is the lexeme; the new cursor is the end of the lexeme and the new
  count is \<open>cnt + 1\<close>.
\<close>

definition next_lexeme :: "jstring \<Rightarrow> nat \<Rightarrow> nat \<Rightarrow> js_error + lexeme" where
  "next_lexeme src cur cnt =
     (if 10000 < cnt + 1 then Inl (billing_error C_limit (lit ''expression tokens'') None)
      else
        let begn = skip_space src cur; rest = drop begn src
        in if rest = [] then Inr (mk_lexeme K_end [] begn begn)
           else if scan_number rest \<noteq> [] then lex_number (scan_number rest) begn
           else if hd rest = 34 \<or> hd rest = 39 then lex_string src begn
           else if scan_name rest \<noteq> [] then
             Inr (mk_lexeme K_name (scan_name rest) begn (begn + length (scan_name rest)))
           else if scan_operator rest = [] then
             Inl (billing_error C_unsupported [hd rest] (Some begn))
           else Inr (mk_lexeme K_symbol (scan_operator rest) begn (begn + length (scan_operator rest))))"

subsection \<open>Every lexeme is a piece of the source\<close>

lemma string_loop_span:
  "string_loop src q b cur v = Inr (w, e) \<Longrightarrow> cur < e \<and> e \<le> length src"
proof (induction "length src - cur" arbitrary: cur v rule: less_induct)
  case less
  have IH: "cur < cur' \<Longrightarrow> cur < length src \<Longrightarrow> string_loop src q b cur' v' = Inr (w, e) \<Longrightarrow>
      cur' < e \<and> e \<le> length src" for cur' v'
    by (rule less.hyps) auto
  from less.prems show ?case
    by (subst (asm) string_loop.simps)
      (auto simp: Let_def split: if_splits option.splits dest!: IH [rotated 2])
qed

lemma takeWhile_prefix_append: "prefix (takeWhile P s @ t) s \<longleftrightarrow> prefix t (dropWhile P s)"
  by (metis same_prefix_prefix takeWhile_dropWhile_id)

lemma scan_mantissa_prefix: "prefix (scan_mantissa s) s"
proof -
  have "dropWhile is_digit s = c # r \<Longrightarrow> prefix (takeWhile is_digit s @ c # takeWhile is_digit r) s" for c r
    by (simp add: takeWhile_prefix_append takeWhile_is_prefix)
  moreover have "dropWhile is_digit s = c # r \<Longrightarrow> takeWhile is_digit s = [] \<Longrightarrow> s = c # r" for c r
    by (metis append_Nil takeWhile_dropWhile_id)
  ultimately show ?thesis
    by (auto simp: scan_mantissa_def Let_def takeWhile_is_prefix split: list.splits)
qed

lemma scan_exponent_prefix: "prefix (scan_exponent s) s"
proof (cases s)
  case (Cons c r)
  have "prefix ([d] @ takeWhile is_digit r') (d # r')" for d r'
    by (simp add: takeWhile_is_prefix)
  then show ?thesis
    by (auto simp: scan_exponent_def Cons Let_def takeWhile_is_prefix split: list.splits)
qed (simp add: scan_exponent_def)

lemma scan_number_prefix: "prefix (scan_number s) s"
proof -
  obtain r where r: "s = scan_mantissa s @ r" using scan_mantissa_prefix by (auto simp: prefix_def)
  then have "drop (length (scan_mantissa s)) s = r" by (metis append_eq_conv_conj)
  then have "prefix (scan_mantissa s @ scan_exponent (drop (length (scan_mantissa s)) s)) s"
    by (metis r same_prefix_prefix scan_exponent_prefix)
  then show ?thesis by (simp add: scan_number_def Let_def)
qed

lemma scan_name_prefix: "prefix (scan_name s) s"
  by (auto simp: scan_name_def takeWhile_is_prefix split: list.splits)

lemma scan_operator_prefix: "prefix (scan_operator s) s"
  by (cases s) (auto simp: scan_operator_def take_is_prefix)

text \<open>
  The span of a lexeme: it starts at or after the cursor, ends inside the
  source, holds its own text, and is empty only for the end of the source.
\<close>

definition lexeme_ok :: "jstring \<Rightarrow> nat \<Rightarrow> lexeme \<Rightarrow> bool" where
  "lexeme_ok src cur l \<longleftrightarrow>
     cur \<le> lx_start l \<and> lx_start l \<le> lx_end l \<and>
     (lx_kind l = K_end \<longleftrightarrow> lx_start l = lx_end l) \<and>
     (lx_kind l \<noteq> K_end \<longrightarrow> lx_end l \<le> length src) \<and>
     lx_text l = slice src (lx_start l) (lx_end l)"

lemma prefix_at:
  assumes "prefix t (drop b src)"
  shows "t = slice src b (b + length t)" "t \<noteq> [] \<Longrightarrow> b + length t \<le> length src"
proof -
  show "t = slice src b (b + length t)"
    using assms by (auto simp: slice_def prefix_def)
  have "length t \<le> length src - b" using assms by (metis length_drop prefix_length_le)
  then show "t \<noteq> [] \<Longrightarrow> b + length t \<le> length src" by (cases t) auto
qed

lemma lexeme_ok_prefix:
  assumes "prefix t (drop b src)" "t \<noteq> []" "cur \<le> b"
    and "lx_text l = t" "lx_start l = b" "lx_end l = b + length t" "lx_kind l \<noteq> K_end"
  shows "lexeme_ok src cur l"
  using prefix_at [OF assms(1)] assms(2-) by (auto simp: lexeme_ok_def)

lemma lex_number_ok:
  assumes "lex_number t b = Inr l" "prefix t (drop b src)" "t \<noteq> []" "cur \<le> b"
  shows "lexeme_ok src cur l"
  using assms by (intro lexeme_ok_prefix [of t b]) (auto simp: lex_number_def Let_def split: if_splits)

lemma lex_string_ok:
  assumes "lex_string src b = Inr l" "cur \<le> b"
  shows "lexeme_ok src cur l"
  using assms by (auto simp: lex_string_def err_simps lexeme_ok_def dest!: string_loop_span)

lemma next_lexeme_ok:
  assumes "next_lexeme src cur cnt = Inr l"
  shows "lexeme_ok src cur l" "cnt < 10000"
proof -
  define b where "b = skip_space src cur"
  have b: "cur \<le> b" by (simp add: b_def skip_space_def)
  have e: "lexeme_ok src cur (mk_lexeme K_end [] b b)" using b by (simp add: lexeme_ok_def slice_def)
  show "lexeme_ok src cur l"
    using assms b e
    unfolding next_lexeme_def Let_def b_def [symmetric]
    by (auto simp del: drop_eq_Nil split: if_splits
        intro: lex_number_ok [OF _ scan_number_prefix] lex_string_ok
          lexeme_ok_prefix [OF scan_name_prefix] lexeme_ok_prefix [OF scan_operator_prefix])
  show "cnt < 10000" using assms by (auto simp: next_lexeme_def split: if_splits)
qed

text \<open>Numeric lexemes hold finite, non-negative doubles; an integer one is a safe integer.\<close>

definition number_ok :: "number \<Rightarrow> bool \<Rightarrow> bool" where
  "number_ok v i \<longleftrightarrow> is_double v \<and> (\<exists>q. v = Fin q \<and> 0 \<le> q) \<and> (i \<longrightarrow> isSafeInteger v)"

lemma number_ok_code [code]:
  "number_ok v i \<longleftrightarrow> is_double v \<and> (case v of Fin q \<Rightarrow> 0 \<le> q | _ \<Rightarrow> False) \<and> (i \<longrightarrow> isSafeInteger v)"
  by (cases v) (simp_all add: number_ok_def)

lemma decimal_rat_nonneg: "0 \<le> decimal_rat s"
proof -
  have d: "c \<in> set (takeWhile is_digit t) \<Longrightarrow> is_digit c" for c t by (rule set_takeWhileD [THEN conjunct2])
  have "0 \<le> digits_val (takeWhile is_digit s @ (case dropWhile is_digit s of [] \<Rightarrow> [] | c # r \<Rightarrow>
      if c = 46 then takeWhile is_digit r else []))"
    by (rule digits_val_nonneg) (auto split: list.splits if_splits dest: d)
  then show ?thesis by (simp add: decimal_rat_def Let_def)
qed

lemma lex_number_value:
  assumes "lex_number t b = Inr l"
  shows "\<exists>v. lx_value l = LNumber v \<and> number_ok v (lx_integer l)"
proof -
  have fin: "isFinite (decimal_number t) \<Longrightarrow> \<exists>q. decimal_number t = Fin q \<and> 0 \<le> q"
    using decimal_rat_nonneg [of t] round_mag_nonneg [of "decimal_rat t"]
    by (auto simp: decimal_number_def num_of_rat_def Let_def isFinite_def)
  have "is_double (decimal_number t)" by (simp add: decimal_number_def)
  then show ?thesis using assms fin
    by (auto simp: lex_number_def Let_def number_ok_def split: if_splits)
qed

lemma next_lexeme_value:
  assumes "next_lexeme src cur cnt = Inr l"
  shows "lx_kind l = K_number \<Longrightarrow> \<exists>v. lx_value l = LNumber v \<and> number_ok v (lx_integer l)"
    and "lx_kind l = K_string \<Longrightarrow> \<exists>v. lx_value l = LString v"
  using assms
  by (auto simp: next_lexeme_def Let_def lex_string_def err_simps lex_number_value simp del: drop_eq_Nil
      split: if_splits) (auto simp: lex_number_def Let_def split: if_splits)

end
