(* ===== verification/Billing_Parser.thy ===== *)
theory Billing_Parser
  imports Billing_Lexer
begin

text \<open>
  The recursive descent parser \<open>BillingParser\<close> of
  \<open>billing-expression/parser.ts\<close>: its state (cursor, token count, nesting
  depth, lookahead), the precedence loop, and its length, token and depth
  limits. Its loops end because every token that is taken raises the token
  count, which the lexer bounds. The lemmas show that the spans of the tree it
  builds nest and follow each other in the source.
\<close>

subsection \<open>State\<close>

record parser =
  p_cursor :: nat
  p_count :: nat
  p_depth :: nat
  p_current :: lexeme

definition PRECEDENCE :: "(jstring \<times> nat) list" where
  "PRECEDENCE =
     map (\<lambda>(x, n). (lit x, n))
       [(''||'', 1), (''&&'', 2), (''=='', 3), (''!='', 3), (''<'', 4), (''<='', 4), (''>'', 4),
        (''>='', 4), (''+'', 5), (''-'', 5), (''*'', 6), (''/'', 6), (''%'', 6)]"

text \<open>The optional version prefix \<open>/^\s*v(\d+):/\<close>: what it matched and its digits.\<close>

definition match_version :: "jstring \<Rightarrow> (jstring \<times> jstring) option" where
  "match_version s =
     (let ws = takeWhile is_space s; r = dropWhile is_space s
      in case r of
           c # r' \<Rightarrow>
             (let ds = takeWhile is_digit r'; r'' = dropWhile is_digit r'
              in if c = 118 \<and> ds \<noteq> [] \<and> r'' \<noteq> [] \<and> hd r'' = 58
                 then Some (ws @ c # ds @ [58], ds) else None)
         | [] \<Rightarrow> None)"

definition new_parser :: "jstring \<Rightarrow> js_error + parser" where
  "new_parser source =
     (if 65536 < length source then Inl (billing_error C_limit (lit ''expression length'') None)
      else
        let cur = (case match_version source of
                     Some (m, ds) \<Rightarrow> if ds \<noteq> lit ''1'' then Inl (billing_error C_unsupported m None)
                                     else Inr (length m)
                   | None \<Rightarrow> Inr 0)
        in ebind cur (\<lambda>cursor.
             ebind (next_lexeme source cursor 0) (\<lambda>l.
               Inr \<lparr>p_cursor = lx_end l, p_count = 1, p_depth = 0, p_current = l\<rparr>)))"

definition take_token :: "jstring \<Rightarrow> parser \<Rightarrow> js_error + lexeme \<times> parser" where
  "take_token src st =
     ebind (next_lexeme src (p_cursor st) (p_count st)) (\<lambda>l.
       Inr (p_current st, st\<lparr>p_cursor := lx_end l, p_count := p_count st + 1, p_current := l\<rparr>))"

definition is_token :: "string \<Rightarrow> parser \<Rightarrow> bool" where
  "is_token t st \<longleftrightarrow> lx_text (p_current st) = lit t"

definition expect_token :: "jstring \<Rightarrow> string \<Rightarrow> parser \<Rightarrow> js_error + lexeme \<times> parser" where
  "expect_token src t st =
     (if \<not> is_token t st then
        Inl (billing_error C_syntax (lit ''expected '' @ lit t) (Some (lx_start (p_current st))))
      else take_token src st)"

subsection \<open>Expressions\<close>

definition literal_of_token :: "lexeme \<Rightarrow> node option" where
  "literal_of_token t =
     (if lx_kind t = K_number \<or> lx_kind t = K_string then
        Some (Literal (lx_value t) (lx_integer t) (lx_start t) (lx_end t))
      else None)"

definition keyword_of_token :: "lexeme \<Rightarrow> node option" where
  "keyword_of_token t =
     (if lx_text t = lit ''nil'' then Some (Literal LNil False (lx_start t) (lx_end t))
      else if lx_text t = lit ''true'' \<or> lx_text t = lit ''false'' then
        Some (Literal (LBoolean (lx_text t = lit ''true'')) False (lx_start t) (lx_end t))
      else None)"

function (sequential)
  expression :: "jstring \<Rightarrow> nat \<Rightarrow> parser \<Rightarrow> js_error + node \<times> parser"
  and binary_loop :: "jstring \<Rightarrow> nat \<Rightarrow> node \<Rightarrow> parser \<Rightarrow> js_error + node \<times> parser"
  and primary :: "jstring \<Rightarrow> parser \<Rightarrow> js_error + node \<times> parser"
  and args_loop :: "jstring \<Rightarrow> node list \<Rightarrow> parser \<Rightarrow> js_error + node list \<times> parser"
where
  "expression src minimum st =
     (if 128 < p_depth st + 1 then Inl depth_error
      else
        ebind (primary src (st\<lparr>p_depth := p_depth st + 1\<rparr>)) (\<lambda>(prim, st1).
        ebind (binary_loop src minimum prim st1) (\<lambda>(lhs, st2).
          if minimum = 0 \<and> is_token ''?'' st2 then
            ebind (take_token src st2) (\<lambda>(_, st3).
            ebind (expression src 0 st3) (\<lambda>(y, st4).
            ebind (expect_token src '':'' st4) (\<lambda>(_, st5).
            ebind (expression src 0 st5) (\<lambda>(n, st6).
              Inr (Conditional lhs y n (node_start lhs) (node_end n),
                   st6\<lparr>p_depth := p_depth st6 - 1\<rparr>)))))
          else Inr (lhs, st2\<lparr>p_depth := p_depth st2 - 1\<rparr>))))"
| "binary_loop src minimum lhs st =
     (case map_of PRECEDENCE (lx_text (p_current st)) of
        None \<Rightarrow> Inr (lhs, st)
      | Some prec \<Rightarrow>
          if minimum \<le> prec then
            ebind (take_token src st) (\<lambda>(t, st1).
            ebind (expression src (prec + 1) st1) (\<lambda>(rhs, st2).
              binary_loop src minimum
                (Binary (lx_text t) lhs rhs (node_start lhs) (node_end rhs)) st2))
          else Inr (lhs, st))"
| "primary src st =
     ebind (take_token src st) (\<lambda>(t, st1).
       case literal_of_token t of
         Some n \<Rightarrow> Inr (n, st1)
       | None \<Rightarrow>
           if lx_text t = lit ''('' then
             ebind (expression src 0 st1) (\<lambda>(e, st2).
             ebind (expect_token src '')'' st2) (\<lambda>(close, st3).
               Inr (set_span e (lx_start t) (lx_end close), st3)))
           else if lx_text t = lit ''!'' \<or> lx_text t = lit ''+'' \<or> lx_text t = lit ''-'' then
             ebind (expression src 7 st1) (\<lambda>(e, st2).
               Inr (Unary (lx_text t) e (lx_start t) (node_end e), st2))
           else if lx_kind t \<noteq> K_name then
             Inl (billing_error C_syntax (lx_text t) (Some (lx_start t)))
           else case keyword_of_token t of
             Some n \<Rightarrow> Inr (n, st1)
           | None \<Rightarrow>
               if \<not> is_token ''('' st1 then
                 if lx_text t \<notin> set BILLING_VARIABLES then
                   Inl (billing_error C_unsupported (lx_text t) (Some (lx_start t)))
                 else Inr (Variable (lx_text t) (lx_start t) (lx_end t), st1)
               else case map_of BILLING_FUNCTIONS (lx_text t) of
                 None \<Rightarrow> Inl (billing_error C_unsupported (lx_text t) (Some (lx_start t)))
               | Some arity \<Rightarrow>
                   ebind (take_token src st1) (\<lambda>(_, st2).
                   ebind (args_loop src [] st2) (\<lambda>(ns, st3).
                   ebind (expect_token src '')'' st3) (\<lambda>(close, st4).
                     if length ns \<noteq> arity then
                       Inl (billing_error C_type (lx_text t) (Some (lx_start t)))
                     else Inr (Call (lx_text t) ns (lx_start t) (lx_end close), st4)))))"
| "args_loop src ns st =
     (if is_token '')'' st then Inr (ns, st)
      else
        ebind (expression src 0 st) (\<lambda>(e, st1).
          if \<not> is_token '','' st1 then Inr (ns @ [e], st1)
          else ebind (take_token src st1) (\<lambda>(_, st2). args_loop src (ns @ [e]) st2)))"
  by pat_completeness auto


subsection \<open>Termination\<close>

lemma take_token_count:
  "take_token src st = Inr (t, st') \<Longrightarrow> p_count st' = Suc (p_count st) \<and> p_count st < 10000"
  by (auto simp: take_token_def err_simps dest: next_lexeme_ok)

lemma expect_token_count:
  "expect_token src x st = Inr (t, st') \<Longrightarrow> p_count st' = Suc (p_count st) \<and> p_count st < 10000"
  by (auto simp: expect_token_def dest: take_token_count split: if_splits)

lemma primary_psimps_cases [consumes 2, case_names literal paren unary keyword variable call]:
  assumes d: "expression_binary_loop_primary_args_loop_dom (Inr (Inl (src, st)))"
    and p: "primary src st = Inr (n, st')"
  obtains
    (literal) t where "take_token src st = Inr (t, st')" "literal_of_token t = Some n"
  | (paren) t st1 e st2 close where "take_token src st = Inr (t, st1)"
      "literal_of_token t = None" "lx_text t = lit ''(''" "expression src 0 st1 = Inr (e, st2)"
      "expect_token src '')'' st2 = Inr (close, st')" "n = set_span e (lx_start t) (lx_end close)"
  | (unary) t st1 e where "take_token src st = Inr (t, st1)"
      "literal_of_token t = None" "lx_text t \<noteq> lit ''(''"
      "lx_text t = lit ''!'' \<or> lx_text t = lit ''+'' \<or> lx_text t = lit ''-''"
      "expression src 7 st1 = Inr (e, st')" "n = Unary (lx_text t) e (lx_start t) (node_end e)"
  | (keyword) t where "take_token src st = Inr (t, st')" "lx_kind t = K_name"
      "keyword_of_token t = Some n"
  | (variable) t where "take_token src st = Inr (t, st')" "lx_kind t = K_name"
      "lx_text t \<in> set BILLING_VARIABLES" "n = Variable (lx_text t) (lx_start t) (lx_end t)"
  | (call) t st1 arity t2 st2 ns st3 close where "take_token src st = Inr (t, st1)"
      "literal_of_token t = None" "lx_text t \<noteq> lit ''(''"
      "\<not> (lx_text t = lit ''!'' \<or> lx_text t = lit ''+'' \<or> lx_text t = lit ''-'')"
      "\<not> lx_kind t \<noteq> K_name" "keyword_of_token t = None" "\<not> \<not> is_token ''('' st1"
      "map_of BILLING_FUNCTIONS (lx_text t) = Some arity" "take_token src st1 = Inr (t2, st2)"
      "args_loop src [] st2 = Inr (ns, st3)" "expect_token src '')'' st3 = Inr (close, st')"
      "length ns = arity" "n = Call (lx_text t) ns (lx_start t) (lx_end close)"
proof -
  obtain t st1 where t: "take_token src st = Inr (t, st1)"
    using p by (auto simp: primary.psimps [OF d] err_simps)
  note ex = p [unfolded primary.psimps [OF d] t ebind_simps prod.case]
  consider (a) "literal_of_token t \<noteq> None" | (b) "literal_of_token t = None" "lx_text t = lit ''(''"
    | (c) "literal_of_token t = None" "lx_text t \<noteq> lit ''(''"
      "lx_text t = lit ''!'' \<or> lx_text t = lit ''+'' \<or> lx_text t = lit ''-''"
    | (d) "literal_of_token t = None" "lx_text t \<noteq> lit ''(''"
      "\<not> (lx_text t = lit ''!'' \<or> lx_text t = lit ''+'' \<or> lx_text t = lit ''-'')" "lx_kind t = K_name"
    using ex by (auto split: if_splits option.splits)
  then show thesis
  proof cases
    case a
    then show thesis using ex t literal by auto
  next
    case b
    then show thesis using ex t paren by (auto simp: err_simps)
  next
    case c
    then obtain e where "expression src 7 st1 = Inr (e, st')"
      "n = Unary (lx_text t) e (lx_start t) (node_end e)"
      using ex by (simp add: err_simps) auto
    then show thesis using c t unary by blast
  next
    case d
    then show thesis using ex t keyword variable call
      by (fastforce simp: err_simps split: option.splits if_splits)
  qed
qed

lemma parser_progress:
  "expression_binary_loop_primary_args_loop_dom (Inl (Inl (src, m, st))) \<Longrightarrow>
     expression src m st = Inr (n, st') \<Longrightarrow> p_count st < p_count st'"
  "expression_binary_loop_primary_args_loop_dom (Inl (Inr (src, m, l, st))) \<Longrightarrow>
     binary_loop src m l st = Inr (n, st') \<Longrightarrow> p_count st \<le> p_count st'"
  "expression_binary_loop_primary_args_loop_dom (Inr (Inl (src, st))) \<Longrightarrow>
     primary src st = Inr (n, st') \<Longrightarrow> p_count st < p_count st'"
  "expression_binary_loop_primary_args_loop_dom (Inr (Inr (src, ns, st))) \<Longrightarrow>
     args_loop src ns st = Inr (ns', st') \<Longrightarrow> p_count st \<le> p_count st'"
proof (induction arbitrary: n st' and n st' and n st' and ns' st'
    rule: expression_binary_loop_primary_args_loop.pinduct)
  case (1 src minimum st)
  let ?st = "st\<lparr>p_depth := p_depth st + 1\<rparr>"
  note ex = 1(6) [unfolded expression.psimps [OF 1(1)]]
  obtain e1 st1 e2 st2 where a: "\<not> 128 < p_depth st + 1" "primary src ?st = Inr (e1, st1)"
    "binary_loop src minimum e1 st1 = Inr (e2, st2)"
    using ex by (auto simp: err_simps)
  have c: "p_count st < p_count st2" using 1(2) [OF a(1,2)] 1(3) [OF a(1,2) refl a(3)] by simp
  show ?case
  proof (cases "minimum = 0 \<and> is_token ''?'' st2")
    case False
    then show ?thesis using ex a c by (auto simp: err_simps)
  next
    case True
    then obtain t st3 y st4 u st5 f st6 where b: "take_token src st2 = Inr (t, st3)"
      "expression src 0 st3 = Inr (y, st4)" "expect_token src '':'' st4 = Inr (u, st5)"
      "expression src 0 st5 = Inr (f, st6)" "st' = st6\<lparr>p_depth := p_depth st6 - 1\<rparr>"
      using ex a by (auto simp: err_simps)
    then show ?thesis
      using 1(4) [OF a(1,2) refl a(3) refl True b(1) refl b(2)]
        1(5) [OF a(1,2) refl a(3) refl True b(1) refl b(2) refl b(3) refl b(4)]
        c take_token_count [OF b(1)] expect_token_count [OF b(3)] by simp
  qed
next
  case (2 src minimum lhs st)
  note ex = 2(4) [unfolded binary_loop.psimps [OF 2(1)]]
  show ?case
  proof (cases "map_of PRECEDENCE (lx_text (p_current st))")
    case (Some prec)
    show ?thesis
    proof (cases "minimum \<le> prec")
      case True
      then obtain t st1 r st2 where b: "take_token src st = Inr (t, st1)"
        "expression src (prec + 1) st1 = Inr (r, st2)"
        "binary_loop src minimum (Binary (lx_text t) lhs r (node_start lhs) (node_end r)) st2 = Inr (n, st')"
        using ex Some by (auto simp: err_simps)
      then show ?thesis
        using 2(2) [OF Some True b(1) refl b(2)] 2(3) [OF Some True b(1) refl b(2) refl b(3)]
          take_token_count [OF b(1)] by simp
    qed (use ex Some in simp)
  qed (use ex in simp)
next
  case (3 src st)
  show ?case using 3(1,5)
  proof (cases rule: primary_psimps_cases)
    case (paren t st1 e st2 close)
    then show ?thesis using 3(2) [OF paren(1) refl paren(2,3,4)] take_token_count [OF paren(1)]
        expect_token_count [OF paren(5)] by simp
  next
    case (unary t st1 e)
    then show ?thesis using 3(3) [OF unary(1) refl unary(2-5)] take_token_count [OF unary(1)] by simp
  next
    case (call t st1 arity t2 st2 ns st3 close)
    then show ?thesis
      using 3(4) [OF call(1) refl call(2-9) refl call(10)] take_token_count [OF call(1)]
        take_token_count [OF call(9)] expect_token_count [OF call(11)] by simp
  qed (auto dest: take_token_count)
next
  case (4 src ns st)
  show ?case
  proof (cases "is_token '')'' st")
    case False
    then obtain e st1 where a: "expression src 0 st = Inr (e, st1)"
      using 4(4) by (auto simp: args_loop.psimps [OF 4(1)] err_simps)
    have c: "p_count st < p_count st1" by (rule 4(2) [OF False a])
    show ?thesis 
    proof (cases "is_token '','' st1")
      case True
      then obtain t st2 where b: "take_token src st1 = Inr (t, st2)" "args_loop src (ns @ [e]) st2 = Inr (ns', st')"
        using 4(4) False a by (auto simp: args_loop.psimps [OF 4(1)] err_simps)
      then show ?thesis using 4(3) [OF False a refl _ b(1) refl b(2)] True c take_token_count [OF b(1)] by simp
    next
      case f: False
      then show ?thesis using 4(4) False a c by (simp add: args_loop.psimps [OF 4(1)])
    qed
  qed (use 4 in \<open>simp add: args_loop.psimps\<close>)
qed

lemma parser_total: "All expression_binary_loop_primary_args_loop_dom"
proof (rule "expression_binary_loop_primary_args_loop.termination" [where R = "measures
    [\<lambda>x. 10001 - p_count (case x of Inl (Inl (_, _, st)) \<Rightarrow> st | Inl (Inr (_, _, _, st)) \<Rightarrow> st
       | Inr (Inl (_, st)) \<Rightarrow> st | Inr (Inr (_, _, st)) \<Rightarrow> st),
     \<lambda>x. case x of Inl (Inl _) \<Rightarrow> 1 | Inl (Inr _) \<Rightarrow> 0 | Inr (Inl _) \<Rightarrow> 0 | Inr (Inr _) \<Rightarrow> 2]"],
    goal_cases)
qed (auto dest!: take_token_count expect_token_count parser_progress)

termination expression
  by (rule parser_total)

declare expression.simps [simp del] binary_loop.simps [simp del] primary.simps [simp del]
  args_loop.simps [simp del]

lemmas primary_cases = primary_psimps_cases [OF parser_total [THEN spec], consumes 1,
    case_names literal paren unary keyword variable call]

definition parse :: "jstring \<Rightarrow> parser \<Rightarrow> js_error + node" where
  "parse src st =
     ebind (expression src 0 st) (\<lambda>(n, st1).
       if lx_kind (p_current st1) \<noteq> K_end then
         Inl (billing_error C_unsupported (lx_text (p_current st1)) (Some (lx_start (p_current st1))))
       else Inr n)"

subsection \<open>The tree the parser builds\<close>

text \<open>
  Spans: a node covers a non-empty piece of the source, a child covers a
  strictly smaller piece inside it, and siblings are separated by at least one
  code unit. Vocabulary: only known names, with their arity, only the language's
  operators, and number literals that are finite doubles.
\<close>

fun spans_ok :: "node \<Rightarrow> bool" where
  "spans_ok n \<longleftrightarrow>
     node_start n < node_end n \<and>
     list_all (\<lambda>c. spans_ok c \<and> node_start n \<le> node_start c \<and> node_end c \<le> node_end n \<and>
       (node_start n < node_start c \<or> node_end c < node_end n)) (node_children n) \<and>
     sorted_wrt (\<lambda>a b. node_end a < node_start b) (node_children n)"

declare spans_ok.simps [simp del]

definition UNARY_OPERATORS :: "jstring list" where
  "UNARY_OPERATORS = map lit [''!'', ''+'', ''-'']"

fun vocabulary_ok :: "node \<Rightarrow> bool" where
  "vocabulary_ok (Literal v i _ _) \<longleftrightarrow>
     (case v of LNumber x \<Rightarrow> number_ok x i | _ \<Rightarrow> \<not> i)"
| "vocabulary_ok (Variable x _ _) \<longleftrightarrow> x \<in> set BILLING_VARIABLES"
| "vocabulary_ok (Call f ns _ _) \<longleftrightarrow>
     map_of BILLING_FUNCTIONS f = Some (length ns) \<and> list_all vocabulary_ok ns"
| "vocabulary_ok (Unary p n _ _) \<longleftrightarrow> p \<in> set UNARY_OPERATORS \<and> vocabulary_ok n"
| "vocabulary_ok (Binary p l r _ _) \<longleftrightarrow>
     p \<in> fst ` set PRECEDENCE \<and> vocabulary_ok l \<and> vocabulary_ok r"
| "vocabulary_ok (Conditional c y n _ _) \<longleftrightarrow> vocabulary_ok c \<and> vocabulary_ok y \<and> vocabulary_ok n"

lemma vocabulary_ok_set_span [simp]: "vocabulary_ok (set_span n a b) = vocabulary_ok n"
  by (cases n) simp_all

lemma spans_ok_set_span:
  "spans_ok n \<Longrightarrow> a \<le> node_start n \<Longrightarrow> node_end n \<le> b \<Longrightarrow> spans_ok (set_span n a b)"
  by (subst spans_ok.simps, subst (asm) spans_ok.simps) (auto simp: list_all_iff)

text \<open>The parser's state between tokens: its lookahead is a lexeme of the source that ends at the cursor.\<close>

definition lexeme_value_ok :: "lexeme \<Rightarrow> bool" where
  "lexeme_value_ok l \<longleftrightarrow>
     (lx_kind l = K_number \<longrightarrow> (\<exists>v. lx_value l = LNumber v \<and> number_ok v (lx_integer l))) \<and>
     (lx_kind l = K_string \<longrightarrow> (\<exists>v. lx_value l = LString v) \<and> \<not> lx_integer l)"

definition state_ok :: "jstring \<Rightarrow> parser \<Rightarrow> bool" where
  "state_ok src st \<longleftrightarrow>
     lexeme_ok src 0 (p_current st) \<and> lexeme_value_ok (p_current st) \<and>
     p_cursor st = lx_end (p_current st) \<and> p_count st \<le> 10000"

text \<open>A node the parser read from \<open>a\<close> on, with the next token at \<open>b\<close> or later.\<close>

definition node_ok :: "jstring \<Rightarrow> node \<Rightarrow> nat \<Rightarrow> nat \<Rightarrow> bool" where
  "node_ok src n a b \<longleftrightarrow>
     spans_ok n \<and> vocabulary_ok n \<and> node_start n = a \<and> node_end n \<le> b \<and> node_end n \<le> length src"

lemma next_lexeme_value_ok: "next_lexeme src cur cnt = Inr l \<Longrightarrow> lexeme_value_ok l"
  using next_lexeme_value [of src cur cnt l]
  by (auto simp: lexeme_value_ok_def next_lexeme_def Let_def lex_number_def lex_string_def err_simps
      simp del: drop_eq_Nil split: if_splits)

lemma take_token_ok:
  assumes "take_token src st = Inr (t, st')" "state_ok src st"
  shows "t = p_current st" "state_ok src st'" "lx_end t \<le> lx_start (p_current st')"
    "p_depth st' = p_depth st"
  using assms next_lexeme_ok [of src "p_cursor st" "p_count st"] next_lexeme_value_ok
  by (auto simp: take_token_def err_simps state_ok_def lexeme_ok_def)

lemma expect_token_ok:
  assumes "expect_token src x st = Inr (t, st')" "state_ok src st" "x \<noteq> []"
  shows "t = p_current st" "state_ok src st'" "lx_end t \<le> lx_start (p_current st')"
    "p_depth st' = p_depth st" "lx_text t \<noteq> []"
  using assms take_token_ok [of src st t st']
  by (auto simp: expect_token_def is_token_def split: if_splits)

lemma token_span:
  assumes "state_ok src st" "lx_text (p_current st) \<noteq> [] \<or> lx_kind (p_current st) \<noteq> K_end"
  shows "lx_start (p_current st) < lx_end (p_current st)" "lx_end (p_current st) \<le> length src"
  using assms by (auto simp: state_ok_def lexeme_ok_def slice_def order_le_less)

lemma PRECEDENCE_nonempty: "map_of PRECEDENCE x = Some p \<Longrightarrow> x \<noteq> [] \<and> x \<in> fst ` set PRECEDENCE"
  by (auto simp: PRECEDENCE_def lit_def split: if_splits)

lemma node_ok_leaf:
  assumes "state_ok src st" "take_token src st = Inr (t, st')" "lx_kind t \<noteq> K_end"
    "node_children n = []" "vocabulary_ok n" "node_start n = lx_start t" "node_end n = lx_end t"
  shows "node_ok src n (lx_start (p_current st)) (lx_start (p_current st'))"
  using assms take_token_ok [OF assms(2,1)] token_span [OF assms(1)]
  by (auto simp: node_ok_def spans_ok.simps [of n])

lemma node_ok_literal:
  assumes "state_ok src st" "take_token src st = Inr (t, st')" "literal_of_token t = Some n"
  shows "node_ok src n (lx_start (p_current st)) (lx_start (p_current st'))"
  using assms take_token_ok(1) [OF assms(2,1)]
  by (intro node_ok_leaf [OF assms(1,2)])
    (auto simp: literal_of_token_def state_ok_def lexeme_value_ok_def split: if_splits)

lemma node_ok_keyword:
  assumes "state_ok src st" "take_token src st = Inr (t, st')" "lx_kind t = K_name"
    "keyword_of_token t = Some n"
  shows "node_ok src n (lx_start (p_current st)) (lx_start (p_current st'))"
  using assms
  by (intro node_ok_leaf [OF assms(1,2)]) (auto simp: keyword_of_token_def split: if_splits)

lemma node_ok_unary:
  assumes "state_ok src st" "take_token src st = Inr (t, st1)" "lx_text t \<in> set UNARY_OPERATORS"
    "node_ok src e (lx_start (p_current st1)) b"
  shows "node_ok src (Unary (lx_text t) e (lx_start t) (node_end e)) (lx_start (p_current st)) b"
proof -
  have "lx_text t \<noteq> []" using assms(3) by (auto simp: UNARY_OPERATORS_def lit_def)
  then show ?thesis
    using assms take_token_ok [OF assms(2,1)] token_span [OF assms(1)]
      spans_ok.simps [of e]
    by (auto simp: node_ok_def spans_ok.simps [of "Unary _ _ _ _"])
qed

lemma node_ok_paren:
  assumes "state_ok src st" "take_token src st = Inr (t, st1)" "lx_text t \<noteq> []"
    "node_ok src e (lx_start (p_current st1)) (lx_start (p_current st2))" "state_ok src st2"
    "expect_token src '')'' st2 = Inr (close, st')"
  shows "node_ok src (set_span e (lx_start t) (lx_end close)) (lx_start (p_current st)) (lx_start (p_current st'))"
  using assms take_token_ok [OF assms(2,1)] token_span [OF assms(1)] expect_token_ok [OF assms(6,5)]
    token_span [OF assms(5)]
  by (auto simp: node_ok_def intro!: spans_ok_set_span)

lemma node_ok_binary:
  assumes "node_ok src l a b" "b \<le> lx_start (p_current st)" "state_ok src st" "take_token src st = Inr (t, st1)"
    "map_of PRECEDENCE (lx_text (p_current st)) = Some prec"
    "node_ok src r (lx_start (p_current st1)) c"
  shows "node_ok src (Binary (lx_text t) l r (node_start l) (node_end r)) a c"
  using assms take_token_ok [OF assms(4,3)] token_span [OF assms(3)] PRECEDENCE_nonempty [OF assms(5)]
    spans_ok.simps [of l]
  by (auto simp: node_ok_def spans_ok.simps [of "Binary _ _ _ _ _"] spans_ok.simps [of r])

lemma node_ok_conditional:
  assumes "node_ok src c a b" "b \<le> lx_start (p_current st)" "state_ok src st" "take_token src st = Inr (t, st1)"
    "lx_text (p_current st) \<noteq> []"
    "node_ok src y (lx_start (p_current st1)) (lx_start (p_current st2))" "state_ok src st2"
    "expect_token src '':'' st2 = Inr (u, st3)"
    "node_ok src n (lx_start (p_current st3)) d"
  shows "node_ok src (Conditional c y n (node_start c) (node_end n)) a d"
  using assms take_token_ok [OF assms(4,3)] token_span [OF assms(3)] expect_token_ok [OF assms(8,7)]
    token_span [OF assms(7)] spans_ok.simps [of c] spans_ok.simps [of y] spans_ok.simps [of n]
  by (auto simp: node_ok_def spans_ok.simps [of "Conditional _ _ _ _ _"])

definition args_ok :: "jstring \<Rightarrow> nat \<Rightarrow> node list \<Rightarrow> nat \<Rightarrow> bool" where
  "args_ok src a ns b \<longleftrightarrow>
     list_all (\<lambda>n. spans_ok n \<and> vocabulary_ok n \<and> a \<le> node_start n \<and> node_end n \<le> b \<and>
       node_end n \<le> length src) ns \<and>
     sorted_wrt (\<lambda>x y. node_end x < node_start y) ns"

lemma args_ok_snoc:
  assumes "args_ok src a ns b" "b < p" "a \<le> p" "node_ok src e p c"
  shows "args_ok src a (ns @ [e]) c"
  using assms spans_ok.simps [of e]
  by (fastforce simp: args_ok_def node_ok_def sorted_wrt_append list_all_iff)

lemma node_ok_call:
  assumes "state_ok src st" "take_token src st = Inr (t, st1)" "lx_kind t = K_name"
    "map_of BILLING_FUNCTIONS (lx_text t) = Some (length ns)"
    "args_ok src (lx_end t) ns (lx_start (p_current st3))" "state_ok src st3"
    "lx_end t \<le> lx_start (p_current st3)"
    "expect_token src '')'' st3 = Inr (close, st')"
  shows "node_ok src (Call (lx_text t) ns (lx_start t) (lx_end close))
    (lx_start (p_current st)) (lx_start (p_current st'))"
  using assms take_token_ok [OF assms(2,1)] token_span [OF assms(1)] expect_token_ok [OF assms(8,6)]
    token_span [OF assms(6)]
  by (fastforce simp: node_ok_def args_ok_def spans_ok.simps [of "Call _ _ _ _"] list_all_iff)

text \<open>What a successful read leaves: a well-formed node that starts where the read began.\<close>

definition read_ok :: "jstring \<Rightarrow> parser \<Rightarrow> nat \<Rightarrow> node \<Rightarrow> parser \<Rightarrow> bool" where
  "read_ok src st a n st' \<longleftrightarrow>
     state_ok src st' \<and> p_depth st' = p_depth st \<and> node_ok src n a (lx_start (p_current st'))"

abbreviation token_start :: "parser \<Rightarrow> nat" where
  "token_start st \<equiv> lx_start (p_current st)"

lemma read_ok_leaf:
  assumes "state_ok src st" "take_token src st = Inr (t, st')"
    "literal_of_token t = Some n \<or> lx_kind t = K_name \<and> (keyword_of_token t = Some n \<or>
       lx_text t \<in> set BILLING_VARIABLES \<and> n = Variable (lx_text t) (lx_start t) (lx_end t))"
  shows "read_ok src st (token_start st) n st'"
  using assms(3) take_token_ok [OF assms(2,1)] node_ok_literal [OF assms(1,2)]
    node_ok_keyword [OF assms(1,2)] node_ok_leaf [OF assms(1,2), of n]
  by (auto simp: read_ok_def)

lemma read_ok_paren:
  assumes "state_ok src st" "take_token src st = Inr (t, st1)" "lx_text t = lit ''(''"
    "state_ok src st1 \<Longrightarrow> read_ok src st1 (token_start st1) e st2"
    "expect_token src '')'' st2 = Inr (close, st')"
  shows "read_ok src st (token_start st) (set_span e (lx_start t) (lx_end close)) st'"
proof -
  note t = take_token_ok [OF assms(2,1)]
  note e = assms(4) [OF t(2), unfolded read_ok_def]
  then show ?thesis
    using node_ok_paren [OF assms(1,2) _ _ _ assms(5)] expect_token_ok [OF assms(5)] assms(3) t(4)
    by (simp add: read_ok_def)
qed

lemma read_ok_unary:
  assumes "state_ok src st" "take_token src st = Inr (t, st1)"
    "lx_text t = lit ''!'' \<or> lx_text t = lit ''+'' \<or> lx_text t = lit ''-''"
    "state_ok src st1 \<Longrightarrow> read_ok src st1 (token_start st1) e st'"
  shows "read_ok src st (token_start st) (Unary (lx_text t) e (lx_start t) (node_end e)) st'"
proof -
  note t = take_token_ok [OF assms(2,1)]
  have "lx_text t \<in> set UNARY_OPERATORS" using assms(3) by (auto simp: UNARY_OPERATORS_def)
  then show ?thesis
    using node_ok_unary [OF assms(1,2)] assms(4) [OF t(2)] t(4) by (simp add: read_ok_def)
qed

lemma read_ok_binary:
  assumes "read_ok src st0 a l st" "take_token src st = Inr (t, st1)"
    "map_of PRECEDENCE (lx_text (p_current st)) = Some prec"
    "state_ok src st1 \<Longrightarrow> read_ok src st1 (token_start st1) r st'"
  shows "read_ok src st0 a (Binary (lx_text t) l r (node_start l) (node_end r)) st'"
proof -
  have l: "state_ok src st" "node_ok src l a (token_start st)" "p_depth st = p_depth st0"
    using assms(1) by (auto simp: read_ok_def)
  note t = take_token_ok [OF assms(2) l(1)]
  show ?thesis
    using node_ok_binary [OF l(2) order_refl l(1) assms(2,3)] assms(4) [OF t(2)] t(4) l(3)
    by (simp add: read_ok_def)
qed

lemma read_ok_conditional:
  assumes "read_ok src st0 a c st" "take_token src st = Inr (t, st1)" "is_token ''?'' st"
    "state_ok src st1 \<Longrightarrow> read_ok src st1 (token_start st1) y st2"
    "expect_token src '':'' st2 = Inr (u, st3)"
    "state_ok src st3 \<Longrightarrow> read_ok src st3 (token_start st3) n st'"
  shows "read_ok src st0 a (Conditional c y n (node_start c) (node_end n)) st'"
proof -
  have c: "state_ok src st" "node_ok src c a (token_start st)" "p_depth st = p_depth st0"
    using assms(1) by (auto simp: read_ok_def)
  note t = take_token_ok [OF assms(2) c(1)]
  have y: "state_ok src st2" "node_ok src y (token_start st1) (token_start st2)" "p_depth st2 = p_depth st1"
    using assms(4) [OF t(2)] by (auto simp: read_ok_def)
  note u = expect_token_ok [OF assms(5) y(1)]
  have q: "lx_text (p_current st) \<noteq> []" using assms(3) by (simp add: is_token_def)
  show ?thesis
    using node_ok_conditional [OF c(2) order_refl c(1) assms(2) q y(2,1) assms(5)] assms(6) u t(4) c(3) y(3)
    by (simp add: read_ok_def)
qed

text \<open>The same for an argument list, whose next token is at or after where it began.\<close>

definition args_read_ok :: "jstring \<Rightarrow> parser \<Rightarrow> nat \<Rightarrow> node list \<Rightarrow> parser \<Rightarrow> bool" where
  "args_read_ok src st a ns st' \<longleftrightarrow>
     state_ok src st' \<and> p_depth st' = p_depth st \<and> args_ok src a ns (token_start st') \<and>
     token_start st \<le> token_start st'"

lemma read_ok_call:
  assumes "state_ok src st" "take_token src st = Inr (t, st1)" "lx_kind t = K_name"
    "map_of BILLING_FUNCTIONS (lx_text t) = Some (length ns)" "take_token src st1 = Inr (t2, st2)"
    "state_ok src st2 \<Longrightarrow> lx_start t < token_start st2 \<Longrightarrow> lx_end t \<le> token_start st2 \<Longrightarrow>
       args_read_ok src st2 (lx_end t) ns st3"
    "expect_token src '')'' st3 = Inr (close, st')"
  shows "read_ok src st (token_start st) (Call (lx_text t) ns (lx_start t) (lx_end close)) st'"
proof -
  note t = take_token_ok [OF assms(2,1)] and t2 = take_token_ok [OF assms(5) take_token_ok(2) [OF assms(2,1)]]
  have "lx_start t < lx_end t" using token_span [OF assms(1)] t(1) assms(3) by simp
  moreover have l: "lx_end t \<le> token_start st2"
    using t(2,3) t2(1,3) by (auto simp: state_ok_def lexeme_ok_def)
  ultimately have a: "state_ok src st3" "p_depth st3 = p_depth st2"
    "args_ok src (lx_end t) ns (token_start st3)" "lx_end t \<le> token_start st3"
    using assms(6) [OF t2(2)] by (auto simp: args_read_ok_def)
  show ?thesis
    using node_ok_call [OF assms(1-4) a(3,1,4) assms(7)] expect_token_ok [OF assms(7) a(1)] a(2) t(4) t2(4)
    by (simp add: read_ok_def)
qed

lemma args_read_ok_snoc:
  assumes "state_ok src st" "args_ok src a ns b" "b < token_start st" "a \<le> token_start st"
    "read_ok src st (token_start st) e st'"
  shows "args_read_ok src st a (ns @ [e]) st'"
  using assms args_ok_snoc [OF assms(2-4)]
  by (auto simp: read_ok_def args_read_ok_def node_ok_def spans_ok.simps [of e])

lemma parser_ok:
  "expression src m st = Inr (n, st') \<Longrightarrow> state_ok src st \<Longrightarrow> read_ok src st (token_start st) n st'"
  "binary_loop src m l st = Inr (n, st') \<Longrightarrow> read_ok src st0 a l st \<Longrightarrow> read_ok src st0 a n st'"
  "primary src st = Inr (n, st') \<Longrightarrow> state_ok src st \<Longrightarrow> read_ok src st (token_start st) n st'"
  "args_loop src ns st = Inr (ns', st') \<Longrightarrow> state_ok src st \<Longrightarrow>
     args_ok src a ns b \<Longrightarrow> b < token_start st \<Longrightarrow> a \<le> token_start st \<Longrightarrow> args_read_ok src st a ns' st'"
proof (induction src m st and src m l st and src st and src ns st
    arbitrary: n st' and n st' a st0 and n st' and ns' st' a b
    rule: expression_binary_loop_primary_args_loop.induct)
  case (1 src minimum st)
  let ?st = "st\<lparr>p_depth := p_depth st + 1\<rparr>"
  note ex = 1(5) [unfolded expression.simps [of src minimum st]]
  have s: "state_ok src ?st" using 1(6) by (simp add: state_ok_def)
  obtain e1 st1 e2 st2 where a: "\<not> 128 < p_depth st + 1" "primary src ?st = Inr (e1, st1)"
    "binary_loop src minimum e1 st1 = Inr (e2, st2)"
    using ex by (auto simp: err_simps)
  have c: "read_ok src ?st (token_start st) e2 st2"
    using 1(2) [OF a(1,2) refl a(3) 1(1) [OF a(1,2) s]] by simp
  have down: "read_ok src st b e (s'\<lparr>p_depth := p_depth s' - 1\<rparr>)" if "read_ok src ?st b e s'" for b e s'
    using that by (simp add: read_ok_def state_ok_def)
  show ?case
  proof (cases "minimum = 0 \<and> is_token ''?'' st2")
    case False
    then show ?thesis using ex a down [OF c] by auto
  next
    case True
    then obtain t st3 y st4 u st5 f st6 where b: "take_token src st2 = Inr (t, st3)"
      "expression src 0 st3 = Inr (y, st4)" "expect_token src '':'' st4 = Inr (u, st5)"
      "expression src 0 st5 = Inr (f, st6)" "st' = st6\<lparr>p_depth := p_depth st6 - 1\<rparr>"
      "n = Conditional e2 y f (node_start e2) (node_end f)"
      using ex a by (auto simp: err_simps)
    show ?thesis unfolding b(5,6)
      using down [OF read_ok_conditional [OF c b(1) conjunct2 [OF True]
            1(3) [OF a(1,2) refl a(3) refl True b(1) refl b(2)] b(3)
            1(4) [OF a(1,2) refl a(3) refl True b(1) refl b(2) refl b(3) refl b(4)]]] by blast
  qed
next
  case (2 src minimum lhs st)
  note ex = 2(3) [unfolded binary_loop.simps [of src minimum lhs st]]
  show ?case
  proof (cases "map_of PRECEDENCE (lx_text (p_current st))")
    case (Some prec)
    show ?thesis
    proof (cases "minimum \<le> prec")
      case True
      then obtain t st1 r st2 where b: "take_token src st = Inr (t, st1)"
        "expression src (prec + 1) st1 = Inr (r, st2)"
        "binary_loop src minimum (Binary (lx_text t) lhs r (node_start lhs) (node_end r)) st2 = Inr (n, st')"
        using ex Some by (auto simp: err_simps)
      show ?thesis
        by (rule 2(2) [OF Some True b(1) refl b(2) refl b(3)
            read_ok_binary [OF 2(4) b(1) Some 2(1) [OF Some True b(1) refl b(2)]]])
    qed (use ex 2(4) Some in simp)
  qed (use ex 2(4) in simp)
next
  case (3 src st)
  show ?case using 3(4)
  proof (cases rule: primary_cases)
    case (paren t st1 e st2 close)
    show ?thesis unfolding paren(6)
      by (rule read_ok_paren [OF 3(5) paren(1,3) 3(1) [OF paren(1) refl paren(2,3,4)] paren(5)])
  next
    case (unary t st1 e)
    show ?thesis unfolding unary(6)
      by (rule read_ok_unary [OF 3(5) unary(1,4) 3(2) [OF unary(1) refl unary(2-5)]])
  next
    case (call t st1 arity t2 st2 ns st3 close)
    have k: "lx_kind t = K_name" "map_of BILLING_FUNCTIONS (lx_text t) = Some (length ns)"
      "args_ok src (lx_end t) [] (lx_start t)"
      using call(5,8,12) by (simp_all add: args_ok_def)
    show ?thesis unfolding call(13)
      by (rule read_ok_call [OF 3(5) call(1) k(1,2) call(9)
          3(3) [OF call(1) refl call(2-9) refl call(10) _ k(3)] call(11)])
  qed (blast intro: read_ok_leaf [OF 3(5)])+
next
  case (4 src ns st)
  note ex = 4(3) [unfolded args_loop.simps [of src ns st]]
  show ?case
  proof (cases "is_token '')'' st")
    case True
    then show ?thesis using ex 4(4-)
      by (auto simp: args_read_ok_def args_ok_def list_all_iff)
  next
    case False
    then obtain e st1 where a: "expression src 0 st = Inr (e, st1)" using ex by (auto simp: err_simps)
    have e: "args_read_ok src st a (ns @ [e]) st1"
      by (rule args_read_ok_snoc [OF 4(4-7) 4(1) [OF False a 4(4)]])
    show ?thesis
    proof (cases "is_token '','' st1")
      case True
      then obtain t st2 where b: "take_token src st1 = Inr (t, st2)"
        "args_loop src (ns @ [e]) st2 = Inr (ns', st')"
        using ex False a by (auto simp: err_simps)
      have s: "state_ok src st1" "args_ok src a (ns @ [e]) (token_start st1)"
        "token_start st \<le> token_start st1" "p_depth st1 = p_depth st"
        using e by (auto simp: args_read_ok_def)
      note t = take_token_ok [OF b(1) s(1)]
      have l: "token_start st1 < token_start st2"
        using token_span(1) [OF s(1)] t True by (simp add: is_token_def)
      have "args_read_ok src st2 a ns' st'"
        using 4(2) [OF False a refl _ b(1) refl b(2) t(2) s(2) l] True l s(3) 4(7) by simp
      then show ?thesis using l s(3,4) t(4) by (simp add: args_read_ok_def)
    qed (use ex False a e in simp)
  qed
qed

subsection \<open>The whole parse\<close>

definition parse_source :: "jstring \<Rightarrow> js_error + node" where
  "parse_source source = ebind (new_parser source) (parse source)"

lemma new_parser_ok: "new_parser src = Inr st \<Longrightarrow> state_ok src st \<and> length src \<le> 65536"
  by (auto simp: new_parser_def Let_def err_simps state_ok_def lexeme_ok_def
      dest: next_lexeme_ok(1) next_lexeme_value_ok split: if_splits)

lemma parse_source_ok:
  assumes "parse_source src = Inr n"
  shows "spans_ok n" "vocabulary_ok n" "node_end n \<le> length src" "length src \<le> 65536"
  using assms
  by (auto simp: parse_source_def parse_def err_simps read_ok_def node_ok_def
      dest!: new_parser_ok parser_ok(1))

subsection \<open>Node identity\<close>

text \<open>
  The code compares nodes by reference. Within one parsed tree every node has
  its own span, so equality of the modelled nodes, which carry their spans, is
  identity of the node objects.
\<close>

abbreviation node_span :: "node \<Rightarrow> nat \<times> nat" where
  "node_span n \<equiv> (node_start n, node_end n)"

lemma spans_okD:
  assumes "spans_ok n"
  shows "node_start n < node_end n"
    and "c \<in> set (node_children n) \<Longrightarrow> spans_ok c \<and> node_start n \<le> node_start c \<and> node_end c \<le> node_end n \<and>
      (node_start n < node_start c \<or> node_end c < node_end n)"
    and "sorted_wrt (\<lambda>a b. node_end a < node_start b) (node_children n)"
  using assms [unfolded spans_ok.simps [of n]] by (auto simp: list_all_iff)

lemma subnodes_inside:
  assumes "spans_ok n" "x \<in> set (subnodes n)"
  shows "node_start n \<le> node_start x \<and> node_start x < node_end x \<and> node_end x \<le> node_end n"
  using assms
proof (induction n rule: node_tree_induct)
  case (node n)
  note d = spans_okD [OF node(2)]
  show ?case using node(1,3) d(1,2) by (fastforce simp: subnodes.simps [of n])
qed

lemma distinct_subnodes_list:
  assumes "\<And>c. c \<in> set cs \<Longrightarrow> spans_ok c \<and> distinct (map node_span (subnodes c))"
    and "sorted_wrt (\<lambda>a b. node_end a < node_start b) cs"
  shows "distinct (map node_span (concat (map subnodes cs)))"
  using assms
proof (induction cs)
  case (Cons c cs)
  have "node_span x \<noteq> node_span y" if "x \<in> set (subnodes c)" "z \<in> set cs" "y \<in> set (subnodes z)" for x y z
    using subnodes_inside [OF _ that(1)] subnodes_inside [OF _ that(3)] Cons.prems that(2) by fastforce
  then show ?case using Cons by (auto simp del: prod.inject)
qed simp

lemma distinct_spans: "spans_ok n \<Longrightarrow> distinct (map node_span (subnodes n))"
proof (induction n rule: node_tree_induct)
  case (node n)
  note d = spans_okD [OF node(2)]
  have ne: "node_span x \<noteq> node_span n" if "c \<in> set (node_children n)" "x \<in> set (subnodes c)" for x c
    using subnodes_inside [OF _ that(2)] d(2) [OF that(1)] by auto
  then have "node_span n \<notin> node_span ` set (concat (map subnodes (node_children n)))"
    by (auto simp del: prod.inject dest!: sym [of "node_span n"])
  moreover have "distinct (map node_span (concat (map subnodes (node_children n))))"
    using distinct_subnodes_list [OF _ d(3)] d(2) node(1) by blast
  ultimately show ?case by (simp add: subnodes.simps [of n])
qed

subsection \<open>Properties\<close>

text \<open>
  C1: whatever source the parser accepts, the tree it returns has spans that
  nest strictly, follow each other and stay inside the source, uses only the
  language's names, operators and arities, and no two of its nodes share a span.
\<close>

theorem parse_tree_wellformed:
  assumes "parse_source src = Inr n"
  shows "spans_ok n \<and> vocabulary_ok n \<and> node_end n \<le> length src \<and> length src \<le> 65536 \<and>
    distinct (map node_span (subnodes n))"
  using parse_source_ok [OF assms] distinct_spans by blast

theorem parse_tree_wellformed_witness:
  "\<exists>n. parse_source (lit ''(p) * c'') = Inr n \<and> distinct (map node_span (subnodes n)) \<and>
     node_start n = 0 \<and> node_end n = 7"
proof -
  have p: "parse_source (lit ''(p) * c'') =
      Inr (Binary (lit ''*'') (Variable (lit ''p'') 0 3) (Variable (lit ''c'') 6 7) 0 7)"
    by code_simp
  then show ?thesis using parse_tree_wellformed [OF p] by simp
qed

text \<open>
  C13: a successful read of an expression consumes at least one token and never
  more than the 10000 tokens the lexer allows, which is why the mutually
  recursive loops of the parser end on every input.
\<close>

theorem expression_consumes_tokens:
  assumes "state_ok src st" "expression src m st = Inr (n, st')"
  shows "p_count st < p_count st' \<and> p_count st' \<le> 10000"
  using parser_progress(1) [OF parser_total [THEN spec] assms(2)] parser_ok(1) [OF assms(2,1)]
  by (simp add: read_ok_def state_ok_def)

theorem expression_consumes_tokens_witness:
  "\<exists>st n st'. new_parser (lit ''p'') = Inr st \<and> expression (lit ''p'') 0 st = Inr (n, st') \<and>
     p_count st < p_count st'"
proof -
  have e: "expression (lit ''p'') 0 \<lparr>p_cursor = 1, p_count = 1, p_depth = 0, p_current = mk_lexeme K_name (lit ''p'') 0 1\<rparr> =
      Inr (Variable (lit ''p'') 0 1, \<lparr>p_cursor = 1, p_count = 2, p_depth = 0, p_current = mk_lexeme K_end [] 1 1\<rparr>)"
    by code_simp
  have n: "new_parser (lit ''p'') =
      Inr \<lparr>p_cursor = 1, p_count = 1, p_depth = 0, p_current = mk_lexeme K_name (lit ''p'') 0 1\<rparr>"
    by code_simp
  show ?thesis
    using expression_consumes_tokens [OF conjunct1 [OF new_parser_ok [OF n]] e] n e by blast
qed

end
