(* ===== verification/Billing_Check.thy ===== *)
theory Billing_Check
  imports Billing_Parser
begin

text \<open>
  The static checks and the compiler of \<open>billing-expression/parser.ts\<close>:
  \<open>checkExpressionTypes\<close>, the shape of fixed prices, the request rules, and
  \<open>compileBillingExpression\<close> with its cache of 128 results. The lemmas relate
  the type table of the checker to a type of each node and that type to the typing
  rules of the language, and show that the cache never changes a result.
\<close>

subsection \<open>Types\<close>

datatype expression_type = T_number | T_string | T_boolean | T_nil | T_dynamic

fun type_name :: "expression_type \<Rightarrow> jstring" where
  "type_name T_number = lit ''number''"
| "type_name T_string = lit ''string''"
| "type_name T_boolean = lit ''boolean''"
| "type_name T_nil = lit ''nil''"
| "type_name T_dynamic = lit ''dynamic''"

definition requireType ::
  "(node \<Rightarrow> expression_type option) \<Rightarrow> node \<Rightarrow> expression_type \<Rightarrow> js_error + unit" where
  "requireType types child expected =
     (if types child \<noteq> Some expected \<and> types child \<noteq> Some T_dynamic then
        Inl (billing_error C_type (type_name expected @ lit '' operand'') (Some (node_start child)))
      else Inr ())"

definition literal_type :: "literal_value \<Rightarrow> expression_type" where
  "literal_type v =
     (case v of LNil \<Rightarrow> T_nil | LNumber _ \<Rightarrow> T_number | LString _ \<Rightarrow> T_string | LBoolean _ \<Rightarrow> T_boolean)"

definition binary_type ::
  "(node \<Rightarrow> expression_type option) \<Rightarrow> jstring \<Rightarrow> node \<Rightarrow> node \<Rightarrow> js_error + expression_type" where
  "binary_type types operator l r =
     (if operator \<in> set (map lit [''&&'', ''||'']) then
        ebind (requireType types l T_boolean) (\<lambda>_.
        ebind (requireType types r T_boolean) (\<lambda>_. Inr T_boolean))
      else if operator \<in> set (map lit [''=='', ''!='', ''<'', ''<='', ''>'', ''>='']) then Inr T_boolean
      else if operator = lit ''+'' \<and> types l = Some T_string \<and> types r = Some T_string then Inr T_string
      else
        ebind (requireType types l T_number) (\<lambda>_.
        ebind (requireType types r T_number) (\<lambda>_. Inr T_number)))"

definition call_type ::
  "(node \<Rightarrow> expression_type option) \<Rightarrow> jstring \<Rightarrow> node list \<Rightarrow> js_error + expression_type" where
  "call_type types name args =
     ebind (if name \<in> set (map lit [''param'', ''header'', ''u''] @ TIME_FUNCTIONS)
            then requireType types (args ! 0) T_string else Inr ()) (\<lambda>_.
       if name = lit ''header'' then Inr T_string
       else if name = lit ''has'' then
         ebind (requireType types (args ! 1) T_string) (\<lambda>_. Inr T_boolean)
       else if name = lit ''tier'' then
         ebind (requireType types (args ! 0) T_string) (\<lambda>_.
         ebind (requireType types (args ! 1) T_number) (\<lambda>_. Inr T_number))
       else if name \<in> set TIME_FUNCTIONS then Inr T_number
       else if name \<in> set (map lit [''fixed'', ''min'', ''max'', ''abs'', ''ceil'', ''floor'']) then
         ebind (emap (\<lambda>arg. requireType types arg T_number) args) (\<lambda>_. Inr T_number)
       else Inr T_dynamic)"

text \<open>The type the visitor gives a node, from the types of its children.\<close>

definition node_type :: "(node \<Rightarrow> expression_type option) \<Rightarrow> node \<Rightarrow> js_error + expression_type" where
  "node_type types n =
     (case n of
        Literal v _ _ _ \<Rightarrow> Inr (literal_type v)
      | Variable _ _ _ \<Rightarrow> Inr T_number
      | Unary operator e _ _ \<Rightarrow>
          (let result = (if operator = lit ''!'' then T_boolean else T_number)
           in ebind (requireType types e result) (\<lambda>_. Inr result))
      | Conditional c y e _ _ \<Rightarrow>
          ebind (requireType types c T_boolean) (\<lambda>_.
            Inr (if types y = types e then case types y of Some t \<Rightarrow> t | None \<Rightarrow> T_dynamic else T_dynamic))
      | Binary operator l r _ _ \<Rightarrow> binary_type types operator l r
      | Call name args _ _ \<Rightarrow> call_type types name args)"

definition check_visitor ::
  "node \<Rightarrow> (node \<times> expression_type) list \<Rightarrow> js_error + (node \<times> expression_type) list" where
  "check_visitor n types =
     ebind (node_type (map_of types) n) (\<lambda>result. Inr (assoc_set n result types))"

definition checkExpressionTypes :: "node \<Rightarrow> js_error + unit" where
  "checkExpressionTypes ast = ebind (visitExpression ast check_visitor []) (\<lambda>_. Inr ())"

subsection \<open>Request rules and fixed prices\<close>

record compiled_rule =
  cr_node :: node
  cr_condition :: node
  cr_multiplier :: number
  cr_cond :: jstring

definition containsPricingMarker :: "node \<Rightarrow> js_error + bool" where
  "containsPricingMarker n =
     ebind (expressionDependencies n) (\<lambda>(_, calls).
       Inr (lit ''tier'' \<in> set calls \<or> lit ''fixed'' \<in> set calls))"

text \<open>
  One round of the loop over the two factors of a product: whether the factor
  is the image count or a non-negative request multiplier.
\<close>

definition multiplier_factor :: "compiled_rule list \<Rightarrow> node \<Rightarrow> js_error + bool" where
  "multiplier_factor rules factor =
     (if (case factor of Variable x _ _ \<Rightarrow> x = lit ''image_count'' | _ \<Rightarrow> False) then Inr True
      else case find (\<lambda>candidate. cr_node candidate = factor) rules of
        None \<Rightarrow> Inr False
      | Some rule \<Rightarrow>
          if num_le (Fin 0) (cr_multiplier rule) then
            ebind (containsPricingMarker (cr_condition rule)) (\<lambda>m. Inr (\<not> m))
          else Inr False)"

definition fixed_amount_ok :: "node \<Rightarrow> bool" where
  "fixed_amount_ok amount =
     (case amount of
        Literal (LNumber v) _ _ _ \<Rightarrow> num_le (Fin 0) v \<and> isFinite (num_mul v (Fin 1000000))
      | _ \<Rightarrow> False)"

text \<open>The last test of \<open>validateFixedPricingTree\<close>: a tier whose price is fixed or holds no marker.\<close>

definition pricing_leaf :: "node \<Rightarrow> js_error + unit" where
  "pricing_leaf n =
     (let failed = Inl (billing_error C_type
            (lit ''Use tier(name, fixed(amount)) with a finite, non-negative numeric literal; combine pricing branches only with conditions and request multipliers.'')
            (Some (node_start n)))
      in case n of
           Call name args _ _ \<Rightarrow>
             if name = lit ''tier'' then
               ebind (containsPricingMarker (args ! 0)) (\<lambda>m.
                 if m then failed
                 else case args ! 1 of
                   Call f fargs _ _ \<Rightarrow>
                     if f = lit ''fixed'' then if fixed_amount_ok (fargs ! 0) then Inr () else failed
                     else ebind (containsPricingMarker (args ! 1)) (\<lambda>m. if m then failed else Inr ())
                 | _ \<Rightarrow> ebind (containsPricingMarker (args ! 1)) (\<lambda>m. if m then failed else Inr ()))
             else failed
         | _ \<Rightarrow> failed)"

fun validateFixedPricingTree :: "compiled_rule list \<Rightarrow> node \<Rightarrow> js_error + unit" where
  "validateFixedPricingTree rules (Conditional c y e a b) =
     ebind (containsPricingMarker c) (\<lambda>m.
       if \<not> m then ebind (validateFixedPricingTree rules y) (\<lambda>_. validateFixedPricingTree rules e)
       else pricing_leaf (Conditional c y e a b))"
| "validateFixedPricingTree rules (Binary operator l r a b) =
     (if operator = lit ''*'' then
        ebind (multiplier_factor rules r) (\<lambda>ok.
          if ok then validateFixedPricingTree rules l
          else ebind (multiplier_factor rules l) (\<lambda>ok.
            if ok then validateFixedPricingTree rules r
            else pricing_leaf (Binary operator l r a b)))
      else pricing_leaf (Binary operator l r a b))"
| "validateFixedPricingTree rules n = pricing_leaf n"

subsection \<open>Compilation\<close>

record compiled_expression =
  ce_version :: nat
  ce_source :: jstring
  ce_ast :: node
  ce_variables :: "jstring list"
  ce_functions :: "jstring list"
  ce_requestRules :: "compiled_rule list"

datatype compilation_result = Ready compiled_expression | Failed expression_failure

definition rule_visitor :: "jstring \<Rightarrow> node \<Rightarrow> compiled_rule list \<Rightarrow> js_error + compiled_rule list" where
  "rule_visitor source n rules =
     (case n of
        Conditional c (Literal (LNumber multiplier) _ _ _) (Literal (LNumber one) _ _ _) _ _ \<Rightarrow>
          if one \<noteq> Fin 1 then Inr rules
          else ebind (expressionDependencies c) (\<lambda>(_, calls).
            if \<not> list_ex (\<lambda>name. name \<in> set (map lit [''param'', ''header''] @ TIME_FUNCTIONS)) calls then Inr rules
            else Inr (rules @ [\<lparr>cr_node = n, cr_condition = c, cr_multiplier = multiplier,
                   cr_cond = slice source (node_start c) (node_end c)\<rparr>]))
      | _ \<Rightarrow> Inr rules)"

definition compile_steps :: "jstring \<Rightarrow> js_error + compiled_expression" where
  "compile_steps source =
     ebind (parse_source source) (\<lambda>ast.
     ebind (checkExpressionTypes ast) (\<lambda>_.
     ebind (expressionDependencies ast) (\<lambda>(variables, functions).
     ebind (visitExpression ast (rule_visitor source) []) (\<lambda>requestRules.
     ebind (if lit ''fixed'' \<in> set functions then validateFixedPricingTree requestRules ast else Inr ()) (\<lambda>_.
       Inr \<lparr>ce_version = 1, ce_source = source, ce_ast = ast, ce_variables = variables,
            ce_functions = functions, ce_requestRules = requestRules\<rparr>)))))"

definition compile_result :: "jstring \<Rightarrow> compilation_result" where
  "compile_result source =
     (case compile_steps source of Inr c \<Rightarrow> Ready c | Inl e \<Rightarrow> Failed (expressionFailure e))"

text \<open>The cache: a JavaScript \<open>Map\<close>, its entries in insertion order.\<close>

type_synonym compile_cache = "(jstring \<times> compilation_result) list"

definition cache_put :: "jstring \<Rightarrow> compilation_result \<Rightarrow> compile_cache \<Rightarrow> compile_cache" where
  "cache_put source result cache =
     assoc_set source result (if 128 \<le> length cache then tl cache else cache)"

definition compileBillingExpression ::
  "jstring \<Rightarrow> compile_cache \<Rightarrow> compilation_result \<times> compile_cache" where
  "compileBillingExpression source cache =
     (case map_of cache source of
        Some cached \<Rightarrow> (cached, cache)
      | None \<Rightarrow> let result = compile_result source in (result, cache_put source result cache))"

subsection \<open>The checker's types\<close>

text \<open>The type of a node as a function of the tree; \<open>None\<close> when a node in it has no type.\<close>

fun static_type :: "node \<Rightarrow> expression_type option" where
  "static_type n =
     (if list_all (\<lambda>c. static_type c \<noteq> None) (node_children n) then
        case node_type (\<lambda>c. if c \<in> set (node_children n) then static_type c else None) n of
          Inr t \<Rightarrow> Some t
        | Inl _ \<Rightarrow> None
      else None)"

declare static_type.simps [simp del]

lemma vocabulary_ok_children: "vocabulary_ok n \<Longrightarrow> c \<in> set (node_children n) \<Longrightarrow> vocabulary_ok c"
  by (cases n) (auto simp: list_all_iff)

lemma arity_bounds:
  assumes "map_of BILLING_FUNCTIONS f = Some k"
  shows "0 < k" "f = lit ''has'' \<or> f = lit ''tier'' \<or> f = lit ''min'' \<or> f = lit ''max'' \<Longrightarrow> k = 2"
  using assms by (auto simp: BILLING_FUNCTIONS_def split: if_splits)

lemma requireType_cong: "g c = h c \<Longrightarrow> requireType g c t = requireType h c t"
  by (simp add: requireType_def)

lemma call_type_cong:
  assumes "map_of BILLING_FUNCTIONS f = Some (length ns)" "\<And>c. c \<in> set ns \<Longrightarrow> g c = h c"
  shows "call_type g f ns = call_type h f ns"
proof -
  have "g (ns ! 0) = h (ns ! 0)" using arity_bounds(1) [OF assms(1)] by (intro assms(2)) simp
  moreover have "g (ns ! 1) = h (ns ! 1)" if "f = lit ''has'' \<or> f = lit ''tier''"
    using arity_bounds(2) [OF assms(1)] that by (intro assms(2)) auto
  ultimately show ?thesis
    using assms(2) by (auto simp: call_type_def requireType_def intro!: ebind_cong emap_cong)
qed

lemma node_type_cong:
  assumes "vocabulary_ok n" "\<And>c. c \<in> set (node_children n) \<Longrightarrow> g c = h c"
  shows "node_type g n = node_type h n"
  using assms call_type_cong [of _ _ g h]
  by (cases n) (auto simp: node_type_def binary_type_def requireType_def Let_def)

definition types_ok :: "(node \<times> expression_type) list \<Rightarrow> bool" where
  "types_ok types \<longleftrightarrow> (\<forall>m t. map_of types m = Some t \<longrightarrow> static_type m = Some t)"

lemma static_type_table:
  assumes "vocabulary_ok n" "types_ok types" "set (node_children n) \<subseteq> dom (map_of types)"
  shows "static_type n = (case node_type (map_of types) n of Inr t \<Rightarrow> Some t | Inl _ \<Rightarrow> None)"
proof -
  have c: "static_type c = map_of types c" if "c \<in> set (node_children n)" for c
    using that assms(2,3) by (force simp: types_ok_def)
  then have "list_all (\<lambda>c. static_type c \<noteq> None) (node_children n)"
    using assms(3) by (auto simp: list_all_iff)
  then show ?thesis
    using c node_type_cong [OF assms(1), of "\<lambda>c. if c \<in> set (node_children n) then static_type c else None"]
    by (simp add: static_type.simps [of n])
qed

text \<open>
  Checking the nodes \<open>ns\<close> gives the trees \<open>cs\<close> their types, or fails when one has none.
\<close>

definition checked :: "node list \<Rightarrow> node list \<Rightarrow> (node \<times> expression_type) list \<Rightarrow> bool" where
  "checked cs ns types \<longleftrightarrow>
     (if list_all (\<lambda>c. static_type c \<noteq> None) cs
      then \<exists>types'. efold check_visitor ns types = Inr types' \<and> types_ok types' \<and>
        set cs \<union> dom (map_of types) \<subseteq> dom (map_of types')
      else \<exists>e. efold check_visitor ns types = Inl e)"

lemma checked_append:
  assumes "checked cs ns types" "\<And>types'. types_ok types' \<Longrightarrow> checked ds ms types'"
  shows "checked (cs @ ds) (ns @ ms) types"
proof (cases "list_all (\<lambda>c. static_type c \<noteq> None) cs")
  case True
  then obtain types1 where t: "efold check_visitor ns types = Inr types1" "types_ok types1"
    "set cs \<union> dom (map_of types) \<subseteq> dom (map_of types1)"
    using assms(1) by (auto simp: checked_def)
  show ?thesis using assms(2) [OF t(2)] t True
    by (simp add: checked_def efold_append split: if_splits) blast
next
  case False
  then obtain e where "efold check_visitor ns types = Inl e"
    using assms(1) by (auto simp: checked_def split: if_splits)
  then show ?thesis using False by (auto simp: checked_def efold_append)
qed

lemma check_tree: "vocabulary_ok n \<Longrightarrow> types_ok types \<Longrightarrow> checked [n] (subnodes n) types"
proof (induction n arbitrary: types rule: node_tree_induct)
  case (node n)
  have "checked cs (concat (map subnodes cs)) types"
    if "set cs \<subseteq> set (node_children n)" "types_ok types" for cs types
    using that
  proof (induction cs arbitrary: types)
    case (Cons c cs)
    have "checked [c] (subnodes c) types"
      using Cons.prems vocabulary_ok_children [OF node.prems(1)] by (intro node.IH) auto
    then show ?case using checked_append [of "[c]" "subnodes c"] Cons by simp
  qed (simp add: checked_def)
  note kids = this [OF subset_refl node.prems(2)]
  show ?case
  proof (cases "list_all (\<lambda>c. static_type c \<noteq> None) (node_children n)")
    case False
    then show ?thesis
      using kids by (auto simp: checked_def static_type.simps [of n] subnodes.simps [of n] efold_append)
  next
    case True
    then obtain types1 where t: "efold check_visitor (concat (map subnodes (node_children n))) types = Inr types1"
      "types_ok types1" "set (node_children n) \<union> dom (map_of types) \<subseteq> dom (map_of types1)"
      using kids by (auto simp: checked_def)
    have s: "static_type n = (case node_type (map_of types1) n of Inr t \<Rightarrow> Some t | Inl _ \<Rightarrow> None)"
      using static_type_table [OF node.prems(1) t(2)] t(3) by blast
    show ?thesis
    proof (cases "node_type (map_of types1) n")
      case (Inl e)
      then show ?thesis
        using t(1) s by (simp add: checked_def subnodes.simps [of n] efold_append check_visitor_def)
    next
      case (Inr r)
      then have "types_ok (assoc_set n r types1)" using s t(2) by (simp add: types_ok_def)
      then show ?thesis
        using t s Inr by (simp add: checked_def subnodes.simps [of n] efold_append check_visitor_def) blast
    qed
  qed
qed

lemma checkExpressionTypes_iff:
  assumes "vocabulary_ok n"
  shows "checkExpressionTypes n = Inr () \<longleftrightarrow> node_depth n \<le> 256 \<and> static_type n \<noteq> None"
  using check_tree [OF assms, of "[]"]
  by (cases "static_type n")
    (auto simp: checkExpressionTypes_def err_simps visitExpression_Inr_iff types_ok_def checked_def)

lemma static_type_children:
  "static_type n = Some t \<Longrightarrow> c \<in> set (node_children n) \<Longrightarrow> static_type c \<noteq> None"
  by (auto simp: static_type.simps [of n] list_all_iff split: if_splits)

subsection \<open>The typing rules of the language\<close>

text \<open>
  The types of the language as a relation on trees, in the manner of a typing
  judgement and apart from the checker. A function has a signature, the types of
  its parameters, \<open>None\<close> for one that takes any value, and the type of its result.
  A parameter or operand of a given type takes an expression of that type or one
  whose type is only known when it is evaluated.
\<close>

definition SIGNATURES :: "(jstring \<times> expression_type option list \<times> expression_type) list" where
  "SIGNATURES =
     map (\<lambda>(f, s). (lit f, s))
       [(''tier'', [Some T_string, Some T_number], T_number),
        (''fixed'', [Some T_number], T_number),
        (''param'', [Some T_string], T_dynamic),
        (''header'', [Some T_string], T_string),
        (''has'', [None, Some T_string], T_boolean),
        (''u'', [Some T_string], T_dynamic),
        (''hour'', [Some T_string], T_number),
        (''minute'', [Some T_string], T_number),
        (''weekday'', [Some T_string], T_number),
        (''month'', [Some T_string], T_number),
        (''day'', [Some T_string], T_number),
        (''min'', [Some T_number, Some T_number], T_number),
        (''max'', [Some T_number, Some T_number], T_number),
        (''abs'', [Some T_number], T_number),
        (''ceil'', [Some T_number], T_number),
        (''floor'', [Some T_number], T_number)]"

inductive has_type :: "node \<Rightarrow> expression_type \<Rightarrow> bool" and
  takes :: "expression_type option \<Rightarrow> node \<Rightarrow> bool" where
  ty_nil: "has_type (Literal LNil i a b) T_nil"
| ty_number: "has_type (Literal (LNumber x) i a b) T_number"
| ty_string: "has_type (Literal (LString s) i a b) T_string"
| ty_boolean: "has_type (Literal (LBoolean z) i a b) T_boolean"
| ty_variable: "has_type (Variable x a b) T_number"
| ty_not: "takes (Some T_boolean) e \<Longrightarrow> has_type (Unary (lit ''!'') e a b) T_boolean"
| ty_sign: "p \<in> {lit ''+'', lit ''-''} \<Longrightarrow> takes (Some T_number) e \<Longrightarrow> has_type (Unary p e a b) T_number"
| ty_logic:
    "p \<in> {lit ''&&'', lit ''||''} \<Longrightarrow> takes (Some T_boolean) l \<Longrightarrow> takes (Some T_boolean) r \<Longrightarrow>
       has_type (Binary p l r a b) T_boolean"
| ty_compare:
    "p \<in> {lit ''=='', lit ''!='', lit ''<'', lit ''<='', lit ''>'', lit ''>=''} \<Longrightarrow>
       takes None l \<Longrightarrow> takes None r \<Longrightarrow> has_type (Binary p l r a b) T_boolean"
| ty_concat: "has_type l T_string \<Longrightarrow> has_type r T_string \<Longrightarrow> has_type (Binary (lit ''+'') l r a b) T_string"
| ty_arithmetic:
    "p \<in> {lit ''+'', lit ''-'', lit ''*'', lit ''/'', lit ''%''} \<Longrightarrow>
       takes (Some T_number) l \<Longrightarrow> takes (Some T_number) r \<Longrightarrow> has_type (Binary p l r a b) T_number"
| ty_branches:
    "takes (Some T_boolean) c \<Longrightarrow> has_type y t \<Longrightarrow> has_type e t \<Longrightarrow> has_type (Conditional c y e a b) t"
| ty_mixed_branches:
    "takes (Some T_boolean) c \<Longrightarrow> has_type y t \<Longrightarrow> has_type e u \<Longrightarrow> t \<noteq> u \<Longrightarrow>
       has_type (Conditional c y e a b) T_dynamic"
| ty_call:
    "map_of SIGNATURES f = Some (ps, t) \<Longrightarrow> list_all2 takes ps ns \<Longrightarrow> has_type (Call f ns a b) t"
| takes_any: "has_type e t \<Longrightarrow> takes None e"
| takes_same: "has_type e t \<Longrightarrow> takes (Some t) e"
| takes_dynamic: "has_type e T_dynamic \<Longrightarrow> takes (Some t) e"

inductive_simps has_type_simps:
  "has_type (Literal v i a b) t" "has_type (Variable x a b) t" "has_type (Unary p e a b) t"
  "has_type (Binary p l r a b) t" "has_type (Conditional c y e a b) t" "has_type (Call f ns a b) t"

inductive_simps takes_simps: "takes None e" "takes (Some t) e"

text \<open>On calls of known functions the checker follows the signatures.\<close>

lemma requireType_Inr: "requireType types c t = Inr () \<longleftrightarrow> types c = Some t \<or> types c = Some T_dynamic"
  by (auto simp: requireType_def)

lemma requireType_bind:
  "ebind (requireType types c t) (\<lambda>_. k) = Inr u \<longleftrightarrow> (types c = Some t \<or> types c = Some T_dynamic) \<and> k = Inr u"
  by (simp add: requireType_def)

lemma requireType_emap:
  "ebind (emap (\<lambda>arg. requireType types arg t) ns) (\<lambda>_. Inr r) = Inr u \<longleftrightarrow>
     (\<forall>c \<in> set ns. types c = Some t \<or> types c = Some T_dynamic) \<and> r = u"
  by (induction ns) (auto simp: err_simps requireType_Inr)

lemma call_type_signature:
  assumes "map_of BILLING_FUNCTIONS f = Some (length ns)" "\<forall>c \<in> set ns. types c \<noteq> None"
  shows "call_type types f ns = Inr t \<longleftrightarrow>
    (\<exists>ps. map_of SIGNATURES f = Some (ps, t) \<and>
       list_all2 (\<lambda>p c. p = None \<or> types c = p \<or> types c = Some T_dynamic) ps ns)"
proof -
  have "length ns = 1 \<or> length ns = 2" using assms(1) by (auto simp: BILLING_FUNCTIONS_def split: if_splits)
  then obtain x y where "ns = [x] \<or> ns = [x, y]" by (auto simp: length_Suc_conv numeral_2_eq_2)
  then show ?thesis using assms
    by (elim disjE) (auto simp: call_type_def BILLING_FUNCTIONS_def SIGNATURES_def TIME_FUNCTIONS_def
        requireType_bind requireType_emap simp del: emap.simps split: if_splits)
qed

lemma binary_type_rules:
  assumes "p \<in> fst ` set PRECEDENCE"
  shows "binary_type types p l r = Inr t \<longleftrightarrow>
    p \<in> {lit ''&&'', lit ''||''} \<and> t = T_boolean \<and> requireType types l T_boolean = Inr () \<and>
      requireType types r T_boolean = Inr () \<or>
    p \<in> {lit ''=='', lit ''!='', lit ''<'', lit ''<='', lit ''>'', lit ''>=''} \<and> t = T_boolean \<or>
    p = lit ''+'' \<and> t = T_string \<and> types l = Some T_string \<and> types r = Some T_string \<or>
    p \<in> {lit ''+'', lit ''-'', lit ''*'', lit ''/'', lit ''%''} \<and> t = T_number \<and>
      requireType types l T_number = Inr () \<and> requireType types r T_number = Inr ()"
proof -
  have "p = lit ''||'' \<or> p = lit ''&&'' \<or> p = lit ''=='' \<or> p = lit ''!='' \<or> p = lit ''<'' \<or> p = lit ''<='' \<or>
    p = lit ''>'' \<or> p = lit ''>='' \<or> p = lit ''+'' \<or> p = lit ''-'' \<or> p = lit ''*'' \<or> p = lit ''/'' \<or> p = lit ''%''"
    using assms by (simp add: PRECEDENCE_def)
  then show ?thesis
    by (elim disjE) (auto simp: binary_type_def requireType_bind requireType_Inr)
qed

lemma static_type_Some:
  assumes "vocabulary_ok n"
  shows "static_type n = Some t \<longleftrightarrow>
    (\<forall>c \<in> set (node_children n). static_type c \<noteq> None) \<and> node_type static_type n = Inr t"
  using node_type_cong [OF assms, of "\<lambda>c. if c \<in> set (node_children n) then static_type c else None" static_type]
  by (auto simp: static_type.simps [of n] list_all_iff split: sum.splits)

lemma has_type_iff: "vocabulary_ok n \<Longrightarrow> has_type n t \<longleftrightarrow> static_type n = Some t"
proof (induction n arbitrary: t rule: node_tree_induct)
  case (node n)
  have IH: "has_type c t \<longleftrightarrow> static_type c = Some t" if "c \<in> set (node_children n)" for c t
    using node.IH [OF that] vocabulary_ok_children [OF node.prems that] by blast
  have tk: "takes None c \<longleftrightarrow> static_type c \<noteq> None"
    "takes (Some t) c \<longleftrightarrow> static_type c = Some t \<or> static_type c = Some T_dynamic"
    if "c \<in> set (node_children n)" for c t
    using IH [OF that] by (auto simp: takes_simps)
  note st = static_type_Some [OF node.prems]
  show ?case
  proof (cases n)
    case (Literal v i a b)
    then show ?thesis unfolding st by (cases v) (auto simp: has_type_simps node_type_def literal_type_def)
  next
    case (Variable x a b)
    then show ?thesis unfolding st by (auto simp: has_type_simps node_type_def)
  next
    case (Unary p e a b)
    then have "p = lit ''!'' \<or> p = lit ''+'' \<or> p = lit ''-''" using node.prems by (simp add: UNARY_OPERATORS_def)
    then show ?thesis unfolding st
      using Unary tk [of e] by (auto simp: has_type_simps node_type_def Let_def requireType_bind)
  next
    case (Binary p l r a b)
    then have p: "p \<in> fst ` set PRECEDENCE" using node.prems by simp
    have lr: "l \<in> set (node_children n)" "r \<in> set (node_children n)" using Binary by simp_all
    have "has_type n t \<longleftrightarrow> (\<exists>u. static_type l = Some u) \<and> (\<exists>u. static_type r = Some u) \<and> binary_type static_type p l r = Inr t"
      unfolding binary_type_rules [OF p] Binary has_type_simps tk [OF lr(1)] tk [OF lr(2)] IH [OF lr(1)] IH [OF lr(2)]
        requireType_Inr
      by blast
    then show ?thesis unfolding st using Binary by (simp add: node_type_def)
  next
    case (Conditional c y e a b)
    then show ?thesis unfolding st
      using tk [of c] IH [of y] IH [of e]
      by (auto simp: has_type_simps node_type_def requireType_bind)
  next
    case (Call f ns a b)
    then have f: "map_of BILLING_FUNCTIONS f = Some (length ns)" using node.prems by simp
    have a: "list_all2 takes ps ns \<longleftrightarrow>
        (\<forall>c \<in> set ns. static_type c \<noteq> None) \<and>
        list_all2 (\<lambda>p c. p = None \<or> static_type c = p \<or> static_type c = Some T_dynamic) ps ns" for ps
    proof -
      have "takes p c \<longleftrightarrow> static_type c \<noteq> None \<and> (p = None \<or> static_type c = p \<or> static_type c = Some T_dynamic)"
        if "c \<in> set ns" for p c
        using tk [of c] that Call by (cases p) auto
      then show ?thesis by (auto simp: list_all2_conv_all_nth all_set_conv_all_nth)
    qed
    show ?thesis unfolding st
      using Call call_type_signature [OF f, of static_type t] a by (auto simp: has_type_simps node_type_def)
  qed
qed

subsection \<open>The cache\<close>

definition cache_invar :: "compile_cache \<Rightarrow> bool" where
  "cache_invar cache \<longleftrightarrow> distinct (map fst cache) \<and> length cache \<le> 128"

interpretation compile_memo: memo_cache map_of cache_put "[]" cache_invar
proof (unfold_locales, goal_cases)
  case (2 c k v)
  then show ?case
    by (cases c) (auto simp: cache_invar_def cache_put_def length_assoc_set map_of_eq_None_iff
        intro!: distinct_assoc_set split: if_splits)
next
  case (5 c k k' v w)
  have "k' \<notin> fst ` set list \<Longrightarrow> (k', w) \<notin> set list" for list :: compile_cache
    by (force simp: image_iff)
  with 5 show ?case
    by (cases c) (auto simp: cache_invar_def cache_put_def split: if_splits)
qed (auto simp: cache_invar_def cache_put_def)

text \<open>One compilation after another, from the cache the earlier ones left.\<close>

fun compile_all :: "jstring list \<Rightarrow> compile_cache \<Rightarrow> compilation_result list \<times> compile_cache" where
  "compile_all [] cache = ([], cache)"
| "compile_all (s # ss) cache =
     (let (r, cache1) = compileBillingExpression s cache; (rs, cache2) = compile_all ss cache1
      in (r # rs, cache2))"

abbreviation cache_sound :: "compile_cache \<Rightarrow> bool" where
  "cache_sound \<equiv> compile_memo.sound (\<lambda>s r. r = compile_result s)"

lemma compileBillingExpression_sound:
  assumes "cache_sound cache"
  shows "fst (compileBillingExpression s cache) = compile_result s"
    and "cache_sound (snd (compileBillingExpression s cache))"
  using assms compile_memo.sound_get [OF assms] compile_memo.sound_put [OF assms]
  by (auto simp: compileBillingExpression_def Let_def split: option.splits)

lemma compile_all_sound:
  "cache_sound cache \<Longrightarrow>
     fst (compile_all ss cache) = map compile_result ss \<and> cache_sound (snd (compile_all ss cache))"
  using compileBillingExpression_sound
  by (induction ss arbitrary: cache) (auto simp: Let_def case_prod_beta)

lemma compile_result_Ready:
  assumes "compile_result source = Ready c"
  shows "parse_source source = Inr (ce_ast c)" "ce_source c = source" "static_type (ce_ast c) \<noteq> None"
    "node_depth (ce_ast c) \<le> 256" "set (ce_variables c) = used_variables (ce_ast c)"
    "set (ce_functions c) = called_functions (ce_ast c)"
    "visitExpression (ce_ast c) (rule_visitor source) [] = Inr (ce_requestRules c)"
proof -
  obtain vs fs rs ast where c: "parse_source source = Inr ast" "checkExpressionTypes ast = Inr ()"
    "expressionDependencies ast = Inr (vs, fs)" "visitExpression ast (rule_visitor source) [] = Inr rs"
    "c = \<lparr>ce_version = 1, ce_source = source, ce_ast = ast, ce_variables = vs, ce_functions = fs, ce_requestRules = rs\<rparr>"
    using assms by (auto simp: compile_result_def compile_steps_def err_simps split: sum.splits)
  show "parse_source source = Inr (ce_ast c)" "ce_source c = source" "static_type (ce_ast c) \<noteq> None"
    "node_depth (ce_ast c) \<le> 256" "set (ce_variables c) = used_variables (ce_ast c)"
    "set (ce_functions c) = called_functions (ce_ast c)"
    "visitExpression (ce_ast c) (rule_visitor source) [] = Inr (ce_requestRules c)"
    using c expressionDependencies_Inr [OF c(3)] checkExpressionTypes_iff [OF parse_source_ok(2) [OF c(1)]]
    by auto
qed

subsection \<open>A compiled expression\<close>

text \<open>The source \<open>tier("a", p * 2)\<close> and what it compiles to.\<close>

definition sample_source :: jstring where
  "sample_source = lit ''tier(\"a\", p * 2)''"

definition sample_compiled :: compiled_expression where
  "sample_compiled =
     \<lparr>ce_version = 1, ce_source = sample_source,
      ce_ast = Call (lit ''tier'')
        [Literal (LString (lit ''a'')) False 5 8,
         Binary (lit ''*'') (Variable (lit ''p'') 10 11) (Literal (LNumber (Fin 2)) True 14 15) 10 15] 0 16,
      ce_variables = [lit ''p''], ce_functions = [lit ''tier''], ce_requestRules = []\<rparr>"

lemma compile_sample: "compile_result sample_source = Ready sample_compiled"
  by code_simp

subsection \<open>Properties\<close>

text \<open>
  C3: the cache of compiled expressions is transparent and bounded. After any
  sequence of compilations from an empty cache every result is the one a
  compilation without a cache gives, and the cache holds at most 128 entries
  with distinct sources.
\<close>

theorem compile_cache_transparent:
  "fst (compile_all ss []) = map compile_result ss \<and>
   length (snd (compile_all ss [])) \<le> 128 \<and> distinct (map fst (snd (compile_all ss [])))"
  using compile_all_sound [OF compile_memo.sound_empty, of ss]
  by (simp add: compile_memo.sound_def cache_invar_def)

text \<open>
  C9: on a tree of the language, its variables, operators, functions and numbers of
  arguments known, the type checker, which fills a table of types in one post-order
  walk, accepts exactly the trees of depth at most 256 that have a type by the typing
  rules, a relation given apart from the checker with a signature for each function;
  and a tree has at most one type.
\<close>

theorem type_check_decides_typing:
  assumes "vocabulary_ok n"
  shows "(checkExpressionTypes n = Inr () \<longleftrightarrow> node_depth n \<le> 256 \<and> (\<exists>t. has_type n t)) \<and>
    (\<forall>t u. has_type n t \<longrightarrow> has_type n u \<longrightarrow> t = u)"
  using checkExpressionTypes_iff [OF assms] has_type_iff [OF assms] by auto

theorem type_check_decides_typing_witness:
  "(\<nexists>t. has_type (Unary (lit ''!'') (Variable (lit ''p'') 1 2) 0 2) t) \<and>
   has_type (ce_ast sample_compiled) T_number \<and> checkExpressionTypes (ce_ast sample_compiled) = Inr ()"
proof -
  let ?n = "Unary (lit ''!'') (Variable (lit ''p'') 1 2) 0 2"
  note d = node_depth.simps [of "Unary _ _ _ _"] node_depth.simps [of "Variable _ _ _"] node_depth.simps [of "Call _ _ _ _"]
    node_depth.simps [of "Binary _ _ _ _ _"] node_depth.simps [of "Literal _ _ _ _"]
  have v: "vocabulary_ok ?n" "vocabulary_ok (ce_ast sample_compiled)" by code_simp+
  have "checkExpressionTypes ?n \<noteq> Inr ()" by code_simp
  moreover have "node_depth ?n \<le> 256" "node_depth (ce_ast sample_compiled) \<le> 256"
    by (simp_all add: d sample_compiled_def)
  moreover have "has_type (ce_ast sample_compiled) T_number"
    by (simp add: sample_compiled_def has_type_simps takes_simps SIGNATURES_def)
  ultimately show ?thesis
    using type_check_decides_typing [OF v(1)] type_check_decides_typing [OF v(2)] by blast
qed

end
