(* ===== verification/JS_Value.thy ===== *)
theory JS_Value
  imports JS_String
begin

text \<open>
  The values the program handles without knowing their type (\<open>unknown\<close>): JSON
  data and \<open>undefined\<close>. With them come the conversions of the language that the
  program applies to them: \<open>Number\<close> of a string, \<open>toExponential\<close>, strict
  equality, sorting by key, and the UTC fields of a \<open>Date\<close>.
\<close>

subsection \<open>Values\<close>

text \<open>An object is the list of its own entries in the order of \<open>Object.entries\<close>.\<close>

datatype json =
    JUndefined
  | JNull
  | JBool bool
  | JNum number
  | JStr jstring
  | JArr "json list"
  | JObj "(jstring \<times> json) list"

text \<open>\<open>value == null\<close>, and \<open>typeof value === 'object'\<close>.\<close>

definition is_nullish :: "json \<Rightarrow> bool" where
  "is_nullish v \<longleftrightarrow> v = JUndefined \<or> v = JNull"

definition is_object :: "json \<Rightarrow> bool" where
  "is_object v = (case v of JNull \<Rightarrow> True | JArr _ \<Rightarrow> True | JObj _ \<Rightarrow> True | _ \<Rightarrow> False)"

text \<open>
  Strict equality of two values that are not both objects. An array or an
  object never equals a value of another kind.
\<close>

definition strict_eq :: "json \<Rightarrow> json \<Rightarrow> bool" where
  "strict_eq a b =
     (case a of
        JNum x \<Rightarrow> (case b of JNum y \<Rightarrow> num_eq x y | _ \<Rightarrow> False)
      | JArr _ \<Rightarrow> False
      | JObj _ \<Rightarrow> False
      | _ \<Rightarrow> a = b)"

text \<open>\<open>Array.prototype.sort\<close> by key, which is stable: an entry goes before the first larger one.\<close>

fun insert_entry :: "jstring \<times> 'a \<Rightarrow> (jstring \<times> 'a) list \<Rightarrow> (jstring \<times> 'a) list" where
  "insert_entry e [] = [e]"
| "insert_entry e (f # fs) = (if string_lt (fst f) (fst e) then f # insert_entry e fs else e # f # fs)"

definition sort_entries :: "(jstring \<times> 'a) list \<Rightarrow> (jstring \<times> 'a) list" where
  "sort_entries es = foldr insert_entry es []"

lemma set_insert_entry [simp]: "set (insert_entry e es) = insert e (set es)"
  by (induction es) auto

lemma set_sort_entries [simp]: "set (sort_entries es) = set es"
  by (induction es) (auto simp: sort_entries_def)

lemma sorted_insert_entry:
  "sorted_wrt (\<lambda>x y. \<not> string_lt (fst y) (fst x)) es \<Longrightarrow>
     sorted_wrt (\<lambda>x y. \<not> string_lt (fst y) (fst x)) (insert_entry e es)"
proof (induction es)
  case (Cons f es)
  have "\<not> string_lt (fst g) (fst e)" if "g \<in> set es" "\<not> string_lt (fst f) (fst e)" for g
  proof
    assume "string_lt (fst g) (fst e)"
    moreover have "\<not> string_lt (fst g) (fst f)" using Cons.prems that(1) by simp
    ultimately show False using that(2) string_lt_total [of "fst f" "fst g"] string_lt_trans by metis
  qed
  moreover have "string_lt (fst f) (fst e) \<Longrightarrow> \<not> string_lt (fst e) (fst f)"
    using string_lt_trans string_lt_irrefl by blast
  ultimately show ?case using Cons by auto
qed simp

lemma sorted_sort_entries: "sorted_wrt (\<lambda>x y. \<not> string_lt (fst y) (fst x)) (sort_entries es)"
  by (induction es) (auto simp: sort_entries_def sorted_insert_entry)

subsection \<open>Numbers from strings\<close>

text \<open>
  \<open>Number(s)\<close>: white space around the literal is ignored and an empty string
  is zero; a sign is only allowed before a decimal literal or \<open>Infinity\<close>.
\<close>

definition unsigned_number :: "jstring \<Rightarrow> number" where
  "unsigned_number t =
     (if t = lit ''Infinity'' then PInf
      else if t \<noteq> [] \<and> scan_number t = t then decimal_number t
      else NaN)"

definition radix_number :: "int \<Rightarrow> (code_unit \<Rightarrow> bool) \<Rightarrow> jstring \<Rightarrow> number" where
  "radix_number b ok ds =
     (if ds \<noteq> [] \<and> list_all ok ds then num_of_rat (of_int (foldl (\<lambda>a c. a * b + hex_val c) 0 ds)) else NaN)"

definition string_to_number :: "jstring \<Rightarrow> number" where
  "string_to_number s =
     (let t = trim s
      in if t = [] then Fin 0
         else if take 2 t \<in> {lit ''0x'', lit ''0X''} then radix_number 16 is_hex (drop 2 t)
         else if take 2 t \<in> {lit ''0o'', lit ''0O''} then
           radix_number 8 (\<lambda>c. 48 \<le> c \<and> c \<le> 55) (drop 2 t)
         else if take 2 t \<in> {lit ''0b'', lit ''0B''} then
           radix_number 2 (\<lambda>c. 48 \<le> c \<and> c \<le> 49) (drop 2 t)
         else if hd t = 43 then unsigned_number (tl t)
         else if hd t = 45 then num_neg (unsigned_number (tl t))
         else unsigned_number t)"

text \<open>
  \<open>toExponential()\<close> of a non-zero finite number, split at its \<open>e\<close>: the
  mantissa with as many digits as needed, and the exponent.
\<close>

definition to_exponential :: "rat \<Rightarrow> jstring \<times> int" where
  "to_exponential q =
     (let (s, k, n) = shortest \<bar>q\<bar>; ds = int_digits s;
          mantissa = (if k = 1 then ds else take 1 ds @ 46 # drop 1 ds)
      in (if q < 0 then 45 # mantissa else mantissa, n - 1))"

subsection \<open>The UTC fields of a date\<close>

text \<open>
  A valid \<open>Date\<close> is its time value in milliseconds. Days are counted from the
  first of March of a year divisible by 400, so that a leap day is the last day
  of its year.
\<close>

definition day_number :: "int \<Rightarrow> int" where
  "day_number t = t div 86400000"

definition getUTCHours :: "int \<Rightarrow> int" where
  "getUTCHours t = (t div 3600000) mod 24"

definition getUTCMinutes :: "int \<Rightarrow> int" where
  "getUTCMinutes t = (t div 60000) mod 60"

definition getUTCDay :: "int \<Rightarrow> int" where
  "getUTCDay t = (day_number t + 4) mod 7"

definition day_of_year :: "int \<Rightarrow> int" where
  "day_of_year t =
     (let e = (day_number t + 719468) mod 146097;
          r = e - 36524 * min (e div 36524) 3;
          s = r mod 1461
      in s - 365 * min (s div 365) 3)"

definition month_index :: "int \<Rightarrow> int" where
  "month_index doy = (5 * doy + 2) div 153"

text \<open>Both results count from the civil year: months from 0 (January), days from 1.\<close>

definition getUTCMonth :: "int \<Rightarrow> int" where
  "getUTCMonth t = (month_index (day_of_year t) + 2) mod 12"

definition getUTCDate :: "int \<Rightarrow> int" where
  "getUTCDate t =
     (let doy = day_of_year t in doy - (153 * month_index doy + 2) div 5 + 1)"

lemma day_of_year_bounds: "0 \<le> day_of_year t \<and> day_of_year t \<le> 365"
proof -
  define e where "e = (day_number t + 719468) mod 146097"
  define s where "s = (e - 36524 * min (e div 36524) 3) mod 1461"
  have s: "0 \<le> s" "s < 1461" by (simp_all add: s_def)
  define q where "q = s div 365"
  have "365 * q \<le> s" "s < 365 * q + 365" by (simp_all add: q_def)
  then have "0 \<le> s - 365 * min q 3 \<and> s - 365 * min q 3 \<le> 365" using s by (simp add: min_def)
  then show ?thesis unfolding day_of_year_def Let_def e_def [symmetric] s_def [symmetric] q_def [symmetric] .
qed

lemma month_index_bounds: "0 \<le> d \<Longrightarrow> d \<le> 365 \<Longrightarrow> 0 \<le> month_index d \<and> month_index d \<le> 11"
proof -
  assume d: "0 \<le> d" "d \<le> 365"
  have "153 * month_index d \<le> 5 * d + 2" "5 * d + 2 < 153 * month_index d + 153"
    by (simp_all add: month_index_def)
  then show ?thesis using d by linarith
qed

lemma day_of_month_bounds:
  "0 \<le> d - (153 * month_index d + 2) div 5 \<and> d - (153 * month_index d + 2) div 5 \<le> 30"
proof -
  define a where "a = month_index d"
  define b where "b = (153 * a + 2) div 5"
  have a: "153 * a \<le> 5 * d + 2" "5 * d + 2 < 153 * a + 153"
    by (simp_all add: a_def month_index_def)
  have b: "5 * b \<le> 153 * a + 2" "153 * a + 2 < 5 * b + 5"
    by (simp_all add: b_def)
  show ?thesis using a b unfolding a_def [symmetric] b_def [symmetric] by linarith
qed

lemma mod_bounds: "0 < (k::int) \<Longrightarrow> 0 \<le> x mod k \<and> x mod k \<le> k - 1"
  by simp

lemma utc_bounds:
  "0 \<le> getUTCHours t \<and> getUTCHours t \<le> 23" "0 \<le> getUTCMinutes t \<and> getUTCMinutes t \<le> 59"
  "0 \<le> getUTCDay t \<and> getUTCDay t \<le> 6" "0 \<le> getUTCMonth t \<and> getUTCMonth t \<le> 11"
  "1 \<le> getUTCDate t \<and> getUTCDate t \<le> 31"
proof -
  show "0 \<le> getUTCHours t \<and> getUTCHours t \<le> 23"
    using mod_bounds [of 24 "t div 3600000"] by (simp only: getUTCHours_def) simp
  show "0 \<le> getUTCMinutes t \<and> getUTCMinutes t \<le> 59"
    using mod_bounds [of 60 "t div 60000"] by (simp only: getUTCMinutes_def) simp
  show "0 \<le> getUTCDay t \<and> getUTCDay t \<le> 6"
    using mod_bounds [of 7 "day_number t + 4"] by (simp only: getUTCDay_def) simp
  show "0 \<le> getUTCMonth t \<and> getUTCMonth t \<le> 11"
    using mod_bounds [of 12 "month_index (day_of_year t) + 2"] by (simp only: getUTCMonth_def) simp
  show "1 \<le> getUTCDate t \<and> getUTCDate t \<le> 31"
    using day_of_month_bounds [of "day_of_year t"] unfolding getUTCDate_def Let_def by linarith
qed

end
