(* ===== verification/Billing_Runtime.thy ===== *)
theory Billing_Runtime
  imports Billing_Check JS_Value
begin

text \<open>
  The interpreter of compiled billing expressions
  (\<open>billing-expression/runtime.ts\<close>): request paths, the text form of request
  values, time zones, the state of \<open>BillingRuntime\<close> with its evaluation rules,
  and the two entry points. The lemmas are in \<open>Runtime_Facts\<close>.
\<close>

subsection \<open>What the host provides\<close>

text \<open>
  \<open>Intl.DateTimeFormat\<close> knows the time zones: constructing a formatter with a
  locale and options, \<open>h_zone\<close>, fails or gives the resolved zone name and the parts
  of a time value. \<open>h_lower\<close> is \<open>toLowerCase\<close>, which depends on the Unicode tables;
  \<open>h_now\<close> is \<open>new Date()\<close>.
\<close>

record intl_options =
  io_locale :: jstring
  io_timeZone :: jstring
  io_calendar :: "jstring option"
  io_numberingSystem :: "jstring option"
  io_hourCycle :: "jstring option"
  io_hour :: "jstring option"
  io_minute :: "jstring option"
  io_weekday :: "jstring option"
  io_month :: "jstring option"
  io_day :: "jstring option"

record intl_zone =
  iz_resolved :: jstring
  iz_parts :: "int \<Rightarrow> (jstring \<times> jstring) list"

record host =
  h_lower :: "jstring \<Rightarrow> jstring"
  h_zone :: "intl_options \<Rightarrow> intl_zone option"
  h_now :: "int option"

subsection \<open>Request paths\<close>

definition path_error :: "jstring \<Rightarrow> js_error" where
  "path_error path = billing_error C_unsupported path None"

fun path_parts :: "jstring \<Rightarrow> jstring \<Rightarrow> jstring \<Rightarrow> jstring list \<Rightarrow> js_error + jstring list" where
  "path_parts path [] part parts = Inr (parts @ [part])"
| "path_parts path (c # r) part parts =
     (if c = 92 then
        case r of [] \<Rightarrow> Inl (path_error path) | d # r' \<Rightarrow> path_parts path r' (part @ [d]) parts
      else if c = 46 then path_parts path r [] (parts @ [part])
      else if c \<in> set (lit ''*?[]()|@!'') then Inl (path_error path)
      else path_parts path r (part @ [c]) parts)"

text \<open>One step into an array: the element at an index, \<open>undefined\<close> when there is none.\<close>

definition array_element :: "json list \<Rightarrow> jstring \<Rightarrow> json" where
  "array_element vs key =
     (let index = decimal_number key
      in if isSafeInteger index \<and> nat \<lfloor>num_val index\<rfloor> < length vs
         then vs ! nat \<lfloor>num_val index\<rfloor> else JUndefined)"

fun walk_path :: "jstring \<Rightarrow> json \<Rightarrow> jstring list \<Rightarrow> js_error + json" where
  "walk_path path value [] = Inr (if value = JUndefined then JNull else value)"
| "walk_path path value (key # parts) =
     (case value of
        JArr vs \<Rightarrow>
          if key = lit ''#'' then
            if parts = [] then Inr (JNum (Fin (of_nat (length vs)))) else Inl (path_error path)
          else if key = [] \<or> \<not> list_all is_digit key then Inr JNull
          else walk_path path (array_element vs key) parts
      | JObj es \<Rightarrow> (case map_of es key of Some v \<Rightarrow> walk_path path v parts | None \<Rightarrow> Inr JNull)
      | _ \<Rightarrow> Inr JNull)"

definition readRequestPath :: "json \<Rightarrow> jstring \<Rightarrow> js_error + json" where
  "readRequestPath body rawPath =
     (let path = trim rawPath
      in if path = [] then Inr JNull
         else ebind (path_parts path path [] []) (walk_path path body))"

subsection \<open>The text of a request value\<close>

definition pad_two :: "jstring \<Rightarrow> jstring" where
  "pad_two s = replicate (2 - length s) 48 @ s"

definition number_text :: "number \<Rightarrow> js_error + jstring" where
  "number_text a =
     (if \<not> isFinite a then Inl (billing_error C_number (lit ''request number'') None)
      else if a = NegZero then Inr (lit ''-0'')
      else if num_val a = 0 then Inr (number_to_string a)
      else
        let (mantissa, exponent) = to_exponential (num_val a)
        in if 6 \<le> exponent \<or> exponent < - 4 then
             Inr (mantissa @ [101] @ (if exponent < 0 then [45] else [43]) @ pad_two (int_digits \<bar>exponent\<bar>))
           else Inr (number_to_string a))"

fun billingString :: "json \<Rightarrow> nat \<Rightarrow> js_error + jstring" where
  "billingString value depth =
     (if 128 < depth then Inl (billing_error C_limit (lit ''request value depth'') None)
      else case value of
        JUndefined \<Rightarrow> Inr (lit ''<nil>'')
      | JNull \<Rightarrow> Inr (lit ''<nil>'')
      | JArr vs \<Rightarrow>
          ebind (emap (\<lambda>item. billingString item (depth + 1)) vs) (\<lambda>ts.
            Inr (lit ''['' @ join [32] ts @ lit '']''))
      | JObj es \<Rightarrow>
          ebind (emap (\<lambda>(key, item). ebind (billingString item (depth + 1)) (\<lambda>t. Inr (key @ [58] @ t)))
              (sort_entries es)) (\<lambda>ts.
            Inr (lit ''map['' @ join [32] ts @ lit '']''))
      | JNum a \<Rightarrow> number_text a
      | JBool b \<Rightarrow> Inr (if b then lit ''true'' else lit ''false'')
      | JStr s \<Rightarrow> Inr s)"

declare billingString.simps [simp del]

subsection \<open>Time zones\<close>

record time_fields =
  tf_hour :: number
  tf_minute :: number
  tf_weekday :: number
  tf_month :: number
  tf_day :: number

abbreviation num_of_int :: "int \<Rightarrow> number" where
  "num_of_int i \<equiv> Fin (of_int i)"

text \<open>The test \<open>/^[A-Z][A-Za-z0-9_+-]*(?:\/[A-Z][A-Za-z0-9_+-]*)*$/\<close>.\<close>

definition zone_segment_ok :: "jstring \<Rightarrow> bool" where
  "zone_segment_ok s =
     (case s of
        [] \<Rightarrow> False
      | c # r \<Rightarrow> 65 \<le> c \<and> c \<le> 90 \<and> list_all (\<lambda>d. is_word d \<or> d = 43 \<or> d = 45) r)"

definition zone_name_ok :: "jstring \<Rightarrow> bool" where
  "zone_name_ok s = list_all zone_segment_ok (split_on 47 s)"

text \<open>The options of the formatter, and the \<open>try\<close> block that constructs it.\<close>

definition billing_zone_options :: "jstring \<Rightarrow> intl_options" where
  "billing_zone_options timezone =
     \<lparr>io_locale = lit ''en-US'', io_timeZone = timezone, io_calendar = Some (lit ''gregory''),
      io_numberingSystem = Some (lit ''latn''), io_hourCycle = Some (lit ''h23''),
      io_hour = Some (lit ''numeric''), io_minute = Some (lit ''numeric''), io_weekday = Some (lit ''short''),
      io_month = Some (lit ''numeric''), io_day = Some (lit ''numeric'')\<rparr>"

definition zone_formatter :: "host \<Rightarrow> jstring \<Rightarrow> intl_zone option" where
  "zone_formatter host timezone =
     (if \<not> zone_name_ok timezone then None
      else case h_zone host (billing_zone_options timezone) of
        None \<Rightarrow> None
      | Some z \<Rightarrow>
          if h_lower host (iz_resolved z) = h_lower host timezone \<and> iz_resolved z \<noteq> timezone then None
          else Some z)"

definition utc_fields :: "int \<Rightarrow> time_fields" where
  "utc_fields t =
     \<lparr>tf_hour = num_of_int (getUTCHours t), tf_minute = num_of_int (getUTCMinutes t),
      tf_weekday = num_of_int (getUTCDay t), tf_month = num_of_int (getUTCMonth t + 1),
      tf_day = num_of_int (getUTCDate t)\<rparr>"

fun index_of :: "'a \<Rightarrow> 'a list \<Rightarrow> int" where
  "index_of x [] = - 1"
| "index_of x (y # ys) = (if x = y then 0 else let i = index_of x ys in if i < 0 then i else i + 1)"

text \<open>\<open>Object.fromEntries\<close> keeps the last of equal keys; \<open>Number(undefined)\<close> is NaN.\<close>

definition part_number :: "(jstring \<times> jstring) list \<Rightarrow> string \<Rightarrow> number" where
  "part_number parts k =
     (case map_of (rev parts) (lit k) of Some v \<Rightarrow> string_to_number v | None \<Rightarrow> NaN)"

definition zone_fields :: "intl_zone \<Rightarrow> int \<Rightarrow> time_fields" where
  "zone_fields z t =
     (let parts = iz_parts z t
      in \<lparr>tf_hour = part_number parts ''hour'', tf_minute = part_number parts ''minute'',
          tf_weekday =
            num_of_int (case map_of (rev parts) (lit ''weekday'') of
              Some v \<Rightarrow> index_of v (map lit [''Sun'', ''Mon'', ''Tue'', ''Wed'', ''Thu'', ''Fri'', ''Sat''])
            | None \<Rightarrow> - 1),
          tf_month = part_number parts ''month'', tf_day = part_number parts ''day''\<rparr>)"

definition timeInBillingZone :: "host \<Rightarrow> int option \<Rightarrow> jstring \<Rightarrow> js_error + time_fields" where
  "timeInBillingZone host now zone =
     (case now of
        None \<Rightarrow> Inl (billing_error C_type (lit ''simulation time'') None)
      | Some t \<Rightarrow>
          let timezone = (if trim zone = [] then lit ''UTC'' else trim zone)
          in if timezone = lit ''Local'' then
               Inl (billing_error C_unsupported (lit ''server Local timezone'') None)
             else case zone_formatter host timezone of
               None \<Rightarrow> Inr (utc_fields t)
             | Some z \<Rightarrow> Inr (zone_fields z t))"

definition time_field :: "jstring \<Rightarrow> time_fields \<Rightarrow> number" where
  "time_field name values =
     (if name = lit ''hour'' then tf_hour values
      else if name = lit ''minute'' then tf_minute values
      else if name = lit ''weekday'' then tf_weekday values
      else if name = lit ''month'' then tf_month values
      else tf_day values)"

subsection \<open>The runtime\<close>

record request =
  rq_body :: json
  rq_headers :: "(jstring \<times> json) list option"

text \<open>\<open>BillingSimulationContext\<close>; the outer option of \<open>cx_now\<close> is the optional field, the inner one an invalid date.\<close>

record simulation_context =
  cx_imageCount :: "number option"
  cx_tokens :: "(jstring \<times> json) list option"
  cx_request :: "request option"
  cx_usage :: "(jstring \<times> json) list option"
  cx_now :: "int option option"

definition empty_context :: simulation_context where
  "empty_context =
     \<lparr>cx_imageCount = None, cx_tokens = None, cx_request = None, cx_usage = None, cx_now = None\<rparr>"

record billing_rule =
  br_cond :: jstring
  br_multiplier :: number
  br_matched :: bool

datatype billing_unit = U_token | U_request

text \<open>The read-only fields of \<open>BillingRuntime\<close>, and those an evaluation changes.\<close>

record runtime =
  rt_host :: host
  rt_compiled :: compiled_expression
  rt_context :: simulation_context
  rt_now :: "int option"
  rt_headers :: "(jstring \<times> jstring) list"

record runtime_state =
  rs_requestRules :: "billing_rule list"
  rs_matchedTier :: jstring
  rs_billingUnit :: billing_unit
  rs_fixedPrice :: "number option"
  rs_timeValues :: "(jstring \<times> time_fields) list"
  rs_depth :: nat

fun read_headers ::
  "host \<Rightarrow> (jstring \<times> json) list \<Rightarrow> (jstring \<times> jstring) list \<Rightarrow> js_error + (jstring \<times> jstring) list" where
  "read_headers host [] headers = Inr headers"
| "read_headers host ((name, rawValue) # rest) headers =
     (case rawValue of
        JStr s \<Rightarrow>
          let key = h_lower host (trim name); value = trim s
          in read_headers host rest (if key \<noteq> [] \<and> value \<noteq> [] then assoc_set key value headers else headers)
      | _ \<Rightarrow> Inl (billing_error C_type (lit ''request header'') None))"

definition new_runtime ::
  "host \<Rightarrow> compiled_expression \<Rightarrow> simulation_context \<Rightarrow> js_error + runtime \<times> runtime_state" where
  "new_runtime host compiled context =
     (let entries = (case cx_request context of
                       Some r \<Rightarrow> (case rq_headers r of Some hs \<Rightarrow> hs | None \<Rightarrow> [])
                     | None \<Rightarrow> [])
      in ebind (read_headers host entries []) (\<lambda>headers.
           Inr (\<lparr>rt_host = host, rt_compiled = compiled, rt_context = context,
                 rt_now = (case cx_now context of Some d \<Rightarrow> d | None \<Rightarrow> h_now host),
                 rt_headers = headers\<rparr>,
                \<lparr>rs_requestRules = map (\<lambda>rule. \<lparr>br_cond = cr_cond rule, br_multiplier = cr_multiplier rule,
                                               br_matched = False\<rparr>) (ce_requestRules compiled),
                 rs_matchedTier = [], rs_billingUnit = U_token, rs_fixedPrice = None,
                 rs_timeValues = [], rs_depth = 0\<rparr>)))"

subsection \<open>Checks on values\<close>

text \<open>A runtime value with its \<open>integer\<close> flag, absent counting as false.\<close>

type_synonym runtime_value = "json \<times> bool"

definition literal_json :: "literal_value \<Rightarrow> json" where
  "literal_json v =
     (case v of LString s \<Rightarrow> JStr s | LNumber x \<Rightarrow> JNum x | LBoolean b \<Rightarrow> JBool b | LNil \<Rightarrow> JNull)"

definition check_value :: "node \<Rightarrow> runtime_value \<Rightarrow> js_error + unit" where
  "check_value n v =
     (case fst v of
        JNum x \<Rightarrow>
          if \<not> isFinite x then
            Inl (billing_error C_number (lit ''non-finite result'') (Some (node_start n)))
          else if snd v \<and> \<not> isSafeInteger x then
            Inl (billing_error C_unsupported (lit ''integer precision'') (Some (node_start n)))
          else Inr ()
      | _ \<Rightarrow> Inr ())"

definition as_boolean :: "node \<Rightarrow> runtime_value \<Rightarrow> js_error + bool" where
  "as_boolean n v =
     (case fst v of
        JBool b \<Rightarrow> Inr b
      | _ \<Rightarrow> Inl (billing_error C_type (lit ''boolean condition'') (Some (node_start n))))"

definition as_numeric :: "node \<Rightarrow> runtime_value \<Rightarrow> js_error + number" where
  "as_numeric n v =
     (case fst v of
        JNum x \<Rightarrow> Inr x
      | _ \<Rightarrow> Inl (billing_error C_type (lit ''numeric operand'') (Some (node_start n))))"

definition as_string :: "node \<Rightarrow> runtime_value \<Rightarrow> js_error + jstring" where
  "as_string n v =
     (case fst v of
        JStr s \<Rightarrow> Inr s
      | _ \<Rightarrow> Inl (billing_error C_type (lit ''string argument'') (Some (node_start n))))"

subsection \<open>Evaluation\<close>

definition eval_variable :: "runtime \<Rightarrow> jstring \<Rightarrow> nat \<Rightarrow> js_error + runtime_value" where
  "eval_variable rt name pos =
     (if name = lit ''image_count'' then
        let value = (case cx_imageCount (rt_context rt) of Some v \<Rightarrow> v | None \<Rightarrow> Fin 1)
        in if \<not> isInteger value \<or> num_lt value (Fin 1) \<or> num_lt (Fin 128) value then
             Inl (billing_error C_number (lit ''image_count must be between 1 and 128'') (Some pos))
           else Inr (JNum value, False)
      else
        case (case cx_tokens (rt_context rt) of Some ts \<Rightarrow> map_of ts name | None \<Rightarrow> None) of
          None \<Rightarrow> Inl (billing_error C_missing_context name (Some pos))
        | Some JUndefined \<Rightarrow> Inl (billing_error C_missing_context name (Some pos))
        | Some (JNum v) \<Rightarrow>
            if num_lt v (Fin 0) then Inl (billing_error C_number name (Some pos)) else Inr (JNum v, False)
        | Some _ \<Rightarrow> Inl (billing_error C_number name (Some pos)))"

text \<open>Marking the rule of a conditional node, when it has one, as matched.\<close>

fun mark_rule :: "node \<Rightarrow> compiled_rule list \<Rightarrow> billing_rule list \<Rightarrow> billing_rule list" where
  "mark_rule n (c # cs) (r # rs) =
     (if cr_node c = n then r\<lparr>br_matched := True\<rparr> # rs else r # mark_rule n cs rs)"
| "mark_rule n _ rs = rs"

definition compare_values :: "jstring \<Rightarrow> json \<Rightarrow> json \<Rightarrow> bool option" where
  "compare_values operator a b =
     (case (a, b) of
        (JNum x, JNum y) \<Rightarrow>
          if operator = lit ''<'' then Some (num_lt x y)
          else if operator = lit ''<='' then Some (num_le x y)
          else if operator = lit ''>'' then Some (num_lt y x)
          else if operator = lit ''>='' then Some (num_le y x)
          else None
      | (JStr x, JStr y) \<Rightarrow>
          if operator = lit ''<'' then Some (string_lt x y)
          else if operator = lit ''<='' then Some (\<not> string_lt y x)
          else if operator = lit ''>'' then Some (string_lt y x)
          else if operator = lit ''>='' then Some (\<not> string_lt x y)
          else None
      | _ \<Rightarrow> None)"

definition arithmetic :: "jstring \<Rightarrow> number \<Rightarrow> number \<Rightarrow> bool \<Rightarrow> nat \<Rightarrow> js_error + runtime_value" where
  "arithmetic operator a b integer pos =
     (if operator = lit ''+'' then Inr (JNum (num_add a b), integer)
      else if operator = lit ''-'' then Inr (JNum (num_sub a b), integer)
      else if operator = lit ''*'' then Inr (JNum (num_mul a b), integer)
      else if operator = lit ''/'' then Inr (JNum (num_div a b), False)
      else if operator = lit ''%'' then
        if \<not> integer then Inl (billing_error C_type (lit ''integer modulo'') (Some pos))
        else Inr (JNum (num_rem a b), True)
      else Inl (billing_error C_unsupported operator (Some pos)))"

text \<open>The part of \<open>binary\<close> after both operands are evaluated.\<close>

definition binary_op :: "jstring \<Rightarrow> runtime_value \<Rightarrow> runtime_value \<Rightarrow> nat \<Rightarrow> js_error + runtime_value" where
  "binary_op operator left right pos =
     (let a = fst left; b = fst right
      in if operator = lit ''=='' \<or> operator = lit ''!='' then
           if a \<noteq> JNull \<and> b \<noteq> JNull \<and> (is_object a \<or> is_object b) then
             Inl (billing_error C_unsupported (lit ''object comparison'') (Some pos))
           else Inr (JBool (if operator = lit ''=='' then strict_eq a b else \<not> strict_eq a b), False)
         else case (a, b) of
           (JStr x, JStr y) \<Rightarrow>
             if operator = lit ''+'' then Inr (JStr (x @ y), False)
             else (case compare_values operator a b of
                     Some r \<Rightarrow> Inr (JBool r, False)
                   | None \<Rightarrow> Inl (billing_error C_type operator (Some pos)))
         | (JNum x, JNum y) \<Rightarrow>
             (case compare_values operator a b of
                Some r \<Rightarrow> Inr (JBool r, False)
              | None \<Rightarrow> arithmetic operator x y (snd left \<and> snd right) pos)
         | _ \<Rightarrow> Inl (billing_error C_type operator (Some pos)))"

text \<open>The calls with one argument, after it is evaluated, in the order of the \<open>switch\<close>.\<close>

definition call_time ::
  "runtime \<Rightarrow> jstring \<Rightarrow> jstring \<Rightarrow> runtime_state \<Rightarrow> js_error + runtime_value \<times> runtime_state" where
  "call_time rt name rawZone st =
     (let zone = trim rawZone
      in ebind (case map_of (rs_timeValues st) zone of
                  Some values \<Rightarrow> Inr (values, st)
                | None \<Rightarrow>
                    ebind (timeInBillingZone (rt_host rt) (rt_now rt) zone) (\<lambda>values.
                      Inr (values, st\<lparr>rs_timeValues := assoc_set zone values (rs_timeValues st)\<rparr>)))
           (\<lambda>(values, st1). Inr ((JNum (time_field name values), True), st1)))"

definition call_one ::
  "runtime \<Rightarrow> jstring \<Rightarrow> nat \<Rightarrow> node \<Rightarrow> runtime_value \<Rightarrow> runtime_state \<Rightarrow>
     js_error + runtime_value \<times> runtime_state" where
  "call_one rt name pos arg v st =
     (if name = lit ''fixed'' then
        ebind (as_numeric arg v) (\<lambda>amount.
          Inr ((JNum (num_mul amount (Fin 1000000)), False),
               st\<lparr>rs_billingUnit := U_request, rs_fixedPrice := Some amount\<rparr>))
      else if name = lit ''param'' then
        ebind (as_string arg v) (\<lambda>path.
          case cx_request (rt_context rt) of
            None \<Rightarrow> Inl (billing_error C_missing_context (lit ''request body'') (Some pos))
          | Some r \<Rightarrow> ebind (readRequestPath (rq_body r) path) (\<lambda>value. Inr ((value, False), st)))
      else if name = lit ''header'' then
        ebind (as_string arg v) (\<lambda>s.
          let key = h_lower (rt_host rt) (trim s)
          in case cx_request (rt_context rt) of
               None \<Rightarrow> Inl (billing_error C_missing_context (lit ''request headers'') (Some pos))
             | Some _ \<Rightarrow>
                 Inr ((JStr (case map_of (rt_headers rt) key of Some x \<Rightarrow> x | None \<Rightarrow> []), False), st))
      else if name = lit ''u'' then
        ebind (as_string arg v) (\<lambda>key.
          case cx_usage (rt_context rt) of
            None \<Rightarrow> Inl (billing_error C_missing_context (lit ''task usage'') (Some pos))
          | Some us \<Rightarrow> Inr ((case map_of us key of Some x \<Rightarrow> x | None \<Rightarrow> JNull, False), st))
      else if name = lit ''abs'' then
        ebind (as_numeric arg v) (\<lambda>x. Inr ((JNum (math_abs x), False), st))
      else if name = lit ''floor'' then
        ebind (as_numeric arg v) (\<lambda>x. Inr ((JNum (math_floor x), False), st))
      else if name = lit ''ceil'' then
        ebind (as_numeric arg v) (\<lambda>x. Inr ((JNum (math_ceil x), False), st))
      else ebind (as_string arg v) (\<lambda>zone. call_time rt name zone st))"

text \<open>The calls with two arguments: the check on the first one, and the call.\<close>

definition check_first :: "jstring \<Rightarrow> node \<Rightarrow> runtime_value \<Rightarrow> js_error + unit" where
  "check_first name arg v =
     (if name = lit ''tier'' then ebind (as_string arg v) (\<lambda>_. Inr ())
      else if name = lit ''has'' then Inr ()
      else ebind (as_numeric arg v) (\<lambda>_. Inr ()))"

definition call_two ::
  "jstring \<Rightarrow> node \<Rightarrow> runtime_value \<Rightarrow> node \<Rightarrow> runtime_value \<Rightarrow> runtime_state \<Rightarrow>
     js_error + runtime_value \<times> runtime_state" where
  "call_two name arg1 v1 arg2 v2 st =
     (if name = lit ''tier'' then
        ebind (as_string arg1 v1) (\<lambda>tier.
        ebind (as_numeric arg2 v2) (\<lambda>x. Inr ((JNum x, False), st\<lparr>rs_matchedTier := tier\<rparr>)))
      else if name = lit ''has'' then
        ebind (as_string arg2 v2) (\<lambda>substring.
          if \<not> is_nullish (fst v1) \<and> substring \<noteq> [] then
            ebind (billingString (fst v1) 0) (\<lambda>t. Inr ((JBool (str_includes t substring), False), st))
          else Inr ((JBool False, False), st))
      else
        ebind (as_numeric arg1 v1) (\<lambda>x.
        ebind (as_numeric arg2 v2) (\<lambda>y.
          Inr ((JNum (if name = lit ''min'' then math_min x y else math_max x y), False), st))))"

definition ONE_ARGUMENT :: "jstring list" where
  "ONE_ARGUMENT =
     map lit [''fixed'', ''param'', ''header'', ''u'', ''abs'', ''floor'', ''ceil''] @ TIME_FUNCTIONS"

definition TWO_ARGUMENTS :: "jstring list" where
  "TWO_ARGUMENTS = map lit [''tier'', ''has'', ''min'', ''max'']"

definition missing_argument :: js_error where
  "missing_argument = OtherError (lit ''Cannot read properties of undefined'')"

function (sequential)
  evaluate :: "runtime \<Rightarrow> node \<Rightarrow> runtime_state \<Rightarrow> js_error + runtime_value \<times> runtime_state"
  and evaluateNode :: "runtime \<Rightarrow> node \<Rightarrow> runtime_state \<Rightarrow> js_error + runtime_value \<times> runtime_state"
where
  "evaluate rt n st =
     (if 256 < rs_depth st + 1 then Inl (billing_error C_limit (lit ''evaluation depth'') None)
      else
        ebind (evaluateNode rt n (st\<lparr>rs_depth := rs_depth st + 1\<rparr>)) (\<lambda>(v, st1).
        ebind (check_value n v) (\<lambda>_.
          Inr (v, st1\<lparr>rs_depth := rs_depth st1 - 1\<rparr>))))"
| "evaluateNode rt (Literal v i a b) st = Inr ((literal_json v, i), st)"
| "evaluateNode rt (Variable x a b) st = ebind (eval_variable rt x a) (\<lambda>v. Inr (v, st))"
| "evaluateNode rt (Conditional c y e a b) st =
     ebind (evaluate rt c st) (\<lambda>(v, st1).
     ebind (as_boolean c v) (\<lambda>condition.
       if condition then
         evaluate rt y (st1\<lparr>rs_requestRules := mark_rule (Conditional c y e a b)
           (ce_requestRules (rt_compiled rt)) (rs_requestRules st1)\<rparr>)
       else evaluate rt e st1))"
| "evaluateNode rt (Unary operator e a b) st =
     ebind (evaluate rt e st) (\<lambda>(v, st1).
       if operator = lit ''!'' then ebind (as_boolean e v) (\<lambda>x. Inr ((JBool (\<not> x), False), st1))
       else ebind (as_numeric e v) (\<lambda>x.
         Inr ((JNum (if operator = lit ''-'' then num_neg x else x), snd v), st1)))"
| "evaluateNode rt (Binary operator l r a b) st =
     ebind (evaluate rt l st) (\<lambda>(v, st1).
       if operator = lit ''&&'' then
         ebind (as_boolean l v) (\<lambda>x.
           if \<not> x then Inr ((JBool False, False), st1)
           else ebind (evaluate rt r st1) (\<lambda>(w, st2).
             ebind (as_boolean r w) (\<lambda>y. Inr ((JBool y, False), st2))))
       else if operator = lit ''||'' then
         ebind (as_boolean l v) (\<lambda>x.
           if x then Inr ((JBool True, False), st1)
           else ebind (evaluate rt r st1) (\<lambda>(w, st2).
             ebind (as_boolean r w) (\<lambda>y. Inr ((JBool y, False), st2))))
       else
         ebind (evaluate rt r st1) (\<lambda>(w, st2).
         ebind (binary_op operator v w a) (\<lambda>x. Inr (x, st2))))"
| "evaluateNode rt (Call name args a b) st =
     (if name \<in> set TWO_ARGUMENTS then
        case args of
          x # y # _ \<Rightarrow>
            ebind (evaluate rt x st) (\<lambda>(v, st1).
            ebind (check_first name x v) (\<lambda>_.
            ebind (evaluate rt y st1) (\<lambda>(w, st2). call_two name x v y w st2)))
        | _ \<Rightarrow> Inl missing_argument
      else if name \<in> set ONE_ARGUMENT then
        case args of
          x # _ \<Rightarrow> ebind (evaluate rt x st) (\<lambda>(v, st1). call_one rt name a x v st1)
        | [] \<Rightarrow> Inl missing_argument
      else Inl (billing_error C_unsupported name None))"
  by pat_completeness auto
termination evaluate
  by (relation "measures [\<lambda>x. case x of Inl (_, n, _) \<Rightarrow> size n | Inr (_, n, _) \<Rightarrow> size n,
      \<lambda>x. case x of Inl _ \<Rightarrow> 1 | Inr _ \<Rightarrow> 0]") auto

declare evaluate.simps [simp del]

subsection \<open>Entry points\<close>

definition evaluateBillingCondition ::
  "host \<Rightarrow> compiled_expression \<Rightarrow> node \<Rightarrow> int option \<Rightarrow> bool option" where
  "evaluateBillingCondition host compiled n now =
     (case ebind (new_runtime host compiled (empty_context\<lparr>cx_now := Some now\<rparr>)) (\<lambda>(rt, st). evaluate rt n st) of
        Inr ((JBool b, _), _) \<Rightarrow> Some b
      | _ \<Rightarrow> None)"

record evaluation =
  ev_cost :: number
  ev_billingUnit :: billing_unit
  ev_imageCount :: "number option"
  ev_fixedPrice :: "number option"
  ev_matchedTier :: jstring
  ev_requestRules :: "billing_rule list"

datatype evaluation_result = Success evaluation | Failure expression_failure

definition token_entry_ok :: "jstring \<times> json \<Rightarrow> js_error + unit" where
  "token_entry_ok e =
     (case snd e of
        JNum v \<Rightarrow>
          if \<not> isFinite v \<or> num_lt v (Fin 0) then Inl (billing_error C_number (fst e) None) else Inr ()
      | _ \<Rightarrow> Inl (billing_error C_number (fst e) None))"

definition run_expression :: "host \<Rightarrow> compiled_expression \<Rightarrow> simulation_context \<Rightarrow> js_error + evaluation" where
  "run_expression host compiled context =
     ebind (emap token_entry_ok (case cx_tokens context of Some ts \<Rightarrow> ts | None \<Rightarrow> [])) (\<lambda>_.
     ebind (new_runtime host compiled context) (\<lambda>(rt, st).
     ebind (evaluate rt (ce_ast compiled) st) (\<lambda>(v, st1).
       case fst v of
         JNum result \<Rightarrow>
           if \<not> isFinite result \<or> num_lt result (Fin 0) then
             Inl (billing_error C_number (lit ''billing result'') None)
           else
             Inr \<lparr>ev_cost = result, ev_billingUnit = rs_billingUnit st1,
                  ev_imageCount =
                    (if lit ''image_count'' \<in> set (ce_variables compiled)
                     then Some (case cx_imageCount context of Some c \<Rightarrow> c | None \<Rightarrow> Fin 1) else None),
                  ev_fixedPrice = rs_fixedPrice st1, ev_matchedTier = rs_matchedTier st1,
                  ev_requestRules = rs_requestRules st1\<rparr>
       | _ \<Rightarrow> Inl (billing_error C_number (lit ''billing result'') None))))"

definition evaluate_compiled :: "host \<Rightarrow> compilation_result \<Rightarrow> simulation_context \<Rightarrow> evaluation_result" where
  "evaluate_compiled host compiled context =
     (case compiled of
        Failed f \<Rightarrow> Failure f
      | Ready c \<Rightarrow>
          (case run_expression host c context of
             Inr e \<Rightarrow> Success e
           | Inl err \<Rightarrow> Failure (expressionFailure err)))"

definition evaluateBillingExpression :: "host \<Rightarrow> jstring \<Rightarrow> simulation_context \<Rightarrow> evaluation_result" where
  "evaluateBillingExpression host source context = evaluate_compiled host (compile_result source) context"

end
