(* ===== verification/Runtime_Facts.thy ===== *)
theory Runtime_Facts
  imports Billing_Runtime
begin

text \<open>
  Facts about the interpreter of \<open>Billing_Runtime\<close>: what an evaluation keeps of
  the state, what its result depends on, the types of its results, the exactness
  of integer arithmetic, the wall clock the time fields show, and the values a
  request path reads.
\<close>

subsection \<open>What an evaluation does to the state\<close>

text \<open>
  The interface between the evaluation rules and an invariant of the state: a
  reflexive and transitive relation that every single update of the state
  respects holds between the states before and after any evaluation. The update
  of a call counts only where the expression may make that call.
\<close>

lemma evaluate_Inr_iff:
  "evaluate rt n st = Inr (v, st') \<longleftrightarrow>
     rs_depth st < 256 \<and>
     (\<exists>st1. evaluateNode rt n (st\<lparr>rs_depth := Suc (rs_depth st)\<rparr>) = Inr (v, st1) \<and>
       check_value n v = Inr () \<and> st' = st1\<lparr>rs_depth := rs_depth st1 - 1\<rparr>)"
  by (cases v) (auto simp: evaluate.simps [of rt n st] err_simps)

lemma subnodes_child: "c \<in> set (node_children n) \<Longrightarrow> set (subnodes c) \<subseteq> set (subnodes n)"
  by (auto simp: subnodes.simps [of n])

lemma self_subnode [simp]: "n \<in> set (subnodes n)"
  by (simp add: subnodes.simps [of n])

lemma called_functions_child: "c \<in> set (node_children n) \<Longrightarrow> called_functions c \<subseteq> called_functions n"
  using subnodes_child [of c n] by (auto simp: called_functions_def)

locale runtime_steps_on =
  fixes R :: "runtime \<Rightarrow> runtime_state \<Rightarrow> runtime_state \<Rightarrow> bool" and calls :: "jstring set"
  assumes R_refl: "R rt st st"
    and R_trans: "R rt st st1 \<Longrightarrow> R rt st1 st2 \<Longrightarrow> R rt st st2"
    and R_depth: "R rt (st\<lparr>rs_depth := Suc (rs_depth st)\<rparr>) st1 \<Longrightarrow> R rt st (st1\<lparr>rs_depth := rs_depth st1 - 1\<rparr>)"
    and R_mark: "R rt st (st\<lparr>rs_requestRules :=
      mark_rule n (ce_requestRules (rt_compiled rt)) (rs_requestRules st)\<rparr>)"
    and R_fixed: "lit ''fixed'' \<in> calls \<Longrightarrow> R rt st (st\<lparr>rs_billingUnit := U_request, rs_fixedPrice := Some x\<rparr>)"
    and R_tier: "lit ''tier'' \<in> calls \<Longrightarrow> R rt st (st\<lparr>rs_matchedTier := t\<rparr>)"
    and R_time: "map_of (rs_timeValues st) zone = None \<Longrightarrow>
      timeInBillingZone (rt_host rt) (rt_now rt) zone = Inr values \<Longrightarrow>
      R rt st (st\<lparr>rs_timeValues := assoc_set zone values (rs_timeValues st)\<rparr>)"
begin

lemma call_time_R: "call_time rt name zone st = Inr (w, st') \<Longrightarrow> R rt st st'"
  using R_refl R_time by (cases "map_of (rs_timeValues st) (trim zone)") (auto simp: call_time_def Let_def err_simps)

lemma call_one_R: "name \<in> calls \<Longrightarrow> call_one rt name pos x v st = Inr (w, st') \<Longrightarrow> R rt st st'"
  by (cases "cx_usage (rt_context rt)"; cases "cx_request (rt_context rt)")
    (auto simp: call_one_def err_simps Let_def split: if_splits intro: R_refl R_fixed call_time_R)

lemma call_two_R: "name \<in> calls \<Longrightarrow> call_two name x v y w st = Inr (u, st') \<Longrightarrow> R rt st st'"
  using R_refl R_tier
  by (auto simp: call_two_def err_simps split: if_splits)

lemma evaluateNode_R:
  assumes "\<And>c st v st'. c \<in> set (node_children n) \<Longrightarrow> evaluate rt c st = Inr (v, st') \<Longrightarrow> R rt st st'"
    and "evaluateNode rt n st = Inr (v, st')" and "called_functions n \<subseteq> calls"
  shows "R rt st st'"
proof (cases n)
  case (Conditional c y e a b)
  obtain w st1 cond where c: "evaluate rt c st = Inr (w, st1)" "as_boolean c w = Inr cond"
    using assms(2) Conditional by (auto simp: err_simps)
  have "R rt st st1" using assms(1) [OF _ c(1)] Conditional by simp
  moreover have "R rt st1 st'"
  proof (cases cond)
    case True
    then have "evaluate rt y (st1\<lparr>rs_requestRules := mark_rule n
        (ce_requestRules (rt_compiled rt)) (rs_requestRules st1)\<rparr>) = Inr (v, st')"
      using assms(2) c Conditional by simp
    then have "R rt (st1\<lparr>rs_requestRules := mark_rule n
        (ce_requestRules (rt_compiled rt)) (rs_requestRules st1)\<rparr>) st'"
      by (rule assms(1) [rotated]) (simp add: Conditional)
    then show ?thesis by (rule R_trans [OF R_mark])
  next
    case False
    then have "evaluate rt e st1 = Inr (v, st')" using assms(2) c Conditional by simp
    then show ?thesis by (rule assms(1) [rotated]) (simp add: Conditional)
  qed
  ultimately show ?thesis by (rule R_trans)
next
  case (Binary op l r a b)
  obtain w st1 where l: "evaluate rt l st = Inr (w, st1)" "st' = st1 \<or> (\<exists>u. evaluate rt r st1 = Inr (u, st'))"
    using assms(2) Binary by (auto simp: err_simps split: if_splits)
  have "R rt st st1" using assms(1) [OF _ l(1)] Binary by simp
  moreover have "R rt st1 st'" if "evaluate rt r st1 = Inr (u, st')" for u
    using assms(1) [OF _ that] Binary by simp
  ultimately show ?thesis using l(2) R_trans by blast
next
  case (Call name args a b)
  have "name \<in> called_functions n" using self_subnode [of n] unfolding Call called_functions_def by blast
  then have name: "name \<in> calls" using assms(3) by blast
  show ?thesis
  proof (cases "name \<in> set TWO_ARGUMENTS")
    case True
    then obtain x y ys u st1 w st2 where "args = x # y # ys" "evaluate rt x st = Inr (u, st1)"
      "evaluate rt y st1 = Inr (w, st2)" "call_two name x u y w st2 = Inr (v, st')"
      using assms(2) Call by (auto simp: err_simps split: list.splits)
    then show ?thesis using assms(1) Call R_trans call_two_R [OF name] by (metis list.set_intros(1,2) node_children.simps(3))
  next
    case False
    then obtain x ys u st1 where "args = x # ys" "evaluate rt x st = Inr (u, st1)"
      "call_one rt name a x u st1 = Inr (v, st')"
      using assms(2) Call by (auto simp: err_simps split: list.splits if_splits)
    then show ?thesis using assms(1) Call R_trans call_one_R [OF name] by (metis list.set_intros(1) node_children.simps(3))
  qed
qed (use assms in \<open>auto simp: err_simps R_refl split: if_splits\<close>)

lemma evaluate_on:
  "evaluate rt n st = Inr (v, st') \<Longrightarrow> called_functions n \<subseteq> calls \<Longrightarrow> R rt st st'"
proof (induction n arbitrary: st v st' rule: node_tree_induct)
  case (node n)
  then obtain st1 where e: "evaluateNode rt n (st\<lparr>rs_depth := Suc (rs_depth st)\<rparr>) = Inr (v, st1)"
    "st' = st1\<lparr>rs_depth := rs_depth st1 - 1\<rparr>" by (auto simp: evaluate_Inr_iff)
  have "R rt st st'" if "c \<in> set (node_children n)" "evaluate rt c st = Inr (v, st')" for c st v st'
    using node.IH [OF that] called_functions_child [OF that(1)] node.prems(2) by blast
  then show ?case unfolding e(2) by (intro R_depth evaluateNode_R [OF _ e(1) node.prems(2)])
qed

end

text \<open>A relation that the updates of every call respect.\<close>

locale runtime_steps = runtime_steps_on R UNIV for R
begin

lemma evaluate_R: "evaluate rt n st = Inr (v, st') \<Longrightarrow> R rt st st'"
  using evaluate_on by simp

end

interpretation depth_step: runtime_steps "\<lambda>rt st st'. rs_depth st' = rs_depth st"
  by unfold_locales simp_all

text \<open>The rules keep their number, conditions and multipliers, and a matched rule stays matched.\<close>

definition rules_extend :: "billing_rule list \<Rightarrow> billing_rule list \<Rightarrow> bool" where
  "rules_extend rs rs' \<longleftrightarrow>
     list_all2 (\<lambda>r r'. br_cond r' = br_cond r \<and> br_multiplier r' = br_multiplier r \<and>
       (br_matched r \<longrightarrow> br_matched r')) rs rs'"

lemma rules_extend_refl: "rules_extend rs rs"
  by (simp add: rules_extend_def list_all2_refl)

lemma rules_extend_trans: "rules_extend rs rs1 \<Longrightarrow> rules_extend rs1 rs2 \<Longrightarrow> rules_extend rs rs2"
  by (fastforce simp: rules_extend_def list_all2_conv_all_nth)

lemma rules_extend_mark: "rules_extend rs (mark_rule n cs rs)"
  by (induction n cs rs rule: mark_rule.induct) (auto simp: rules_extend_def list_all2_refl)

interpretation rules_step: runtime_steps "\<lambda>rt st st'. rules_extend (rs_requestRules st) (rs_requestRules st')"
  by unfold_locales (auto intro: rules_extend_refl rules_extend_trans rules_extend_mark)

text \<open>A run is billed by request exactly when a fixed price was seen.\<close>

definition unit_ok :: "runtime_state \<Rightarrow> bool" where
  "unit_ok st \<longleftrightarrow> (rs_billingUnit st = U_request \<longleftrightarrow> rs_fixedPrice st \<noteq> None)"

interpretation unit_step: runtime_steps "\<lambda>rt st st'. unit_ok st \<longrightarrow> unit_ok st'"
  by unfold_locales (auto simp: unit_ok_def)

text \<open>The cache of time values is an instance of the cache interface without eviction.\<close>

interpretation time_memo: memo_cache map_of assoc_set "[]" "\<lambda>_. True"
  by unfold_locales (auto split: if_splits)

abbreviation times_sound :: "runtime \<Rightarrow> runtime_state \<Rightarrow> bool" where
  "times_sound rt st \<equiv>
     time_memo.sound (\<lambda>zone values. timeInBillingZone (rt_host rt) (rt_now rt) zone = Inr values) (rs_timeValues st)"

interpretation time_step: runtime_steps "\<lambda>rt st st'. times_sound rt st \<longrightarrow> times_sound rt st'"
  by unfold_locales (auto intro: time_memo.sound_put)


subsection \<open>What an evaluation depends on\<close>

text \<open>Two states that differ only in their caches of time values, each sound for its runtime.\<close>

definition same_state :: "runtime \<Rightarrow> runtime \<Rightarrow> runtime_state \<Rightarrow> runtime_state \<Rightarrow> bool" where
  "same_state rt rt' st st' \<longleftrightarrow>
     st\<lparr>rs_timeValues := []\<rparr> = st'\<lparr>rs_timeValues := []\<rparr> \<and> times_sound rt st \<and> times_sound rt' st'"

definition same_result ::
  "runtime \<Rightarrow> runtime \<Rightarrow> js_error + 'a \<times> runtime_state \<Rightarrow> js_error + 'a \<times> runtime_state \<Rightarrow> bool" where
  "same_result rt rt' r r' \<longleftrightarrow>
     (case r of
        Inl e \<Rightarrow> r' = Inl e
      | Inr (v, st) \<Rightarrow> (\<exists>st'. r' = Inr (v, st') \<and> same_state rt rt' st st'))"

lemma same_result_Inl [simp]: "same_result rt rt' (Inl e) r \<longleftrightarrow> r = Inl e"
  by (simp add: same_result_def)

lemma same_result_Inr [simp]:
  "same_result rt rt' (Inr (v, st)) (Inr (v', st')) \<longleftrightarrow> v' = v \<and> same_state rt rt' st st'"
  by (auto simp: same_result_def)

lemma same_result_bind:
  assumes "same_result rt rt' r r'"
    and "\<And>v st st'. same_state rt rt' st st' \<Longrightarrow> same_result rt rt' (f (v, st)) (g (v, st'))"
  shows "same_result rt rt' (ebind r f) (ebind r' g)"
proof (cases r)
  case (Inr p)
  then obtain v st st' where "r = Inr (v, st)" "r' = Inr (v, st')" "same_state rt rt' st st'"
    using assms(1) by (cases p) (auto simp: same_result_def)
  then show ?thesis using assms(2) by simp
qed (use assms(1) in simp)

lemma same_result_pure:
  "(\<And>x. p = Inr x \<Longrightarrow> same_result rt rt' (f x) (g x)) \<Longrightarrow> same_result rt rt' (ebind p f) (ebind p g)"
  by (cases p) auto

text \<open>The parts of the two runtimes that the variables and functions of \<open>n\<close> can read agree.\<close>

definition agree :: "runtime \<Rightarrow> runtime \<Rightarrow> node \<Rightarrow> bool" where
  "agree rt rt' n \<longleftrightarrow>
     rt_host rt = rt_host rt' \<and>
     ce_requestRules (rt_compiled rt) = ce_requestRules (rt_compiled rt') \<and>
     (\<forall>x pos. x \<in> used_variables n \<longrightarrow> eval_variable rt x pos = eval_variable rt' x pos) \<and>
     ({lit ''param'', lit ''header''} \<inter> called_functions n \<noteq> {} \<longrightarrow>
        cx_request (rt_context rt) = cx_request (rt_context rt') \<and> rt_headers rt = rt_headers rt') \<and>
     (lit ''u'' \<in> called_functions n \<longrightarrow> cx_usage (rt_context rt) = cx_usage (rt_context rt')) \<and>
     (set TIME_FUNCTIONS \<inter> called_functions n \<noteq> {} \<longrightarrow> rt_now rt = rt_now rt')"

lemma agree_child:
  assumes "agree rt rt' n" "c \<in> set (node_children n)"
  shows "agree rt rt' c"
proof -
  have v: "used_variables c \<subseteq> used_variables n" "called_functions c \<subseteq> called_functions n"
    using subnodes_child [OF assms(2)] by (auto simp: used_variables_def called_functions_def)
  have "F \<inter> called_functions c \<noteq> {} \<Longrightarrow> F \<inter> called_functions n \<noteq> {}" for F using v(2) by blast
  then show ?thesis using assms(1) subsetD [OF v(1)] subsetD [OF v(2)] unfolding agree_def by presburger
qed

lemma same_state_upd:
  assumes "same_state rt rt' st st'"
  shows "rs_depth st = rs_depth st'" "rs_requestRules st = rs_requestRules st'"
    "same_state rt rt' (st\<lparr>rs_depth := d\<rparr>) (st'\<lparr>rs_depth := d\<rparr>)"
    "same_state rt rt' (st\<lparr>rs_requestRules := rs\<rparr>) (st'\<lparr>rs_requestRules := rs\<rparr>)"
    "same_state rt rt' (st\<lparr>rs_matchedTier := t\<rparr>) (st'\<lparr>rs_matchedTier := t\<rparr>)"
    "same_state rt rt' (st\<lparr>rs_billingUnit := u, rs_fixedPrice := p\<rparr>) (st'\<lparr>rs_billingUnit := u, rs_fixedPrice := p\<rparr>)"
  using assms by (cases st; cases st'; simp add: same_state_def)+

lemma same_state_fields:
  assumes "same_state rt rt' st st'"
  shows "rs_billingUnit st = rs_billingUnit st'" "rs_fixedPrice st = rs_fixedPrice st'"
    "rs_matchedTier st = rs_matchedTier st'" "rs_requestRules st = rs_requestRules st'"
  using assms by (cases st; cases st'; simp add: same_state_def)+

lemma call_time_value:
  assumes "times_sound rt st"
  shows "call_time rt name zone st =
    ebind (timeInBillingZone (rt_host rt) (rt_now rt) (trim zone)) (\<lambda>values.
      Inr ((JNum (time_field name values), True),
        if map_of (rs_timeValues st) (trim zone) = None
        then st\<lparr>rs_timeValues := assoc_set (trim zone) values (rs_timeValues st)\<rparr> else st))"
  using time_memo.sound_get [OF assms, of "trim zone"]
  by (cases "map_of (rs_timeValues st) (trim zone)"; cases "timeInBillingZone (rt_host rt) (rt_now rt) (trim zone)")
    (auto simp: call_time_def Let_def)

lemma call_time_same:
  assumes "same_state rt rt' st st'" "rt_host rt = rt_host rt'" "rt_now rt = rt_now rt'"
  shows "same_result rt rt' (call_time rt name zone st) (call_time rt' name zone st')"
proof -
  have s: "times_sound rt st" "times_sound rt' st'" using assms(1) by (simp_all add: same_state_def)
  have u: "times_sound rt (st\<lparr>rs_timeValues := assoc_set (trim zone) v (rs_timeValues st)\<rparr>)"
    if "timeInBillingZone (rt_host rt) (rt_now rt) (trim zone) = Inr v" "map_of (rs_timeValues st) (trim zone) = None"
      "times_sound rt st" for rt st v
    using time_memo.sound_put [OF that(3,2)] that(1) by simp
  show ?thesis
    using assms s u [of rt _ st] u [of rt' _ st']
    unfolding call_time_value [OF s(1)] call_time_value [OF s(2)] assms(2,3)
    by (intro same_result_pure) (auto simp: same_state_def assms(2,3))
qed

lemma call_two_same:
  "same_state rt rt' st st' \<Longrightarrow>
     same_result rt rt' (call_two name x v y w st) (call_two name x v y w st')"
  by (auto simp: call_two_def same_state_upd intro!: same_result_pure)

lemma call_one_same:
  assumes "same_state rt rt' st st'" "agree rt rt' (Call name args a b)" "name \<in> set ONE_ARGUMENT"
  shows "same_result rt rt' (call_one rt name pos x v st) (call_one rt' name pos x v st')"
proof -
  have c: "name \<in> called_functions (Call name args a b)"
    unfolding called_functions_def using self_subnode by blast
  have h: "rt_host rt = rt_host rt'" using assms(2) by (simp add: agree_def)
  show ?thesis
  proof (cases "name \<in> set TIME_FUNCTIONS")
    case True
    then have n: "rt_now rt = rt_now rt'" using assms(2) c by (auto simp: agree_def)
    have "call_one r name pos x v s = ebind (as_string x v) (\<lambda>zone. call_time r name zone s)" for r s
      using True by (auto simp: call_one_def TIME_FUNCTIONS_def)
    then show ?thesis using call_time_same [OF assms(1) h n] by (auto intro: same_result_pure)
  next
    case False
    then consider "name = lit ''param'' \<or> name = lit ''header''" | "name = lit ''u''"
      | "name = lit ''fixed'' \<or> name = lit ''abs'' \<or> name = lit ''floor'' \<or> name = lit ''ceil''"
      using assms(3) by (auto simp: ONE_ARGUMENT_def)
    then show ?thesis
    proof cases
      case 1
      then have "cx_request (rt_context rt) = cx_request (rt_context rt')" "rt_headers rt = rt_headers rt'"
        using assms(2) c by (auto simp: agree_def)
      then show ?thesis using 1 assms(1) h
        by (auto simp: call_one_def Let_def intro!: same_result_pure split: option.splits)
    next
      case 2
      then have "cx_usage (rt_context rt) = cx_usage (rt_context rt')"
        using assms(2) c by (auto simp: agree_def)
      then show ?thesis using 2 assms(1)
        by (auto simp: call_one_def intro!: same_result_pure split: option.splits)
    next
      case 3
      then show ?thesis using assms(1)
        by (auto simp: call_one_def same_state_upd intro!: same_result_pure)
    qed
  qed
qed


lemma evaluateNode_same:
  assumes "\<And>c st st'. c \<in> set (node_children n) \<Longrightarrow> same_state rt rt' st st' \<Longrightarrow>
      same_result rt rt' (evaluate rt c st) (evaluate rt' c st')"
    and "agree rt rt' n" "same_state rt rt' st st'"
  shows "same_result rt rt' (evaluateNode rt n st) (evaluateNode rt' n st')"
proof (cases n)
  case (Variable x a b)
  then have "x \<in> used_variables n" using self_subnode [of n] unfolding used_variables_def by blast
  then show ?thesis using assms(2,3) Variable by (auto simp: agree_def intro!: same_result_pure)
next
  case (Conditional c y e a b)
  have "ce_requestRules (rt_compiled rt) = ce_requestRules (rt_compiled rt')" using assms(2) by (simp add: agree_def)
  then show ?thesis using Conditional assms(1,3)
    by (auto intro!: same_result_bind same_result_pure simp: same_state_upd)
next
  case (Unary operator e a b)
  then show ?thesis using assms(1,3) by (auto intro!: same_result_bind same_result_pure)
next
  case (Binary operator l r a b)
  then show ?thesis using assms(1,3) by (auto intro!: same_result_bind same_result_pure)
next
  case (Call name args a b)
  show ?thesis
  proof (cases "name \<in> set TWO_ARGUMENTS")
    case True
    then show ?thesis using Call assms(1,3)
      by (auto intro!: same_result_bind same_result_pure call_two_same split: list.splits)
  next
    case False
    show ?thesis
    proof (cases "name \<in> set ONE_ARGUMENT")
      case one: True
      have "same_result rt rt' (call_one rt name a x v s) (call_one rt' name a x v s')"
        if "same_state rt rt' s s'" for x v s s'
        using call_one_same [OF that _ one] assms(2) Call by blast
      then show ?thesis using Call assms(1,3) False one
        by (auto intro!: same_result_bind split: list.splits)
    qed (use Call False in simp)
  qed
qed (use assms in simp)

lemma evaluate_same:
  "agree rt rt' n \<Longrightarrow> same_state rt rt' st st' \<Longrightarrow>
     same_result rt rt' (evaluate rt n st) (evaluate rt' n st')"
proof (induction n arbitrary: st st' rule: node_tree_induct)
  case (node n)
  note d = same_state_upd [OF node.prems(2)]
  show ?case
    unfolding evaluate.simps [of _ n] d(1)
    by (auto intro!: same_result_bind same_result_pure evaluateNode_same node agree_child [OF node.prems(1)]
        simp: same_state_upd d)
qed

text \<open>A context whose token counts and headers pass the checks made before the evaluation.\<close>

fun valid_count :: "json \<Rightarrow> bool" where
  "valid_count (JNum (Fin q)) \<longleftrightarrow> 0 \<le> q"
| "valid_count (JNum NegZero) \<longleftrightarrow> True"
| "valid_count _ \<longleftrightarrow> False"

lemma token_entry_ok_count:
  "token_entry_ok e = (if valid_count (snd e) then Inr () else Inl (billing_error C_number (fst e) None))"
  by (cases "snd e" rule: valid_count.cases) (auto simp: token_entry_ok_def isFinite_def num_lt_def)

definition context_ok :: "simulation_context \<Rightarrow> bool" where
  "context_ok cx \<longleftrightarrow>
     list_all (\<lambda>e. valid_count (snd e)) (case cx_tokens cx of Some ts \<Rightarrow> ts | None \<Rightarrow> []) \<and>
     list_all (\<lambda>(k, v). case v of JStr _ \<Rightarrow> True | _ \<Rightarrow> False)
       (case cx_request cx of Some r \<Rightarrow> (case rq_headers r of Some hs \<Rightarrow> hs | None \<Rightarrow> []) | None \<Rightarrow> [])"

text \<open>What a variable of an expression reads.\<close>

definition context_variable :: "simulation_context \<Rightarrow> jstring \<Rightarrow> json option" where
  "context_variable cx x =
     (if x = lit ''image_count'' then map_option JNum (cx_imageCount cx)
      else case cx_tokens cx of Some ts \<Rightarrow> map_of ts x | None \<Rightarrow> None)"

definition same_inputs :: "compiled_expression \<Rightarrow> simulation_context \<Rightarrow> simulation_context \<Rightarrow> bool" where
  "same_inputs c cx cx' \<longleftrightarrow>
     (\<forall>x. x \<in> set (ce_variables c) \<longrightarrow> context_variable cx x = context_variable cx' x) \<and>
     ({lit ''param'', lit ''header''} \<inter> set (ce_functions c) \<noteq> {} \<longrightarrow> cx_request cx = cx_request cx') \<and>
     (lit ''u'' \<in> set (ce_functions c) \<longrightarrow> cx_usage cx = cx_usage cx') \<and>
     (set TIME_FUNCTIONS \<inter> set (ce_functions c) \<noteq> {} \<longrightarrow> cx_now cx = cx_now cx')"

lemma read_headers_total:
  "list_all (\<lambda>(k, v). case v of JStr _ \<Rightarrow> True | _ \<Rightarrow> False) es \<Longrightarrow> \<exists>hs'. read_headers host es hs = Inr hs'"
  by (induction host es hs rule: read_headers.induct) (auto simp: Let_def split: json.splits)

lemma emap_unit: "list_all (\<lambda>x. f x = Inr ()) xs \<Longrightarrow> \<exists>ys. emap f xs = Inr ys"
  by (induction xs) auto

lemma eval_variable_cong:
  "context_variable (rt_context rt) x = context_variable (rt_context rt') x \<Longrightarrow>
     eval_variable rt x pos = eval_variable rt' x pos"
proof (cases "x = lit ''image_count''")
  case True
  assume "context_variable (rt_context rt) x = context_variable (rt_context rt') x"
  then have "cx_imageCount (rt_context rt) = cx_imageCount (rt_context rt')"
    using True by (cases "cx_imageCount (rt_context rt)"; cases "cx_imageCount (rt_context rt')")
      (simp_all add: context_variable_def)
  then show ?thesis using True by (simp add: eval_variable_def)
qed (simp add: eval_variable_def context_variable_def)

lemma new_runtime_Inr:
  assumes "new_runtime host c cx = Inr (rt, st)"
  shows "rt_host rt = host" "rt_compiled rt = c" "rt_context rt = cx"
    "rt_now rt = (case cx_now cx of Some d \<Rightarrow> d | None \<Rightarrow> h_now host)" "rs_timeValues st = []" "rs_depth st = 0"
    "unit_ok st" "times_sound rt st"
    "rs_requestRules st = map (\<lambda>rule. \<lparr>br_cond = cr_cond rule, br_multiplier = cr_multiplier rule,
      br_matched = False\<rparr>) (ce_requestRules c)"
  using assms time_memo.sound_empty by (auto simp: new_runtime_def Let_def err_simps unit_ok_def)

lemma new_runtime_total:
  "context_ok cx \<Longrightarrow> \<exists>rt st. new_runtime host c cx = Inr (rt, st)"
proof -
  let ?es = "case cx_request cx of Some r \<Rightarrow> (case rq_headers r of Some hs \<Rightarrow> hs | None \<Rightarrow> []) | None \<Rightarrow> []"
  assume "context_ok cx"
  then obtain hs where "read_headers host ?es [] = Inr hs"
    using read_headers_total [of ?es] unfolding context_ok_def by blast
  then show ?thesis by (simp add: new_runtime_def Let_def)
qed

lemma new_runtime_state: "new_runtime host c cx = Inr (rt, st) \<Longrightarrow> new_runtime host c cx' = Inr (rt', st') \<Longrightarrow> st = st'"
  by (auto simp: new_runtime_def Let_def err_simps)

lemma new_runtime_headers:
  "new_runtime host c cx = Inr (rt, st) \<Longrightarrow> new_runtime host c cx' = Inr (rt', st') \<Longrightarrow>
     cx_request cx = cx_request cx' \<Longrightarrow> rt_headers rt = rt_headers rt'"
  by (auto simp: new_runtime_def Let_def err_simps)

lemma run_agree:
  assumes "compile_result source = Ready c" "same_inputs c cx cx'"
    "new_runtime host c cx = Inr (rt, st)" "new_runtime host c cx' = Inr (rt', st')"
  shows "agree rt rt' (ce_ast c)"
proof -
  note f = compile_result_Ready(5,6) [OF assms(1)] and n = new_runtime_Inr [OF assms(3)]
    and n' = new_runtime_Inr [OF assms(4)]
  have "eval_variable rt x pos = eval_variable rt' x pos" if "x \<in> used_variables (ce_ast c)" for x pos
    using that assms(2) f(1) n(3) n'(3) by (intro eval_variable_cong) (simp add: same_inputs_def)
  then show ?thesis
    using assms(2) n(1-4) n'(1-4) new_runtime_headers [OF assms(3,4)]
    unfolding agree_def same_inputs_def f by simp
qed

lemma evaluation_run:
  assumes "evaluate_compiled host (Ready c) cx = Success e"
  obtains rt st v i st1 where "new_runtime host c cx = Inr (rt, st)"
    "evaluate rt (ce_ast c) st = Inr ((JNum v, i), st1)" "isFinite v" "\<not> num_lt v (Fin 0)" "ev_cost e = v"
    "ev_billingUnit e = rs_billingUnit st1" "ev_fixedPrice e = rs_fixedPrice st1"
    "ev_requestRules e = rs_requestRules st1" "ev_matchedTier e = rs_matchedTier st1"
proof -
  have e: "run_expression host c cx = Inr e"
    using assms by (auto simp: evaluate_compiled_def split: sum.splits)
  then obtain rt st w i st1 where r: "new_runtime host c cx = Inr (rt, st)"
    "evaluate rt (ce_ast c) st = Inr ((w, i), st1)"
    by (auto simp: run_expression_def err_simps)
  obtain v where "w = JNum v" "isFinite v" "\<not> num_lt v (Fin 0)" "ev_cost e = v"
    "ev_billingUnit e = rs_billingUnit st1" "ev_fixedPrice e = rs_fixedPrice st1"
    "ev_requestRules e = rs_requestRules st1" "ev_matchedTier e = rs_matchedTier st1"
    using e r by (cases w) (auto simp: run_expression_def err_simps split: if_splits)
  then show ?thesis using that r by blast
qed

lemma run_expression_same:
  assumes c: "compile_result source = Ready c" and s: "same_inputs c cx cx'"
    and ok: "context_ok cx" "context_ok cx'"
  shows "run_expression host c cx = run_expression host c cx'"
proof -
  obtain rt st rt' st' where n: "new_runtime host c cx = Inr (rt, st)" "new_runtime host c cx' = Inr (rt', st')"
    using new_runtime_total ok by metis
  have "same_state rt rt' st st'"
    using new_runtime_state [OF n] new_runtime_Inr(8) [OF n(1)] new_runtime_Inr(8) [OF n(2)]
    by (simp add: same_state_def)
  then have e: "same_result rt rt' (evaluate rt (ce_ast c) st) (evaluate rt' (ce_ast c) st')"
    by (rule evaluate_same [OF run_agree [OF c s n]])
  have i: "lit ''image_count'' \<in> set (ce_variables c) \<Longrightarrow> cx_imageCount cx = cx_imageCount cx'"
    using s by (cases "cx_imageCount cx"; cases "cx_imageCount cx'")
      (auto simp: same_inputs_def context_variable_def)
  obtain us us' where "emap token_entry_ok (case cx_tokens cx of Some ts \<Rightarrow> ts | None \<Rightarrow> []) = Inr us"
    "emap token_entry_ok (case cx_tokens cx' of Some ts \<Rightarrow> ts | None \<Rightarrow> []) = Inr us'"
    using ok emap_unit [of token_entry_ok] unfolding context_ok_def
    by (fastforce simp: token_entry_ok_count list_all_iff)
  then show ?thesis using n e i
    by (cases "evaluate rt (ce_ast c) st")
      (auto simp: run_expression_def same_result_def same_state_fields split: json.splits)
qed

subsection \<open>Types of results\<close>

fun fits :: "expression_type \<Rightarrow> json \<Rightarrow> bool" where
  "fits T_number v = (case v of JNum _ \<Rightarrow> True | _ \<Rightarrow> False)"
| "fits T_string v = (case v of JStr _ \<Rightarrow> True | _ \<Rightarrow> False)"
| "fits T_boolean v = (case v of JBool _ \<Rightarrow> True | _ \<Rightarrow> False)"
| "fits T_nil v \<longleftrightarrow> v = JNull"
| "fits T_dynamic v = True"

text \<open>
  The checker gives \<open>a + b\<close> the type number when both operands are dynamic; when
  both turn out to be strings the result is a string. The types of results are
  those of the checker for the expressions without such a sum.
\<close>

definition dynamic_sum :: "node \<Rightarrow> bool" where
  "dynamic_sum n =
     (case n of
        Binary p l r _ _ \<Rightarrow> p = lit ''+'' \<and> static_type l = Some T_dynamic \<and> static_type r = Some T_dynamic
      | _ \<Rightarrow> False)"

definition no_dynamic_sum :: "node \<Rightarrow> bool" where
  "no_dynamic_sum n \<longleftrightarrow> (\<forall>m \<in> set (subnodes n). \<not> dynamic_sum m)"

lemma no_dynamic_sum_child: "no_dynamic_sum n \<Longrightarrow> c \<in> set (node_children n) \<Longrightarrow> no_dynamic_sum c"
  using subnodes_child [of c n] by (auto simp: no_dynamic_sum_def)

lemma no_dynamic_sum_self: "no_dynamic_sum n \<Longrightarrow> \<not> dynamic_sum n"
  by (simp add: no_dynamic_sum_def)

abbreviation child_type :: "node \<Rightarrow> node \<Rightarrow> expression_type option" where
  "child_type n \<equiv> \<lambda>c. if c \<in> set (node_children n) then static_type c else None"

lemma static_type_SomeD:
  "static_type n = Some t \<Longrightarrow> node_type (child_type n) n = Inr t"
  by (auto simp: static_type.simps [of n] split: if_splits sum.splits)

lemma binary_op_fits:
  assumes "binary_op p (u, i) (w, j) pos = Inr (v, k)"
    and "p \<in> set (map lit [''=='', ''!='', ''<'', ''<='', ''>'', ''>=''])"
  shows "fits T_boolean v"
  using assms by (auto simp: binary_op_def compare_values_def Let_def split: json.splits if_splits)

lemma binary_op_number:
  assumes "binary_op p (u, i) (w, j) pos = Inr (v, k)"
    and "p \<in> fst ` set PRECEDENCE" "p \<notin> set (map lit [''=='', ''!='', ''<'', ''<='', ''>'', ''>=''])"
    and "p = lit ''+'' \<Longrightarrow> fits T_number u \<or> fits T_number w"
  shows "fits T_number v"
  using assms
  by (auto simp: binary_op_def compare_values_def Let_def arithmetic_def split: json.splits if_splits)

lemma call_time_fits: "call_time rt name zone st = Inr ((v, i), st') \<Longrightarrow> fits T_number v"
  by (auto simp: call_time_def Let_def err_simps)

lemma call_one_fits:
  assumes "call_one rt name pos x u st = Inr ((v, i), st')" "name \<in> set ONE_ARGUMENT"
  shows "name = lit ''header'' \<Longrightarrow> fits T_string v"
    and "name \<notin> set (map lit [''param'', ''header'', ''u'']) \<Longrightarrow> fits T_number v"
proof -
  show "name = lit ''header'' \<Longrightarrow> fits T_string v"
    using assms(1) by (auto simp: call_one_def Let_def err_simps split: option.splits)
  show "name \<notin> set (map lit [''param'', ''header'', ''u'']) \<Longrightarrow> fits T_number v"
    using assms(1) by (auto simp: call_one_def err_simps dest: call_time_fits split: if_splits)
qed

lemma call_two_fits:
  assumes "call_two name x u y w st = Inr ((v, i), st')" 
  shows "fits (if name = lit ''has'' then T_boolean else T_number) v"
  using assms by (auto simp: call_two_def err_simps split: if_splits)

lemma call_type_result:
  assumes "call_type types f ns = Inr t" "map_of BILLING_FUNCTIONS f = Some (length ns)"
  shows "t = (if f = lit ''header'' then T_string else if f = lit ''has'' then T_boolean
    else if f \<in> set (map lit [''param'', ''u'']) then T_dynamic else T_number)"
  using assms by (auto simp: call_type_def BILLING_FUNCTIONS_def TIME_FUNCTIONS_def err_simps split: if_splits)

lemma billing_function_arity:
  assumes "map_of BILLING_FUNCTIONS f = Some k"
  shows "f \<in> set TWO_ARGUMENTS \<or> f \<in> set ONE_ARGUMENT"
  using assms by (auto simp: BILLING_FUNCTIONS_def TWO_ARGUMENTS_def ONE_ARGUMENT_def TIME_FUNCTIONS_def split: if_splits)

lemma evaluateNode_call_fits:
  assumes "evaluateNode rt (Call f ns a b) st = Inr ((v, i), st')" "vocabulary_ok (Call f ns a b)"
    "static_type (Call f ns a b) = Some t"
  shows "fits t v"
proof -
  have t: "t = (if f = lit ''header'' then T_string else if f = lit ''has'' then T_boolean
      else if f \<in> set (map lit [''param'', ''u'']) then T_dynamic else T_number)"
    using static_type_SomeD [OF assms(3)] assms(2) by (intro call_type_result) (auto simp: node_type_def)
  show ?thesis
  proof (cases "f \<in> set TWO_ARGUMENTS")
    case True
    then obtain x u y w st2 where "call_two f x u y w st2 = Inr ((v, i), st')"
      using assms(1) by (auto simp: err_simps split: list.splits)
    then have "fits (if f = lit ''has'' then T_boolean else T_number) v" by (rule call_two_fits)
    then show ?thesis using True t by (auto simp: TWO_ARGUMENTS_def)
  next
    case False
    then have o: "f \<in> set ONE_ARGUMENT" using billing_function_arity assms(2) by auto
    then obtain x u st1 where "call_one rt f a x u st1 = Inr ((v, i), st')"
      using assms(1) False by (auto simp: err_simps split: list.splits)
    note c = call_one_fits [OF this o]
    have "f \<noteq> lit ''has''" using False by (simp add: TWO_ARGUMENTS_def)
    then show ?thesis using c t by (auto split: if_splits)
  qed
qed

lemma evaluateNode_binary_fits:
  assumes e: "evaluateNode rt (Binary p l r a b) st = Inr ((v, i), st')"
    and n: "vocabulary_ok (Binary p l r a b)" "static_type (Binary p l r a b) = Some t"
      "\<not> dynamic_sum (Binary p l r a b)"
    and IH: "\<And>c st u j st' t. c = l \<or> c = r \<Longrightarrow> evaluate rt c st = Inr ((u, j), st') \<Longrightarrow>
      static_type c = Some t \<Longrightarrow> fits t u"
  shows "fits t v"
proof -
  have ty: "binary_type (child_type (Binary p l r a b)) p l r = Inr t"
    using static_type_SomeD [OF n(2)] by (simp add: node_type_def)
  show ?thesis
  proof (cases "p = lit ''&&'' \<or> p = lit ''||''")
    case True
    then show ?thesis using e ty by (auto simp: binary_type_def err_simps split: if_splits)
  next
    case False
    then obtain u j st1 w k st2 where ev: "evaluate rt l st = Inr ((u, j), st1)" "evaluate rt r st1 = Inr ((w, k), st2)"
      "binary_op p (u, j) (w, k) a = Inr (v, i)"
      using e by (auto simp: err_simps)
    consider (cmp) "p \<in> set (map lit [''=='', ''!='', ''<'', ''<='', ''>'', ''>=''])"
      | (str) "p = lit ''+''" "static_type l = Some T_string" "static_type r = Some T_string"
      | (num) "p \<notin> set (map lit [''=='', ''!='', ''<'', ''<='', ''>'', ''>=''])" "t = T_number"
        "p = lit ''+'' \<Longrightarrow> static_type l = Some T_number \<or> static_type r = Some T_number"
      using ty False n(3)
      by (auto simp: binary_type_def err_simps requireType_Inr dynamic_sum_def split: if_splits)
    then show ?thesis
    proof cases
      case cmp
      then have "t = T_boolean" using ty False by (auto simp: binary_type_def split: if_splits)
      then show ?thesis using binary_op_fits [OF ev(3) cmp] by simp
    next
      case str
      then have "fits T_string u" "fits T_string w" using IH ev(1,2) by blast+
      then show ?thesis using ev(3) str ty
        by (auto simp: binary_op_def binary_type_def split: json.splits if_splits)
    next
      case num
      then have "p = lit ''+'' \<Longrightarrow> fits T_number u \<or> fits T_number w" using IH ev(1,2) by blast
      then show ?thesis using binary_op_number [OF ev(3) _ num(1)] num(2) n(1) by simp
    qed
  qed
qed

lemma evaluateNode_fits:
  assumes "evaluateNode rt n st = Inr ((v, i), st')" "vocabulary_ok n" "static_type n = Some t" "\<not> dynamic_sum n"
    and IH: "\<And>c st u j st' t. c \<in> set (node_children n) \<Longrightarrow> evaluate rt c st = Inr ((u, j), st') \<Longrightarrow>
      static_type c = Some t \<Longrightarrow> fits t u"
  shows "fits t v"
proof (cases n)
  case (Literal u j a b)
  then show ?thesis using assms(1) static_type_SomeD [OF assms(3)]
    by (auto simp: node_type_def literal_type_def literal_json_def split: literal_value.splits)
next
  case (Variable x a b)
  then show ?thesis using assms(1) static_type_SomeD [OF assms(3)]
    by (auto simp: node_type_def eval_variable_def Let_def err_simps split: if_splits option.splits json.splits)
next
  case (Unary p e a b)
  then show ?thesis using assms(1) static_type_SomeD [OF assms(3)]
    by (auto simp: node_type_def Let_def err_simps split: if_splits)
next
  case (Conditional c y e a b)
  obtain d s where d: "d = y \<or> d = e" "evaluate rt d s = Inr ((v, i), st')"
    using assms(1) Conditional by (auto simp: err_simps split: if_splits)
  have "t = T_dynamic \<or> static_type d = Some t"
    using static_type_SomeD [OF assms(3)] static_type_children [OF assms(3), of d] Conditional d(1)
    by (auto simp: node_type_def err_simps split: if_splits option.splits)
  then show ?thesis using IH [OF _ d(2)] d(1) Conditional by auto
next
  case (Call f ns a b)
  then show ?thesis using evaluateNode_call_fits assms(1-3) by blast
next
  case (Binary p l r a b)
  show ?thesis
    by (rule evaluateNode_binary_fits [OF assms(1-4) [unfolded Binary]]) (rule IH, auto simp: Binary)
qed

lemma evaluate_fits:
  "evaluate rt n st = Inr ((v, i), st') \<Longrightarrow> vocabulary_ok n \<Longrightarrow> no_dynamic_sum n \<Longrightarrow>
     static_type n = Some t \<Longrightarrow> fits t v"
proof (induction n arbitrary: st v i st' t rule: node_tree_induct)
  case (node n)
  obtain st1 where e: "evaluateNode rt n (st\<lparr>rs_depth := Suc (rs_depth st)\<rparr>) = Inr ((v, i), st1)"
    using node.prems(1) by (auto simp: evaluate_Inr_iff)
  show ?case
    by (rule evaluateNode_fits [OF e node.prems(2,4) no_dynamic_sum_self [OF node.prems(3)]])
      (rule node.IH, assumption+, use vocabulary_ok_children [OF node.prems(2)]
        no_dynamic_sum_child [OF node.prems(3)] in auto)
qed

subsection \<open>Exact integer arithmetic\<close>

text \<open>The integer operation an operator stands for, on unbounded integers.\<close>

definition exact_operation :: "jstring \<Rightarrow> int \<Rightarrow> int \<Rightarrow> int" where
  "exact_operation operator x y =
     (if operator = lit ''+'' then x + y
      else if operator = lit ''-'' then x - y
      else if operator = lit ''*'' then x * y
      else x - y * rat_trunc (of_int x / of_int y))"

lemma safe_integerE:
  assumes "isSafeInteger a"
  obtains x where "num_val a = of_int x" "isFinite a"
  using assms that [of "\<lfloor>num_val a\<rfloor>"] unfolding isSafeInteger_def isInteger_def by metis

lemma num_val_num_of_rat_int: "isSafeInteger (num_of_rat (of_int n)) \<Longrightarrow> num_val (num_of_rat (of_int n)) = of_int n"
  using safe_integer_exact(2) [of n] by simp

lemma num_add_exact:
  assumes "isFinite a" "isFinite b" "num_val a = of_int x" "num_val b = of_int y" "isSafeInteger (num_add a b)"
  shows "num_val (num_add a b) = of_int (x + y)"
proof (cases "a = NegZero \<and> b = NegZero")
  case True
  then show ?thesis using assms(3,4) by (simp add: num_add_def)
next
  case False
  then have "num_add a b = num_of_rat (of_int (x + y))"
    using assms(1-4) by (auto simp: num_add_def isFinite_def)
  then show ?thesis using assms(5) num_val_num_of_rat_int by metis
qed

lemma num_neg_val: "isFinite a \<Longrightarrow> isFinite (num_neg a) \<and> num_val (num_neg a) = - num_val a"
  by (cases a) (auto simp: num_neg_def isFinite_def)

lemma num_mul_exact:
  assumes "isFinite a" "isFinite b" "num_val a = of_int x" "num_val b = of_int y" "isSafeInteger (num_mul a b)"
  shows "num_val (num_mul a b) = of_int (x * y)"
proof (cases "x * y = 0")
  case True
  then have "num_val a * num_val b = 0" using assms(3,4) by auto
  then show ?thesis using assms(1,2) True by (auto simp: num_mul_def isFinite_def signed_zero_def Let_def)
next
  case False
  then have "num_val a * num_val b \<noteq> 0" using assms(3,4) by auto
  then have "num_mul a b = num_of_rat (of_int (x * y))"
    using assms(1-4) by (auto simp: num_mul_def isFinite_def Let_def)
  then show ?thesis using assms(5) num_val_num_of_rat_int by metis
qed

lemma num_rem_exact:
  assumes "isFinite a" "isFinite b" "num_val a = of_int x" "num_val b = of_int y" "isSafeInteger (num_rem a b)"
  shows "num_val (num_rem a b) = of_int (x - y * rat_trunc (of_int x / of_int y))"
proof -
  have y: "num_val b \<noteq> 0"
    using assms(2,5) by (auto simp: num_rem_def isSafeInteger_def isInteger_def isFinite_def split: if_splits)
  define r where "r = x - y * rat_trunc (of_int x / of_int y)"
  consider "x = 0" | "x \<noteq> 0" "r = 0" | "x \<noteq> 0" "r \<noteq> 0" by blast
  then show ?thesis
  proof cases
    case 1
    then show ?thesis using assms(1-4) y by (auto simp: num_rem_def isFinite_def rat_trunc_def)
  next
    case 2
    have "num_val a - num_val b * of_int (rat_trunc (num_val a / num_val b)) = of_int r"
      by (simp add: r_def assms(3,4))
    then show ?thesis using 2 assms(1-3) y
      by (auto simp: num_rem_def Let_def isFinite_def signed_zero_def r_def [symmetric])
  next
    case 3
    have "num_val a - num_val b * of_int (rat_trunc (num_val a / num_val b)) = of_int r"
      by (simp add: r_def assms(3,4))
    then have "num_rem a b = num_of_rat (of_int r)"
      using 3 assms(1-3) y by (auto simp: num_rem_def Let_def isFinite_def)
    then show ?thesis using assms(5) num_val_num_of_rat_int r_def by metis
  qed
qed

lemma binary_op_exact:
  assumes "binary_op p (JNum a, i) (JNum b, j) pos = Inr (JNum v, True)"
    "isSafeInteger a" "isSafeInteger b" "isSafeInteger v" "num_val a = of_int x" "num_val b = of_int y"
  shows "num_val v = of_int (exact_operation p x y)"
proof -
  have f: "isFinite a" "isFinite b" using assms(2,3) by (simp_all add: isSafeInteger_def isInteger_def)
  have n: "isFinite (num_neg b)" "num_val (num_neg b) = of_int (- y)"
    using num_neg_val [OF f(2)] assms(6) by simp_all
  have "arithmetic p a b (i \<and> j) pos = Inr (JNum v, True)"
    using assms(1) by (auto simp: binary_op_def compare_values_def Let_def split: if_splits)
  then consider "p = lit ''+''" "v = num_add a b" | "p = lit ''-''" "v = num_sub a b"
    | "p = lit ''*''" "v = num_mul a b" | "p = lit ''%''" "v = num_rem a b"
    by (auto simp: arithmetic_def split: if_splits)
  then show ?thesis
    using num_add_exact [OF f assms(5,6)] num_mul_exact [OF f assms(5,6)] num_rem_exact [OF f assms(5,6)]
      num_add_exact [OF f(1) n(1) assms(5) n(2)] assms(4)
    by cases (simp_all add: exact_operation_def num_sub_def)
qed

lemma binary_op_integer:
  assumes "binary_op p (u, i) (w, j) pos = Inr (JNum v, True)"
  shows "i \<and> j \<and> (\<exists>a b. u = JNum a \<and> w = JNum b)"
  using assms by (auto simp: binary_op_def compare_values_def arithmetic_def Let_def split: json.splits if_splits)

lemma evaluate_checked:
  "evaluate rt n st = Inr ((JNum v, i), st') \<Longrightarrow> isFinite v \<and> (i \<longrightarrow> isSafeInteger v)"
  by (auto simp: evaluate_Inr_iff check_value_def split: if_splits)

subsection \<open>The wall clock of a time zone\<close>












lemma takeWhile_all_digits:
  "list_all is_digit s \<Longrightarrow> takeWhile is_digit s = s" "list_all is_digit s \<Longrightarrow> dropWhile is_digit s = []"
  by (simp_all add: takeWhile_eq_all_conv list_all_iff)

lemma decimal_rat_digits: "list_all is_digit s \<Longrightarrow> decimal_rat s = of_int (digits_val s)"
  by (simp add: decimal_rat_def Let_def exponent_val_def takeWhile_all_digits)






subsection \<open>Request paths\<close>

text \<open>
  A key written with a backslash before each of its code units, and the path that
  spells a list of keys.
\<close>

definition escape_key :: "jstring \<Rightarrow> jstring" where
  "escape_key k = concat (map (\<lambda>c. [92, c]) k)"

definition spell_path :: "jstring list \<Rightarrow> jstring" where
  "spell_path ks = join [46] (map escape_key ks)"

lemma path_parts_escape:
  "path_parts path (escape_key k @ r) part parts = path_parts path r (part @ k) parts"
  by (induction k arbitrary: part) (simp_all add: escape_key_def)

lemma path_parts_keys: "ks \<noteq> [] \<Longrightarrow> path_parts path (spell_path ks) [] parts = Inr (parts @ ks)"
proof (induction ks arbitrary: parts rule: induct_list012)
  case (2 k)
  show ?case using path_parts_escape [of path k "[]" "[]" parts] by (simp add: spell_path_def)
next
  case (3 k k' ks)
  then show ?case using path_parts_escape [of path k "46 # spell_path (k' # ks)" "[]" parts]
    by (simp add: spell_path_def)
qed simp

lemma join_snoc_last: "join sep (ps @ [p]) = (if ps = [] then p else join sep ps @ sep @ p)"
proof (induction ps)
  case (Cons q ps)
  then show ?case by (cases ps) auto
qed simp

lemma last_escape_key: "k \<noteq> [] \<Longrightarrow> escape_key k \<noteq> [] \<and> last (escape_key k) = last k"
  by (cases k rule: rev_cases) (auto simp: escape_key_def)

lemma spell_path_trimmed:
  assumes "ks \<noteq> []" "ks \<noteq> [[]]" "last ks = [] \<or> \<not> is_space (last (last ks))"
  shows "spell_path ks \<noteq> [] \<and> trim (spell_path ks) = spell_path ks"
proof -
  have sp: "\<not> is_space 92" "\<not> is_space 46" by (simp_all add: is_space_def)
  obtain k r where k: "ks = k # r" using assms(1) by (cases ks) auto
  have h: "spell_path ks \<noteq> [] \<and> \<not> is_space (hd (spell_path ks))"
  proof (cases k)
    case Nil
    then have "r \<noteq> []" using assms(2) k by simp
    then show ?thesis using Nil k join_Nil_Cons [of "map escape_key r" "[46]"] sp
      by (simp add: spell_path_def escape_key_def)
  next
    case (Cons c k')
    then show ?thesis using k sp join_Cons_Cons [of "[46]" 92 "c # escape_key k'" "map escape_key r"]
      by (simp add: spell_path_def escape_key_def)
  qed
  obtain p l where l: "ks = p @ [l]" using assms(1) by (cases ks rule: rev_cases) auto
  have "\<not> is_space (last (spell_path ks))"
    using assms(2,3) l sp last_escape_key [of l]
    by (cases "l = []") (auto simp: spell_path_def join_snoc_last escape_key_def)
  then show ?thesis using h trim_id by blast
qed

text \<open>
  What is stored in a request under a list of keys: the value itself, a field of an
  object, an element of an array under its index in decimal digits, the length of an
  array under \<open>#\<close>.
\<close>

inductive stored_at :: "json \<Rightarrow> jstring list \<Rightarrow> json \<Rightarrow> bool" where
  stored_here: "stored_at v [] v"
| stored_field: "(k, w) \<in> set es \<Longrightarrow> stored_at w ks v \<Longrightarrow> stored_at (JObj es) (k # ks) v"
| stored_element:
    "k \<noteq> [] \<Longrightarrow> list_all is_digit k \<Longrightarrow> digits_val k = int i \<Longrightarrow> i < length vs \<Longrightarrow> stored_at (vs ! i) ks v \<Longrightarrow>
       stored_at (JArr vs) (k # ks) v"
| stored_count: "stored_at (JArr vs) [lit ''#''] (JNum (Fin (of_nat (length vs))))"

inductive_simps stored_at_simps:
  "stored_at w [] v" "stored_at JUndefined (k # ks) v" "stored_at JNull (k # ks) v" "stored_at (JBool b) (k # ks) v"
  "stored_at (JNum x) (k # ks) v" "stored_at (JStr s) (k # ks) v" "stored_at (JArr vs) (k # ks) v"
  "stored_at (JObj es) (k # ks) v"

text \<open>The values of the language: the keys of an object differ, an array has less than \<open>2 ^ 32\<close> elements.\<close>

fun js_value :: "json \<Rightarrow> bool" where
  "js_value (JArr vs) \<longleftrightarrow> length vs < 2 ^ 32 \<and> list_all js_value vs"
| "js_value (JObj es) \<longleftrightarrow> distinct (map fst es) \<and> list_all (\<lambda>(k, v). js_value v) es"
| "js_value _ \<longleftrightarrow> True"

lemma array_element_digits:
  assumes "list_all is_digit k" "length vs < 2 ^ 32"
  shows "array_element vs k = (if nat (digits_val k) < length vs then vs ! nat (digits_val k) else JUndefined)"
proof -
  have n: "decimal_number k = num_of_rat (of_int (digits_val k))"
    by (simp add: decimal_number_def decimal_rat_digits [OF assms(1)])
  have v: "0 \<le> digits_val k" using digits_val_nonneg [of k] assms(1) by (simp add: list_all_iff)
  show ?thesis
  proof (cases "isSafeInteger (decimal_number k)")
    case True
    then show ?thesis using safe_integer_exact(2) [of "digits_val k"] n by (simp add: array_element_def Let_def)
  next
    case False
    have "\<not> digits_val k \<le> 2 ^ 53 - 1"
    proof
      assume "digits_val k \<le> 2 ^ 53 - 1"
      then show False using False n v num_of_rat_int [of "digits_val k"]
        by (simp add: isSafeInteger_def isInteger_def isFinite_def)
    qed
    moreover have "int (length vs) < 2 ^ 32" using assms(2) by simp
    ultimately have "\<not> nat (digits_val k) < length vs" by simp
    then show ?thesis using False by (simp add: array_element_def Let_def)
  qed
qed

lemma walk_undefined: "walk_path path JUndefined ks = Inr JNull"
  by (cases ks) simp_all

lemma walk_path_stored:
  assumes "js_value w" "v \<noteq> JNull" "v \<noteq> JUndefined"
  shows "walk_path path w ks = Inr v \<longleftrightarrow> stored_at w ks v"
  using assms(1)
proof (induction ks arbitrary: w)
  case Nil
  then show ?case using assms(2,3) by (auto simp: stored_at_simps)
next
  case (Cons k ks)
  show ?case
  proof (cases w)
    case (JObj es)
    then have d: "map_of es k = Some u \<longleftrightarrow> (k, u) \<in> set es" for u using Cons.prems by simp
    have "js_value u" if "(k, u) \<in> set es" for u using Cons.prems JObj that by (auto simp: list_all_iff)
    then have "stored_at w (k # ks) v \<longleftrightarrow> (\<exists>u. map_of es k = Some u \<and> walk_path path u ks = Inr v)"
      using JObj Cons.IH d by (auto simp: stored_at_simps)
    then show ?thesis using JObj assms(2) by (auto split: option.splits)
  next
    case (JArr vs)
    note a = array_element_digits [of k vs]
    have j: "js_value (vs ! i)" if "i < length vs" for i using Cons.prems JArr that by (simp add: list_all_length)
    have i: "digits_val k = int i \<longleftrightarrow> i = nat (digits_val k)" if "list_all is_digit k" for i
      using digits_val_nonneg [of k] that by (auto simp: list_all_iff)
    consider "k = lit ''#''" | "k \<noteq> lit ''#''" "k = [] \<or> \<not> list_all is_digit k"
      | "k \<noteq> lit ''#''" "k \<noteq> []" "list_all is_digit k" by blast
    then show ?thesis
    proof cases
      case 1
      have "\<not> list_all is_digit (lit ''#'')" by (simp add: lit_def is_digit_def)
      then show ?thesis using 1 JArr by (auto simp: stored_at_simps)
    next
      case 2
      then show ?thesis using JArr assms(2) by (auto simp: stored_at_simps)
    next
      case 3
      then show ?thesis using JArr Cons.IH [OF j, of "nat (digits_val k)"] Cons.prems a i assms(2)
        by (auto simp: stored_at_simps walk_undefined)
    qed
  qed (use assms(2) in \<open>auto simp: stored_at_simps\<close>)
qed

subsection \<open>Sample inputs\<close>

definition sample_host :: host where
  "sample_host = \<lparr>h_lower = (\<lambda>s. s), h_zone = (\<lambda>_. None), h_now = Some 0\<rparr>"

definition tokens_context :: "(jstring \<times> json) list \<Rightarrow> simulation_context" where
  "tokens_context ts = empty_context\<lparr>cx_tokens := Some ts\<rparr>"

definition sample_runtime :: "runtime \<times> runtime_state" where
  "sample_runtime =
     (case new_runtime sample_host sample_compiled (tokens_context [(lit ''p'', JNum (Fin 3))]) of
        Inr r \<Rightarrow> r
      | Inl _ \<Rightarrow> (\<lparr>rt_host = sample_host, rt_compiled = sample_compiled, rt_context = empty_context,
                   rt_now = None, rt_headers = []\<rparr>,
                  \<lparr>rs_requestRules = [], rs_matchedTier = [], rs_billingUnit = U_token, rs_fixedPrice = None,
                   rs_timeValues = [], rs_depth = 0\<rparr>))"

text \<open>A request parameter, and a runtime whose request has a string for it.\<close>

definition param_a :: node where
  "param_a = Call (lit ''param'') [Literal (LString (lit ''a'')) False 6 9] 0 10"

definition string_runtime :: runtime where
  "string_runtime = (fst sample_runtime)\<lparr>rt_context := empty_context\<lparr>cx_request :=
     Some \<lparr>rq_body = JObj [(lit ''a'', JStr (lit ''x''))], rq_headers = None\<rparr>\<rparr>\<rparr>"







subsection \<open>Properties\<close>

text \<open>
  C2: of two inputs that pass the checks made before every evaluation, that is, all
  their token counts are finite non-negative numbers and all their header values are
  strings, the result of an evaluation, successful or not, depends only on what the
  compiled expression names: the variables and functions that
  \<open>expressionDependencies\<close> collected. The other tokens, an unread request body, unread
  task usage, or the time of day when no time function is called, have no influence.
\<close>

theorem evaluation_reads_declared_inputs_only:
  assumes "compile_result source = Ready c" "same_inputs c cx cx'" "context_ok cx" "context_ok cx'"
  shows "evaluateBillingExpression host source cx = evaluateBillingExpression host source cx'"
  using run_expression_same [OF assms] assms(1)
  by (simp add: evaluateBillingExpression_def evaluate_compiled_def)

theorem evaluation_reads_declared_inputs_only_witness:
  "evaluateBillingExpression sample_host sample_source (tokens_context [(lit ''p'', JNum (Fin 3))]) =
   evaluateBillingExpression sample_host sample_source
     ((tokens_context [(lit ''c'', JNum (Fin 7)), (lit ''p'', JNum (Fin 3))])\<lparr>cx_now := Some None\<rparr>)"
  by (rule evaluation_reads_declared_inputs_only [OF compile_sample])
    (simp_all add: same_inputs_def sample_compiled_def context_ok_def tokens_context_def empty_context_def
      context_variable_def TIME_FUNCTIONS_def)

text \<open>
  C7: the cache of time values never changes an evaluation: from two states that
  differ only in their caches, each holding only values \<open>timeInBillingZone\<close>
  returned for this runtime, the results and the remaining state are the same.
\<close>

theorem time_cache_transparent:
  assumes "same_state rt rt st st'"
  shows "same_result rt rt (evaluate rt n st) (evaluate rt n st')"
  by (rule evaluate_same [OF _ assms]) (simp add: agree_def)

theorem time_cache_transparent_witness:
  "same_result (fst sample_runtime) (fst sample_runtime)
     (evaluate (fst sample_runtime) (ce_ast sample_compiled) (snd sample_runtime))
     (evaluate (fst sample_runtime) (ce_ast sample_compiled)
       ((snd sample_runtime)\<lparr>rs_timeValues := [(lit ''UTC'', utc_fields 0)]\<rparr>))"
proof -
  have h: "rt_host (fst sample_runtime) = sample_host" "rt_now (fst sample_runtime) = Some 0"
    "rs_timeValues (snd sample_runtime) = []"
    by (simp_all add: sample_runtime_def new_runtime_def tokens_context_def empty_context_def sample_host_def)
  have "timeInBillingZone sample_host (Some 0) (lit ''UTC'') = Inr (utc_fields 0)"
    by code_simp
  then have "times_sound (fst sample_runtime) ((snd sample_runtime)\<lparr>rs_timeValues := [(lit ''UTC'', utc_fields 0)]\<rparr>)"
    by (simp add: time_memo.sound_def h)
  then show ?thesis
    using time_cache_transparent [of "fst sample_runtime" "snd sample_runtime"
        "(snd sample_runtime)\<lparr>rs_timeValues := [(lit ''UTC'', utc_fields 0)]\<rparr>" "ce_ast sample_compiled"]
    by (simp add: same_state_def h time_memo.sound_empty)
qed

text \<open>
  C6: a successful evaluation reports a finite, non-negative cost; the request
  rules of the compiled expression in order, with their conditions and
  multipliers; and a fixed price exactly when it is billed by request.
\<close>

theorem successful_evaluation:
  assumes "evaluate_compiled host (Ready c) cx = Success e"
  shows "isFinite (ev_cost e) \<and> num_le (Fin 0) (ev_cost e) \<and>
    map br_cond (ev_requestRules e) = map cr_cond (ce_requestRules c) \<and>
    map br_multiplier (ev_requestRules e) = map cr_multiplier (ce_requestRules c) \<and>
    (ev_billingUnit e = U_request \<longleftrightarrow> ev_fixedPrice e \<noteq> None)"
proof -
  obtain rt st v i st1 where r: "new_runtime host c cx = Inr (rt, st)"
    "evaluate rt (ce_ast c) st = Inr ((JNum v, i), st1)"
    and v: "isFinite v" "\<not> num_lt v (Fin 0)" "ev_cost e = v"
    "ev_billingUnit e = rs_billingUnit st1" "ev_fixedPrice e = rs_fixedPrice st1"
    "ev_requestRules e = rs_requestRules st1"
    by (rule evaluation_run [OF assms])
  have "list_all2 (\<lambda>c r. br_cond r = cr_cond c \<and> br_multiplier r = cr_multiplier c)
      (ce_requestRules c) (rs_requestRules st1)"
    using rules_step.evaluate_R [OF r(2)] new_runtime_Inr(9) [OF r(1)]
    by (auto simp: rules_extend_def list_all2_conv_all_nth)
  then have "map br_cond (rs_requestRules st1) = map cr_cond (ce_requestRules c) \<and>
      map br_multiplier (rs_requestRules st1) = map cr_multiplier (ce_requestRules c)"
    by (induction rule: list_all2_induct) auto
  moreover have "unit_ok st1" using unit_step.evaluate_R [OF r(2)] new_runtime_Inr(7) [OF r(1)] by simp
  moreover have "num_le (Fin 0) v" using v(1,2) by (cases v) (auto simp: isFinite_def num_lt_def num_le_def num_eq_def)
  ultimately show ?thesis using v by (simp add: unit_ok_def)
qed

theorem successful_evaluation_witness:
  "\<exists>e. evaluate_compiled sample_host (Ready sample_compiled) (tokens_context [(lit ''p'', JNum (Fin 3))]) = Success e \<and>
     ev_cost e = Fin 6 \<and> ev_billingUnit e \<noteq> U_request \<and> ev_fixedPrice e = None"
proof -
  have r: "evaluate_compiled sample_host (Ready sample_compiled) (tokens_context [(lit ''p'', JNum (Fin 3))]) =
      Success \<lparr>ev_cost = Fin 6, ev_billingUnit = U_token, ev_imageCount = None, ev_fixedPrice = None,
        ev_matchedTier = lit ''a'', ev_requestRules = []\<rparr>"
    by code_simp
  show ?thesis using successful_evaluation [OF r] r by auto
qed

text \<open>
  C5: the static types are sound for the results: when an expression of the
  language has a type and no sum of two dynamic operands, every value it
  evaluates to has that type.
\<close>

theorem evaluation_respects_types:
  assumes "vocabulary_ok n" "no_dynamic_sum n" "static_type n = Some t" "evaluate rt n st = Inr ((v, i), st')"
  shows "fits t v"
  by (rule evaluate_fits [OF assms(4,1,2,3)])

theorem evaluation_respects_types_witness:
  "\<exists>v i st'. evaluate (fst sample_runtime) (Unary (lit ''!'') (Literal (LBoolean True) False 1 5) 0 5) (snd sample_runtime) =
      Inr ((v, i), st') \<and> fits T_boolean v"
proof -
  let ?n = "Unary (lit ''!'') (Literal (LBoolean True) False 1 5) 0 5"
  have "static_type ?n = Some T_boolean"
    by (simp add: static_type.simps [of "Unary _ _ _ _"] static_type.simps [of "Literal _ _ _ _"] node_type_def
        requireType_def literal_type_def)
  moreover have "no_dynamic_sum ?n"
    by (simp add: no_dynamic_sum_def subnodes.simps [of "Unary _ _ _ _"] subnodes.simps [of "Literal _ _ _ _"] dynamic_sum_def)
  moreover have "vocabulary_ok ?n" by code_simp
  moreover have "evaluate (fst sample_runtime) ?n (snd sample_runtime) = Inr ((JBool False, False), snd sample_runtime)"
    by code_simp
  ultimately show ?thesis using evaluation_respects_types by blast
qed

text \<open>
  C4: an arithmetic result that carries the integer flag is the exact result on
  unbounded integers of the operands, which carry the flag too: where rounding
  would change it, the evaluation stops with an error instead.
\<close>

theorem integer_arithmetic_exact:
  assumes "evaluate rt (Binary p l r a b) st = Inr ((JNum v, True), st')"
  shows "\<exists>x y u w s1 s2 s3. evaluate rt l s1 = Inr ((JNum u, True), s2) \<and> evaluate rt r s2 = Inr ((JNum w, True), s3) \<and>
    num_val u = of_int x \<and> num_val w = of_int y \<and> num_val v = of_int (exact_operation p x y)"
proof -
  obtain s1 s4 where e: "evaluateNode rt (Binary p l r a b) s1 = Inr ((JNum v, True), s4)"
    using assms by (auto simp: evaluate_Inr_iff)
  have "p \<noteq> lit ''&&'' \<and> p \<noteq> lit ''||''" using e by (auto simp: err_simps split: if_splits)
  then obtain u i s2 w j s3 where ev: "evaluate rt l s1 = Inr ((u, i), s2)" "evaluate rt r s2 = Inr ((w, j), s3)"
    "binary_op p (u, i) (w, j) a = Inr (JNum v, True)"
    using e by (auto simp: err_simps)
  then obtain u' w' where uw: "u = JNum u'" "i" "w = JNum w'" "j" using binary_op_integer by blast
  have s: "isSafeInteger u'" "isSafeInteger w'" "isSafeInteger v"
    using evaluate_checked ev(1,2) uw assms by blast+
  obtain x y where "num_val u' = of_int x" "num_val w' = of_int y" using s safe_integerE by metis
  moreover have "binary_op p (JNum u', True) (JNum w', True) a = Inr (JNum v, True)" using ev(3) uw by simp
  ultimately have "num_val v = of_int (exact_operation p x y)" using binary_op_exact s by blast
  moreover have "evaluate rt l s1 = Inr ((JNum u', True), s2)" "evaluate rt r s2 = Inr ((JNum w', True), s3)"
    using ev(1,2) uw by simp_all
  ultimately show ?thesis using \<open>num_val u' = of_int x\<close> \<open>num_val w' = of_int y\<close> by blast
qed

theorem integer_arithmetic_exact_witness:
  "\<exists>v st'. evaluate (fst sample_runtime) (Binary (lit ''%'') (Literal (LNumber (Fin 7)) True 0 1)
      (Literal (LNumber (Fin 3)) True 4 5) 0 5) (snd sample_runtime) = Inr ((JNum v, True), st') \<and>
    (\<exists>x y. num_val v = of_int (exact_operation (lit ''%'') x y))"
proof -
  have e: "evaluate (fst sample_runtime) (Binary (lit ''%'') (Literal (LNumber (Fin 7)) True 0 1)
      (Literal (LNumber (Fin 3)) True 4 5) 0 5) (snd sample_runtime) = Inr ((JNum (Fin 1), True), snd sample_runtime)"
    by code_simp
  then show ?thesis using integer_arithmetic_exact [OF e] by blast
qed

text \<open>
  C11: when a token count is anything but a finite, non-negative number (a negative
  number, an infinity, NaN, or no number at all), every evaluation fails as an invalid
  number with the name of the first such token, whether or not the expression reads
  that token; no cost is reported.
\<close>

theorem bad_token_is_an_error:
  assumes "cx_tokens cx = Some ts" "find (\<lambda>e. \<not> valid_count (snd e)) ts = Some e"
  shows "evaluate_compiled host (Ready c) cx =
    Failure \<lparr>f_status = S_invalid, f_diagnostic = \<lparr>d_code = C_number, d_detail = fst e, d_position = None\<rparr>\<rparr>"
proof -
  have "emap token_entry_ok ts = Inl (billing_error C_number (fst e) None)"
    using assms(2) by (induction ts) (auto simp: token_entry_ok_count split: if_splits)
  then show ?thesis
    using assms(1) by (simp add: evaluate_compiled_def run_expression_def expressionFailure_def)
qed

theorem bad_token_is_an_error_witness:
  "evaluate_compiled sample_host (Ready sample_compiled)
      (tokens_context [(lit ''p'', JNum (Fin 3)), (lit ''c'', JNum NaN), (lit ''cr'', JNum (Fin (- 1)))]) =
    Failure \<lparr>f_status = S_invalid, f_diagnostic = \<lparr>d_code = C_number, d_detail = lit ''c'', d_position = None\<rparr>\<rparr>"
  using bad_token_is_an_error [of
      "tokens_context [(lit ''p'', JNum (Fin 3)), (lit ''c'', JNum NaN), (lit ''cr'', JNum (Fin (- 1)))]" _
      "(lit ''c'', JNum NaN)" sample_host sample_compiled]
  by (simp add: tokens_context_def empty_context_def)



text \<open>
  C12: request paths read exactly what is stored under their keys. For a list of keys
  of any characters, not empty and not one empty key alone, whose last key does not end
  in white space (which the code would trim), the path that spells it with every code
  unit escaped and dots between the keys returns a value other than null if and only if
  the request body holds that value under those keys, through objects with any other
  fields, through arrays by decimal index, and as an array's length under a final \<open>#\<close>.
\<close>

theorem request_path_reads_stored_value:
  assumes "ks \<noteq> []" "ks \<noteq> [[]]" "last ks = [] \<or> \<not> is_space (last (last ks))"
    and "js_value body" "v \<noteq> JNull" "v \<noteq> JUndefined"
  shows "readRequestPath body (spell_path ks) = Inr v \<longleftrightarrow> stored_at body ks v"
  using spell_path_trimmed [OF assms(1-3)] path_parts_keys [OF assms(1), of _ "[]"]
    walk_path_stored [OF assms(4-6), of "spell_path ks" ks]
  by (simp add: readRequestPath_def)

theorem request_path_reads_stored_value_witness:
  "let body = JObj [(lit ''x'', JNull), (lit ''a.b'', JArr [JBool False, JObj [(lit ''k'', JStr []), (lit ''*'', JBool True)]])];
       ks = [lit ''a.b'', lit ''1'', lit ''*'']
   in readRequestPath body (spell_path ks) = Inr (JBool True) \<and> stored_at body ks (JBool True)"
proof -
  let ?body = "JObj [(lit ''x'', JNull), (lit ''a.b'', JArr [JBool False, JObj [(lit ''k'', JStr []), (lit ''*'', JBool True)]])]"
  let ?ks = "[lit ''a.b'', lit ''1'', lit ''*'']"
  have r: "readRequestPath ?body (spell_path ?ks) = Inr (JBool True)" by code_simp
  have "\<not> is_space (last (last ?ks))" "js_value ?body" by code_simp+
  then show ?thesis using request_path_reads_stored_value [of ?ks ?body "JBool True"] r by simp
qed

text \<open>
  C16: the exception of the typing property is real, for every sum: the checker types
  the sum of any two dynamic operands as a number, and whenever both operands
  evaluate to strings the sum evaluates to their concatenation, a string.
\<close>

theorem dynamic_sum_type_mismatch:
  assumes "static_type l = Some T_dynamic" "static_type r = Some T_dynamic" "rs_depth st < 256"
    and "evaluate rt l (st\<lparr>rs_depth := Suc (rs_depth st)\<rparr>) = Inr ((JStr x, i), st1)"
    and "evaluate rt r st1 = Inr ((JStr y, j), st2)"
  shows "static_type (Binary (lit ''+'') l r a b) = Some T_number \<and>
    (\<exists>st'. evaluate rt (Binary (lit ''+'') l r a b) st = Inr ((JStr (x @ y), False), st')) \<and>
    \<not> fits T_number (JStr (x @ y))"
proof -
  have "static_type (Binary (lit ''+'') l r a b) = Some T_number"
    using assms(1,2)
    by (simp add: static_type.simps [of "Binary _ _ _ _ _"] node_type_def binary_type_def requireType_def)
  moreover have "evaluateNode rt (Binary (lit ''+'') l r a b) (st\<lparr>rs_depth := Suc (rs_depth st)\<rparr>) =
      Inr ((JStr (x @ y), False), st2)"
    using assms(4,5) by (simp add: binary_op_def Let_def)
  ultimately show ?thesis using assms(3) by (simp add: evaluate_Inr_iff check_value_def)
qed

theorem dynamic_sum_type_mismatch_witness:
  "static_type (Binary (lit ''+'') param_a param_a 0 23) = Some T_number \<and>
   (\<exists>st'. evaluate string_runtime (Binary (lit ''+'') param_a param_a 0 23) (snd sample_runtime) =
     Inr ((JStr (lit ''xx''), False), st'))"
proof -
  have t: "static_type param_a = Some T_dynamic"
    by (simp add: param_a_def static_type.simps [of "Call _ _ _ _"] static_type.simps [of "Literal _ _ _ _"]
        node_type_def call_type_def requireType_def literal_type_def TIME_FUNCTIONS_def)
  have e: "evaluate string_runtime param_a ((snd sample_runtime)\<lparr>rs_depth := Suc (rs_depth (snd sample_runtime))\<rparr>) =
      Inr ((JStr (lit ''x''), False), (snd sample_runtime)\<lparr>rs_depth := 1\<rparr>)"
    "evaluate string_runtime param_a ((snd sample_runtime)\<lparr>rs_depth := 1\<rparr>) =
      Inr ((JStr (lit ''x''), False), (snd sample_runtime)\<lparr>rs_depth := 1\<rparr>)"
    "rs_depth (snd sample_runtime) = 0" "lit ''xx'' = lit ''x'' @ lit ''x''"
    by code_simp+
  then show ?thesis using dynamic_sum_type_mismatch [OF t t _ e(1,2), of 0 23] by simp
qed

end
