(* ===== verification/Billing_Display.thy ===== *)
theory Billing_Display
  imports Runtime_Facts
begin

text \<open>
  The price summaries of \<open>billing-expression/display.ts\<close>: reading an ordered
  chain of token tiers, tiers selected by the time of day, and task tiers off the
  syntax tree. The lemmas relate a token chain to the interpreter: the first tier
  whose conditions hold is the one an evaluation matches. The readers are applied
  to trees of the parser, where \<open>tier\<close> has two arguments and \<open>fixed\<close> and \<open>u\<close> one.
\<close>

subsection \<open>Token tiers\<close>

record tier_condition =
  tc_var :: jstring
  tc_op :: jstring
  tc_value :: number

record token_tier =
  tt_conditionText :: "jstring option"
  tt_imageCount :: "bool option"
  tt_billingUnit :: "billing_unit option"
  tt_fixedPrice :: "number option"
  tt_label :: jstring
  tt_conditions :: "tier_condition list"
  tt_prices :: "(jstring \<times> number) list"

fun flattenBinary :: "node \<Rightarrow> jstring \<Rightarrow> node list" where
  "flattenBinary (Binary p l r a b) operator =
     (if p \<noteq> operator then [Binary p l r a b] else flattenBinary l operator @ flattenBinary r operator)"
| "flattenBinary n operator = [n]"

definition token_condition :: "node \<Rightarrow> tier_condition option" where
  "token_condition part =
     (case part of
        Binary p (Variable x _ _) (Literal (LNumber v) _ _ _) _ _ \<Rightarrow>
          if p \<in> set (map lit [''<'', ''<='', ''>'', ''>='']) \<and> x \<in> set (map lit [''p'', ''c'', ''len'']) \<and>
             \<not> num_lt v (Fin 0)
          then Some \<lparr>tc_var = x, tc_op = p, tc_value = v\<rparr> else None
      | _ \<Rightarrow> None)"

definition tokenConditions :: "node \<Rightarrow> tier_condition list option" where
  "tokenConditions n = those (map token_condition (flattenBinary n (lit ''&&'')))"

definition nonnegativePriceLiteral :: "node \<Rightarrow> number option" where
  "nonnegativePriceLiteral n =
     (case n of
        Literal (LNumber v) _ _ _ \<Rightarrow> if num_le (Fin 0) v then Some v else None
      | Unary p (Literal (LNumber v) _ _ _) _ _ \<Rightarrow>
          if p = lit ''-'' \<and> num_eq v (Fin 0) then Some NegZero else None
      | _ \<Rightarrow> None)"

definition is_zero_literal :: "node \<Rightarrow> bool" where
  "is_zero_literal n = (case n of Literal (LNumber v) _ _ _ \<Rightarrow> num_eq v (Fin 0) | _ \<Rightarrow> False)"

definition is_variable :: "string \<Rightarrow> node \<Rightarrow> bool" where
  "is_variable x n = (case n of Variable y _ _ \<Rightarrow> y = lit x | _ \<Rightarrow> False)"

text \<open>The variable a price term charges: a plain token variable, or \<open>max(len - ai, 0)\<close> for \<open>p\<close>.\<close>

definition price_variable :: "node \<Rightarrow> jstring option" where
  "price_variable input =
     (case input of
        Variable x _ _ \<Rightarrow> if x \<noteq> lit ''len'' \<and> x \<noteq> lit ''image_count'' then Some x else None
      | Call f [a1, a2] _ _ \<Rightarrow>
          if f \<noteq> lit ''max'' then None
          else
            let remainder = (if is_zero_literal a1 then Some a2 else if is_zero_literal a2 then Some a1 else None)
            in (case remainder of
                  Some (Binary p l r _ _) \<Rightarrow>
                    if p = lit ''-'' \<and> is_variable ''len'' l \<and> is_variable ''ai'' r then Some (lit ''p'') else None
                | _ \<Rightarrow> None)
      | _ \<Rightarrow> None)"

definition price_term :: "node \<Rightarrow> (jstring \<times> number) option" where
  "price_term term =
     (case term of
        Binary p l r _ _ \<Rightarrow>
          if p \<noteq> lit ''*'' then None
          else (case nonnegativePriceLiteral r of
                  Some price \<Rightarrow> map_option (\<lambda>x. (x, price)) (price_variable l)
                | None \<Rightarrow>
                    (case nonnegativePriceLiteral l of
                       Some price \<Rightarrow> map_option (\<lambda>x. (x, price)) (price_variable r)
                     | None \<Rightarrow> None))
      | _ \<Rightarrow> None)"

fun token_prices :: "node list \<Rightarrow> (jstring \<times> number) list \<Rightarrow> (jstring \<times> number) list option" where
  "token_prices [] prices = Some prices"
| "token_prices (t # ts) prices =
     (case price_term t of
        None \<Rightarrow> None
      | Some (x, price) \<Rightarrow>
          if x \<in> fst ` set prices then None else token_prices ts (prices @ [(x, price)]))"

definition mk_token_tier :: "jstring \<Rightarrow> tier_condition list \<Rightarrow> (jstring \<times> number) list \<Rightarrow> token_tier" where
  "mk_token_tier label conditions prices =
     \<lparr>tt_conditionText = None, tt_imageCount = None, tt_billingUnit = None, tt_fixedPrice = None,
      tt_label = label, tt_conditions = conditions, tt_prices = prices\<rparr>"

definition tokenTier :: "node \<Rightarrow> tier_condition list \<Rightarrow> token_tier option" where
  "tokenTier n conditions =
     (case n of
        Call f (Literal (LString label) _ _ _ # body # _) _ _ \<Rightarrow>
          if f \<noteq> lit ''tier'' then None
          else
            (case (case body of
                     Call g (Literal (LNumber price) _ _ _ # _) _ _ \<Rightarrow> if g = lit ''fixed'' then Some price else None
                   | _ \<Rightarrow> None) of
               Some price \<Rightarrow>
                 Some ((mk_token_tier label conditions [])\<lparr>tt_billingUnit := Some U_request, tt_fixedPrice := Some price\<rparr>)
             | None \<Rightarrow>
                 (case token_prices (flattenBinary body (lit ''+'')) [] of
                    None \<Rightarrow> None
                  | Some prices \<Rightarrow> if prices = [] then None else Some (mk_token_tier label conditions prices)))
      | _ \<Rightarrow> None)"

text \<open>The loop over the conditional chain.\<close>

fun tier_chain :: "node \<Rightarrow> token_tier list option" where
  "tier_chain (Conditional c y e _ _) =
     (case tokenConditions c of
        None \<Rightarrow> None
      | Some conditions \<Rightarrow>
          (case tokenTier y conditions of
             None \<Rightarrow> None
           | Some tier \<Rightarrow> map_option (\<lambda>tiers. tier # tiers) (tier_chain e)))"
| "tier_chain n = map_option (\<lambda>tier. [tier]) (tokenTier n [])"

definition audio_part :: "node \<Rightarrow> jstring option" where
  "audio_part part =
     (case part of
        Binary p (Variable x _ _) r _ _ \<Rightarrow>
          if p = lit ''>'' \<and> x \<in> set (map lit [''ai'', ''ao'']) \<and> is_zero_literal r then Some x else None
      | _ \<Rightarrow> None)"

text \<open>The shape the audio conversion generates: one tier when audio tokens are present, one otherwise.\<close>

definition audio_chain :: "node \<Rightarrow> token_tier list option" where
  "audio_chain n =
     (case n of
        Conditional (Binary p l r _ _) y e _ _ \<Rightarrow>
          if p = lit ''||'' \<and> {audio_part l, audio_part r} = {Some (lit ''ai''), Some (lit ''ao'')} then
            (case (tokenTier y [], tokenTier e []) of
               (Some audio, Some text) \<Rightarrow>
                 Some [audio\<lparr>tt_conditionText := Some (lit ''Audio requests'')\<rparr>,
                       text\<lparr>tt_conditionText := Some (lit ''Text-only requests'')\<rparr>]
             | _ \<Rightarrow> None)
          else None
      | _ \<Rightarrow> None)"

fun readTokenTierChain :: "node \<Rightarrow> token_tier list option" where
  "readTokenTierChain (Binary p l r a b) =
     (if p = lit ''*'' \<and> is_variable ''image_count'' l then
        map_option (map (\<lambda>tier. tier\<lparr>tt_imageCount := Some True\<rparr>)) (readTokenTierChain r)
      else if p = lit ''*'' \<and> is_variable ''image_count'' r then
        map_option (map (\<lambda>tier. tier\<lparr>tt_imageCount := Some True\<rparr>)) (readTokenTierChain l)
      else tier_chain (Binary p l r a b))"
| "readTokenTierChain n = (case audio_chain n of Some tiers \<Rightarrow> Some tiers | None \<Rightarrow> tier_chain n)"

subsection \<open>Tiers by the time of day\<close>

definition isTimeCondition :: "node \<Rightarrow> js_error + bool" where
  "isTimeCondition n =
     ebind (expressionDependencies n) (\<lambda>(variables, functions).
       Inr (variables = [] \<and> list_ex (\<lambda>name. name \<in> set TIME_FUNCTIONS) functions \<and>
            list_all (\<lambda>name. name \<in> set (TIME_FUNCTIONS @ map lit [''min'', ''max'', ''abs'', ''ceil'', ''floor'']))
              functions))"

record time_token_tier = token_tier +
  tm_timeConditions :: "(node \<times> bool) list"

definition time_description :: "jstring \<Rightarrow> (node \<times> bool) list \<Rightarrow> jstring" where
  "time_description source path =
     join (lit '' && '')
       (map (\<lambda>(condition, matches).
          (if matches then lit ''('' else lit ''!('') @ slice source (node_start condition) (node_end condition) @ lit '')'')
          path)"

definition condition_text :: "tier_condition \<Rightarrow> jstring" where
  "condition_text c = tc_var c @ lit '' '' @ tc_op c @ lit '' '' @ number_to_string (tc_value c)"

definition time_leaf :: "jstring \<Rightarrow> node \<Rightarrow> (node \<times> bool) list \<Rightarrow> time_token_tier list option" where
  "time_leaf source n path =
     (case readTokenTierChain n of
        None \<Rightarrow> None
      | Some tiers \<Rightarrow>
          if path = [] then None
          else Some (map (\<lambda>tier.
            token_tier.extend
              (tier\<lparr>tt_conditionText :=
                Some (join (lit '' && '') (time_description source path # map condition_text (tt_conditions tier)))\<rparr>)
              (time_token_tier.fields path)) tiers))"

fun timeTierBranches ::
  "jstring \<Rightarrow> node \<Rightarrow> (node \<times> bool) list \<Rightarrow> js_error + time_token_tier list option" where
  "timeTierBranches source (Conditional c y e a b) path =
     ebind (isTimeCondition c) (\<lambda>time.
       if time then
         ebind (timeTierBranches source y (path @ [(c, True)])) (\<lambda>yes.
         ebind (timeTierBranches source e (path @ [(c, False)])) (\<lambda>no.
           Inr (case (yes, no) of (Some ys, Some ns) \<Rightarrow> Some (ys @ ns) | _ \<Rightarrow> None)))
       else Inr (time_leaf source (Conditional c y e a b) path))"
| "timeTierBranches source n path = Inr (time_leaf source n path)"

definition readTimeTokenPricing ::
  "host \<Rightarrow> jstring \<Rightarrow> int option option \<Rightarrow>
     js_error + (time_token_tier list \<times> time_token_tier list) option" where
  "readTimeTokenPricing host source now =
     (case compile_result source of
        Failed _ \<Rightarrow> Inr None
      | Ready compiled \<Rightarrow>
          ebind (timeTierBranches (ce_source compiled) (ce_ast compiled) []) (\<lambda>branches.
            case branches of
              None \<Rightarrow> Inr None
            | Some tiers \<Rightarrow>
                Inr (Some (tiers,
                  case now of
                    None \<Rightarrow> []
                  | Some date \<Rightarrow>
                      filter (\<lambda>tier. list_all (\<lambda>(condition, matches).
                        evaluateBillingCondition host compiled condition date = Some matches)
                        (tm_timeConditions tier)) tiers))))"

subsection \<open>Task tiers\<close>

datatype usage_type = Usage_number | Usage_boolean

datatype usage_unit = Unit_second | Unit_count | Unit_token | Unit_credit

record usage_field =
  uf_type :: "usage_type option"
  uf_unit :: "usage_unit option"
  uf_enum :: "jstring list option"

type_synonym usage_schema = "(jstring \<times> usage_field) list"

record task_tier =
  tk_label :: jstring
  tk_conditions :: "(jstring \<times> jstring) list"
  tk_constant :: number
  tk_unitPrices :: "(jstring \<times> number) list"

definition usage_name :: "node \<Rightarrow> jstring option" where
  "usage_name n =
     (case n of Call f (Literal (LString field) _ _ _ # _) _ _ \<Rightarrow> if f = lit ''u'' then Some field else None | _ \<Rightarrow> None)"

definition task_condition :: "usage_schema \<Rightarrow> bool \<Rightarrow> node \<Rightarrow> (jstring \<times> jstring) option" where
  "task_condition schema includeBoolean term =
     (case term of
        Binary p l (Literal value _ _ _) _ _ \<Rightarrow>
          if p \<noteq> lit ''=='' then None
          else
            (case usage_name l of
               None \<Rightarrow> None
             | Some field \<Rightarrow>
                 if Option.bind (map_of schema field) uf_type = Some Usage_boolean then
                   (case value of
                      LBoolean b \<Rightarrow>
                        if includeBoolean then Some (field, if b then lit ''true'' else lit ''false'') else None
                    | _ \<Rightarrow> None)
                 else
                   (case (value, Option.bind (map_of schema field) uf_enum) of
                      (LString s, Some values) \<Rightarrow> if s \<in> set values then Some (field, s) else None
                    | _ \<Rightarrow> None))
      | _ \<Rightarrow> None)"

definition taskConditions :: "node \<Rightarrow> usage_schema \<Rightarrow> bool \<Rightarrow> (jstring \<times> jstring) list option" where
  "taskConditions n schema includeBoolean =
     those (map (task_condition schema includeBoolean) (flattenBinary n (lit ''&&'')))"

text \<open>
  A unit price: \<open>u(field) * price\<close>, or the same over a million for a field counted
  in tokens.
\<close>

definition unit_price :: "usage_schema \<Rightarrow> node \<Rightarrow> (jstring \<times> number) option" where
  "unit_price schema term =
     (let scaled = (case term of Binary p _ _ _ _ \<Rightarrow> p = lit ''/'' | _ \<Rightarrow> False);
          inner = (if scaled then
                     (case term of
                        Binary _ l (Literal (LNumber v) _ _ _) _ _ \<Rightarrow> if num_eq v (Fin 1000000) then Some l else None
                      | _ \<Rightarrow> None)
                   else Some term)
      in case inner of
           Some (Binary p l r _ _) \<Rightarrow>
             if p \<noteq> lit ''*'' then None
             else
               (case (usage_name l, nonnegativePriceLiteral r) of
                  (Some field, Some price) \<Rightarrow>
                    (case map_of schema field of
                       Some d \<Rightarrow>
                         (case uf_unit d of
                            Some u \<Rightarrow>
                              if uf_type d = Some Usage_number \<and> (u = Unit_token) = scaled
                              then Some (field, price) else None
                          | None \<Rightarrow> None)
                     | None \<Rightarrow> None)
                | _ \<Rightarrow> None)
         | _ \<Rightarrow> None)"

fun task_terms ::
  "usage_schema \<Rightarrow> node list \<Rightarrow> number option \<Rightarrow> (jstring \<times> number) list \<Rightarrow>
     (number option \<times> (jstring \<times> number) list) option" where
  "task_terms schema [] constant prices = Some (constant, prices)"
| "task_terms schema (t # ts) constant prices =
     (case nonnegativePriceLiteral t of
        Some v \<Rightarrow> if constant \<noteq> None then None else task_terms schema ts (Some v) prices
      | None \<Rightarrow>
          (case unit_price schema t of
             None \<Rightarrow> None
           | Some (field, price) \<Rightarrow>
               if field \<in> fst ` set prices then None
               else task_terms schema ts constant (prices @ [(field, price)])))"

definition taskTier :: "node \<Rightarrow> (jstring \<times> jstring) list \<Rightarrow> usage_schema \<Rightarrow> task_tier option" where
  "taskTier n conditions schema =
     (case n of
        Call f (Literal (LString label) _ _ _ # body # _) _ _ \<Rightarrow>
          if f \<noteq> lit ''tier'' then None
          else
            (case task_terms schema (flattenBinary body (lit ''+'')) None [] of
               None \<Rightarrow> None
             | Some (constant, prices) \<Rightarrow>
                 if prices = [] then None
                 else Some \<lparr>tk_label = label, tk_conditions = conditions,
                            tk_constant = (case constant of Some v \<Rightarrow> v | None \<Rightarrow> Fin 0), tk_unitPrices = prices\<rparr>)
      | _ \<Rightarrow> None)"

fun readTaskTierChain :: "node \<Rightarrow> usage_schema \<Rightarrow> bool \<Rightarrow> task_tier list option" where
  "readTaskTierChain (Conditional c y e a b) schema includeBoolean =
     (case taskConditions c schema includeBoolean of
        None \<Rightarrow> None
      | Some conditions \<Rightarrow>
          (case taskTier y conditions schema of
             None \<Rightarrow> None
           | Some tier \<Rightarrow> map_option (\<lambda>tiers. tier # tiers) (readTaskTierChain e schema includeBoolean)))"
| "readTaskTierChain n schema includeBoolean = map_option (\<lambda>tier. [tier]) (taskTier n [] schema)"

end
