(* ===== verification/Display_Facts.thy ===== *)
theory Display_Facts
  imports Billing_Display
begin

text \<open>
  What the summaries of \<open>Billing_Display\<close> say about an evaluation: the first tier
  whose conditions hold is the tier the interpreter matches, its prices account
  for the cost, and the tiers shown for a time are the ones billed at that time.
\<close>

subsection \<open>Evaluating the nodes a summary is read from\<close>

lemma evaluate_Literal:
  "evaluate rt (Literal v i a b) st = Inr (w, st') \<Longrightarrow> w = (literal_json v, i) \<and> st' = st"
  by (auto simp: evaluate_Inr_iff)

definition token_value :: "simulation_context \<Rightarrow> jstring \<Rightarrow> number option" where
  "token_value cx x =
     (case (case cx_tokens cx of Some ts \<Rightarrow> map_of ts x | None \<Rightarrow> None) of Some (JNum v) \<Rightarrow> Some v | _ \<Rightarrow> None)"

lemma evaluate_Variable:
  assumes "evaluate rt (Variable x a b) st = Inr (w, st')"
  shows "st' = st" "\<exists>v. w = (JNum v, False) \<and> (x \<noteq> lit ''image_count'' \<longrightarrow> token_value (rt_context rt) x = Some v)"
  using assms
  by (auto simp: evaluate_Inr_iff eval_variable_def token_value_def Let_def err_simps
      split: if_splits option.splits json.splits)

lemma evaluate_Binary:
  assumes "evaluate rt (Binary p l r a b) st = Inr (w, st')" "p \<noteq> lit ''&&''" "p \<noteq> lit ''||''"
  obtains u v s1 s2 s3 where "evaluate rt l s1 = Inr (u, s2)" "evaluate rt r s2 = Inr (v, s3)"
    "binary_op p u v a = Inr w" "s1 = st\<lparr>rs_depth := Suc (rs_depth st)\<rparr>" "st' = s3\<lparr>rs_depth := rs_depth s3 - 1\<rparr>"
  using assms by (auto simp: evaluate_Inr_iff [of rt "Binary p l r a b"] err_simps)

lemma evaluate_Call_two:
  assumes "evaluate rt (Call f (x # y # ys) a b) st = Inr (w, st')" "f \<in> set TWO_ARGUMENTS"
  obtains u v s1 s2 s3 s4 where "evaluate rt x s1 = Inr (u, s2)" "evaluate rt y s2 = Inr (v, s3)"
    "call_two f x u y v s3 = Inr (w, s4)" "s1 = st\<lparr>rs_depth := Suc (rs_depth st)\<rparr>"
    "st' = s4\<lparr>rs_depth := rs_depth s4 - 1\<rparr>"
  using assms by (auto simp: evaluate_Inr_iff [of rt "Call f (x # y # ys) a b"] err_simps)

lemma evaluate_Call_one:
  assumes "evaluate rt (Call f (x # xs) a b) st = Inr (w, st')" "f \<in> set ONE_ARGUMENT" "f \<notin> set TWO_ARGUMENTS"
  obtains u s1 s2 s3 where "evaluate rt x s1 = Inr (u, s2)" "call_one rt f a x u s2 = Inr (w, s3)"
    "s1 = st\<lparr>rs_depth := Suc (rs_depth st)\<rparr>" "st' = s3\<lparr>rs_depth := rs_depth s3 - 1\<rparr>"
  using assms by (auto simp: evaluate_Inr_iff [of rt "Call f (x # xs) a b"] err_simps)

lemma evaluate_Conditional:
  assumes "evaluate rt (Conditional c y e a b) st = Inr (w, st')"
  obtains u cond s1 s2 where "evaluate rt c (st\<lparr>rs_depth := Suc (rs_depth st)\<rparr>) = Inr (u, s1)" "as_boolean c u = Inr cond"
    "(if cond then evaluate rt y (s1\<lparr>rs_requestRules := mark_rule (Conditional c y e a b)
        (ce_requestRules (rt_compiled rt)) (rs_requestRules s1)\<rparr>) else evaluate rt e s1) = Inr (w, s2)"
    "st' = s2\<lparr>rs_depth := rs_depth s2 - 1\<rparr>"
  using assms by (auto simp: evaluate_Inr_iff [of rt "Conditional c y e a b"] err_simps)

lemma evaluate_And:
  assumes "evaluate rt (Binary (lit ''&&'') l r a b) st = Inr (w, st')"
  obtains u x s1 s2 where "evaluate rt l (st\<lparr>rs_depth := Suc (rs_depth st)\<rparr>) = Inr (u, s1)" "as_boolean l u = Inr x"
    "if x then (\<exists>v y. evaluate rt r s1 = Inr (v, s2) \<and> as_boolean r v = Inr y \<and> w = (JBool y, False))
     else s2 = s1 \<and> w = (JBool False, False)"
    "st' = s2\<lparr>rs_depth := rs_depth s2 - 1\<rparr>"
proof -
  from assms obtain s2 where n: "st' = s2\<lparr>rs_depth := rs_depth s2 - 1\<rparr>"
    "evaluateNode rt (Binary (lit ''&&'') l r a b) (st\<lparr>rs_depth := Suc (rs_depth st)\<rparr>) = Inr (w, s2)"
    by (auto simp: evaluate_Inr_iff)
  then obtain u x s1 where e: "evaluate rt l (st\<lparr>rs_depth := Suc (rs_depth st)\<rparr>) = Inr (u, s1)" "as_boolean l u = Inr x"
    "(if \<not> x then Inr ((JBool False, False), s1)
      else ebind (evaluate rt r s1) (\<lambda>(v, st2). ebind (as_boolean r v) (\<lambda>y. Inr ((JBool y, False), st2)))) = Inr (w, s2)"
    by (auto simp: ebind_Inr_iff)
  then show ?thesis using n(1) by (intro that [OF e(1,2) _ n(1)]) (auto simp: err_simps)
qed

lemma evaluate_Or:
  assumes "evaluate rt (Binary (lit ''||'') l r a b) st = Inr (w, st')"
  obtains u x s1 s2 where "evaluate rt l (st\<lparr>rs_depth := Suc (rs_depth st)\<rparr>) = Inr (u, s1)" "as_boolean l u = Inr x"
    "if x then s2 = s1 \<and> w = (JBool True, False)
     else (\<exists>v y. evaluate rt r s1 = Inr (v, s2) \<and> as_boolean r v = Inr y \<and> w = (JBool y, False))"
    "st' = s2\<lparr>rs_depth := rs_depth s2 - 1\<rparr>"
proof -
  from assms obtain s2 where n: "st' = s2\<lparr>rs_depth := rs_depth s2 - 1\<rparr>"
    "evaluateNode rt (Binary (lit ''||'') l r a b) (st\<lparr>rs_depth := Suc (rs_depth st)\<rparr>) = Inr (w, s2)"
    by (auto simp: evaluate_Inr_iff)
  then obtain u x s1 where e: "evaluate rt l (st\<lparr>rs_depth := Suc (rs_depth st)\<rparr>) = Inr (u, s1)" "as_boolean l u = Inr x"
    "(if x then Inr ((JBool True, False), s1)
      else ebind (evaluate rt r s1) (\<lambda>(v, st2). ebind (as_boolean r v) (\<lambda>y. Inr ((JBool y, False), st2)))) = Inr (w, s2)"
    by (auto simp: ebind_Inr_iff)
  then show ?thesis using n(1) by (intro that [OF e(1,2) _ n(1)]) (auto simp: err_simps)
qed

lemma as_boolean_Inr: "as_boolean n v = Inr x \<longleftrightarrow> fst v = JBool x"
  by (auto simp: as_boolean_def split: json.splits)

lemma those_append: "those (xs @ ys) = Some zs \<longleftrightarrow> (\<exists>as bs. those xs = Some as \<and> those ys = Some bs \<and> zs = as @ bs)"
  by (induction xs arbitrary: zs) (auto split: option.splits)

subsection \<open>The interface of a tier chain\<close>

text \<open>
  What a reader of an ordered chain promises: every condition it accepts
  evaluates to whether the condition holds, without an effect, and every tier it
  accepts is billed as read. Then the first tier whose conditions hold is billed.
\<close>

locale tier_reader =
  fixes condition :: "node \<Rightarrow> 'c option" and tier :: "node \<Rightarrow> 'c list \<Rightarrow> 't option" and chain :: "node \<Rightarrow> 't list option"
    and holds :: "simulation_context \<Rightarrow> 'c \<Rightarrow> bool" and tier_conditions :: "'t \<Rightarrow> 'c list"
    and billed :: "simulation_context \<Rightarrow> 't \<Rightarrow> json \<Rightarrow> runtime_state \<Rightarrow> bool"
    and start :: "runtime_state \<Rightarrow> bool"
  assumes chain_Conditional: "chain (Conditional g y e a b) =
      (case those (map condition (flattenBinary g (lit ''&&''))) of
         None \<Rightarrow> None
       | Some cs \<Rightarrow> (case tier y cs of None \<Rightarrow> None | Some t \<Rightarrow> map_option (\<lambda>ts. t # ts) (chain e)))"
    and chain_other: "(\<And>c y e a b. n \<noteq> Conditional c y e a b) \<Longrightarrow> chain n = map_option (\<lambda>t. [t]) (tier n [])"
    and condition_sound: "condition n = Some c \<Longrightarrow> evaluate rt n st = Inr ((v, i), st') \<Longrightarrow>
      v = JBool (holds (rt_context rt) c) \<and> st' = st"
    and tier_conditions: "tier n cs = Some t \<Longrightarrow> tier_conditions t = cs"
    and tier_sound: "tier n cs = Some t \<Longrightarrow> start st \<Longrightarrow> evaluate rt n st = Inr ((v, i), st') \<Longrightarrow>
      billed (rt_context rt) t v st'"
    and billed_depth: "billed cx t v (st\<lparr>rs_depth := d\<rparr>) = billed cx t v st"
    and start_upd: "start (st\<lparr>rs_depth := d\<rparr>) = start st" "start (st\<lparr>rs_requestRules := rs\<rparr>) = start st"
begin

lemma conditions_sound:
  "those (map condition (flattenBinary n (lit ''&&''))) = Some cs \<Longrightarrow> evaluate rt n st = Inr ((v, i), st') \<Longrightarrow>
     v = JBool (list_all (holds (rt_context rt)) cs) \<and> st' = st"
proof (induction n "lit ''&&''" arbitrary: cs st v i st' rule: flattenBinary.induct)
  case (1 p l r a b)
  show ?case
  proof (cases "p = lit ''&&''")
    case True
    then obtain as bs where cs: "those (map condition (flattenBinary l (lit ''&&''))) = Some as"
      "those (map condition (flattenBinary r (lit ''&&''))) = Some bs" "cs = as @ bs"
      using 1(3) by (auto simp: those_append)
    obtain u x s1 s2 where e: "evaluate rt l (st\<lparr>rs_depth := Suc (rs_depth st)\<rparr>) = Inr (u, s1)" "as_boolean l u = Inr x"
      "if x then (\<exists>w y. evaluate rt r s1 = Inr (w, s2) \<and> as_boolean r w = Inr y \<and> (v, i) = (JBool y, False))
       else s2 = s1 \<and> (v, i) = (JBool False, False)"
      "st' = s2\<lparr>rs_depth := rs_depth s2 - 1\<rparr>"
      using evaluate_And [OF 1(4) [unfolded True]] .
    obtain u' j where u: "u = (u', j)" by (cases u)
    have l: "x = list_all (holds (rt_context rt)) as" "s1 = st\<lparr>rs_depth := Suc (rs_depth st)\<rparr>"
      using 1(1) [OF _ cs(1) e(1) [unfolded u]] True e(2) u by (auto simp: as_boolean_Inr)
    have r: "w = JBool (list_all (holds (rt_context rt)) bs) \<and> s2 = s1" if "evaluate rt r s1 = Inr ((w, k), s2)" for w k
      using 1(2) [OF _ cs(2) that] True by auto
    show ?thesis
    proof (cases x)
      case True
      then obtain k y where "evaluate rt r s1 = Inr ((JBool y, k), s2)" "v = JBool y"
        using e(3) by (auto simp: as_boolean_Inr)
      then show ?thesis using r [of "JBool y" k] e(4) l cs(3) True by simp
    qed (use e(3,4) l cs(3) in simp)
  next
    case False
    then show ?thesis using 1(3,4) condition_sound by (auto split: option.splits)
  qed
qed (auto split: option.splits dest: condition_sound)

theorem chain_sound:
  "chain n = Some ts \<Longrightarrow> start st \<Longrightarrow> evaluate rt n st = Inr ((v, i), st') \<Longrightarrow>
     \<exists>t. find (\<lambda>t. list_all (holds (rt_context rt)) (tier_conditions t)) ts = Some t \<and> billed (rt_context rt) t v st'"
proof (induction n arbitrary: ts st v i st' rule: node_tree_induct)
  case (node n)
  show ?case
  proof (cases n)
    case (Conditional c y e a b)
    then obtain cs t us where c: "those (map condition (flattenBinary c (lit ''&&''))) = Some cs" "tier y cs = Some t"
        "chain e = Some us" "ts = t # us"
      using node.prems(1) by (auto simp: chain_Conditional split: option.splits)
    let ?s = "st\<lparr>rs_depth := Suc (rs_depth st)\<rparr>"
    let ?m = "\<lambda>s. s\<lparr>rs_requestRules := mark_rule n (ce_requestRules (rt_compiled rt)) (rs_requestRules s)\<rparr>"
    obtain w j s1 cond s2 where e: "evaluate rt c ?s = Inr ((w, j), s1)" "as_boolean c (w, j) = Inr cond"
      "(if cond then evaluate rt y (?m s1) else evaluate rt e s1) = Inr ((v, i), s2)"
      "st' = s2\<lparr>rs_depth := rs_depth s2 - 1\<rparr>"
      using evaluate_Conditional [OF node.prems(3) [unfolded Conditional]] unfolding Conditional by (metis surj_pair)
    have s: "w = JBool (list_all (holds (rt_context rt)) cs)" "s1 = ?s" using conditions_sound [OF c(1) e(1)] by auto
    then have "cond = list_all (holds (rt_context rt)) cs" using e(2) by (simp add: as_boolean_Inr)
    moreover have "start s1" "start (?m s1)" using node.prems(2) s(2) by (simp_all add: start_upd)
    ultimately show ?thesis
      using tier_sound [OF c(2), of "?m s1" rt v i s2] node.IH [of e us s1 v i s2] e(3,4) c tier_conditions [OF c(2)]
      by (cases cond) (auto simp: billed_depth Conditional)
  qed (use node.prems tier_sound tier_conditions in \<open>auto simp: chain_other billed_depth\<close>)
qed

end

subsection \<open>Token tiers\<close>

definition condition_holds :: "simulation_context \<Rightarrow> tier_condition \<Rightarrow> bool" where
  "condition_holds cx c =
     (case token_value cx (tc_var c) of
        Some v \<Rightarrow> compare_values (tc_op c) (JNum v) (JNum (tc_value c)) = Some True
      | None \<Rightarrow> False)"

lemma token_condition_sound:
  assumes "token_condition n = Some c" "evaluate rt n st = Inr ((v, i), st')"
  shows "v = JBool (condition_holds (rt_context rt) c) \<and> st' = st"
proof -
  obtain p x a b w k d e s t where n: "n = Binary p (Variable x a b) (Literal (LNumber w) k d e) s t"
    "c = \<lparr>tc_var = x, tc_op = p, tc_value = w\<rparr>" "p \<in> {lit ''<'', lit ''<='', lit ''>'', lit ''>=''}"
    "x \<noteq> lit ''image_count''"
    using assms(1) by (auto simp: token_condition_def split: node.splits literal_value.splits if_splits)
  obtain u u' s1 s2 s3 where e: "evaluate rt (Variable x a b) s1 = Inr (u, s2)"
      "evaluate rt (Literal (LNumber w) k d e) s2 = Inr (u', s3)" "binary_op p u u' s = Inr (v, i)"
      "s1 = st\<lparr>rs_depth := Suc (rs_depth st)\<rparr>" "st' = s3\<lparr>rs_depth := rs_depth s3 - 1\<rparr>"
    using assms(2) n(3) unfolding n(1) by (auto elim: evaluate_Binary)
  then obtain y where y: "u = (JNum y, False)" "token_value (rt_context rt) x = Some y" "s2 = s1" "s3 = s2"
      "u' = (JNum w, k)"
    using evaluate_Variable [OF e(1)] evaluate_Literal [OF e(2)] n(4) by (auto simp: literal_json_def)
  then show ?thesis
    using e(3-5) n(2,3) by (auto simp: condition_holds_def binary_op_def compare_values_def)
qed

text \<open>An expression without \<open>tier\<close> and \<open>fixed\<close> leaves what is billed alone.\<close>

definition same_billing :: "runtime_state \<Rightarrow> runtime_state \<Rightarrow> bool" where
  "same_billing st st' \<longleftrightarrow>
     rs_matchedTier st' = rs_matchedTier st \<and> rs_billingUnit st' = rs_billingUnit st \<and> rs_fixedPrice st' = rs_fixedPrice st"

interpretation billing_step: runtime_steps_on "\<lambda>rt st st'. same_billing st st'" "- {lit ''tier'', lit ''fixed''}"
  by unfold_locales (auto simp: same_billing_def)

text \<open>The quantity charged for a variable: its tokens, or for \<open>p\<close> the remainder of \<open>len\<close> without \<open>ai\<close>.\<close>

definition charged :: "simulation_context \<Rightarrow> jstring \<Rightarrow> number \<Rightarrow> bool" where
  "charged cx x q \<longleftrightarrow>
     token_value cx x = Some q \<or>
     x = lit ''p'' \<and>
       (\<exists>l a z. token_value cx (lit ''len'') = Some l \<and> token_value cx (lit ''ai'') = Some a \<and> num_eq z (Fin 0) \<and>
         (q = math_max (num_sub l a) z \<or> q = math_max z (num_sub l a)))"

lemma num_eq_zero_neg: "num_eq v (Fin 0) \<Longrightarrow> num_eq (num_neg v) NegZero"
  by (cases v) (auto simp: num_eq_def num_neg_def isFinite_def)

lemma num_eq_nonnegative: "num_le (Fin 0) v \<Longrightarrow> num_eq v v"
  by (auto simp: num_le_def num_eq_def num_lt_def split: number.splits)

definition priced :: "simulation_context \<Rightarrow> jstring \<times> number \<Rightarrow> number \<Rightarrow> bool" where
  "priced cx r a \<longleftrightarrow> (\<exists>q p. charged cx (fst r) q \<and> num_eq p (snd r) \<and> a = num_mul q p)"

lemma price_literal:
  assumes "nonnegativePriceLiteral n = Some price" "evaluate rt n st = Inr (w, st')"
  shows "\<exists>q i. w = (JNum q, i) \<and> num_eq q price"
proof (cases n)
  case (Unary p e a b)
  then obtain v i s t where n: "n = Unary (lit ''-'') (Literal (LNumber v) i s t) a b" "num_eq v (Fin 0)" "price = NegZero"
    using assms(1) by (auto simp: nonnegativePriceLiteral_def split: node.splits literal_value.splits if_splits)
  obtain u s1 s2 where "evaluate rt (Literal (LNumber v) i s t) s1 = Inr (u, s2)"
    "\<forall>x. as_numeric (Literal (LNumber v) i s t) u = Inr x \<longrightarrow> w = (JNum (num_neg x), snd u)"
    using assms(2) unfolding n(1)
    by (auto simp: evaluate_Inr_iff [of rt "Unary _ _ _ _"] err_simps)
  then show ?thesis
    using evaluate_Literal [of rt "LNumber v" i s t s1 u s2] num_eq_zero_neg [OF n(2)] n(3)
    by (auto simp: literal_json_def as_numeric_def)
next
  case (Literal v i a b)
  then show ?thesis using assms evaluate_Literal [of rt v i a b st w st']
    by (auto simp: nonnegativePriceLiteral_def literal_json_def num_eq_nonnegative
        split: literal_value.splits if_splits)
qed (use assms(1) in \<open>auto simp: nonnegativePriceLiteral_def\<close>)

lemma price_variable_charged:
  assumes "price_variable n = Some x" "evaluate rt n st = Inr (w, st')"
  shows "\<exists>q. w = (JNum q, False) \<and> charged (rt_context rt) x q"
proof (cases n)
  case (Variable y a b)
  then show ?thesis
    using assms evaluate_Variable(2) [of rt y a b st w st'] by (auto simp: price_variable_def charged_def split: if_splits)
next
  case (Call f args a b)
  then obtain a1 a2 where args: "args = [a1, a2]" "f = lit ''max''"
    using assms(1) by (auto simp: price_variable_def split: list.splits if_splits)
  obtain u v s1 s2 s3 s4 where e: "evaluate rt a1 s1 = Inr (u, s2)" "evaluate rt a2 s2 = Inr (v, s3)"
    "call_two f a1 u a2 v s3 = Inr (w, s4)"
    using assms(2) unfolding Call args by (auto elim!: evaluate_Call_two simp: TWO_ARGUMENTS_def)
  define z d where "z = (if is_zero_literal a1 then a1 else a2)" "d = (if is_zero_literal a1 then a2 else a1)"
  then have z: "x = lit ''p''" "is_zero_literal z" "(z, d) \<in> {(a1, a2), (a2, a1)}"
    "\<exists>p q r s i j. d = Binary (lit ''-'') (Variable (lit ''len'') p q) (Variable (lit ''ai'') r s) i j"
    using assms(1) unfolding Call args
    by (auto simp: price_variable_def Let_def is_variable_def split: option.splits node.splits if_splits)
  have zero: "\<exists>k i. y = (JNum k, i) \<and> num_eq k (Fin 0)" if "evaluate rt z s = Inr (y, s')" for y s s'
    using z(2) that by (auto simp: is_zero_literal_def literal_json_def split: node.splits literal_value.splits
        dest!: evaluate_Literal)
  have diff: "\<exists>l a i. y = (JNum (num_sub l a), i) \<and> token_value (rt_context rt) (lit ''len'') = Some l \<and>
      token_value (rt_context rt) (lit ''ai'') = Some a" if "evaluate rt d s = Inr (y, s')" for y s s'
  proof -
    from z(4) obtain p q r t i j where d: "d = Binary (lit ''-'') (Variable (lit ''len'') p q) (Variable (lit ''ai'') r t) i j"
      by blast
    have e: "evaluate rt (Binary (lit ''-'') (Variable (lit ''len'') p q) (Variable (lit ''ai'') r t) i j) s = Inr (y, s')"
      using that d by simp
    obtain l a s1 s2 s3 where "evaluate rt (Variable (lit ''len'') p q) s1 = Inr (l, s2)"
      "evaluate rt (Variable (lit ''ai'') r t) s2 = Inr (a, s3)" "binary_op (lit ''-'') l a i = Inr y"
      by (rule evaluate_Binary [OF e]) auto
    then show ?thesis using evaluate_Variable(2) [of rt "lit ''len''" p q s1 l s2] evaluate_Variable(2) [of rt "lit ''ai''" r t s2 a s3]
      by (auto simp: binary_op_def compare_values_def arithmetic_def)
  qed
  from z(3) consider "z = a1" "d = a2" | "z = a2" "d = a1" by auto
  then show ?thesis
  proof cases
    case 1
    then show ?thesis using zero [of s1 u s2] diff [of s2 v s3] e z(1) args(2)
      by (auto simp: charged_def call_two_def as_numeric_def; blast)
  next
    case 2
    then show ?thesis using zero [of s2 v s3] diff [of s1 u s2] e z(1) args(2)
      by (auto simp: charged_def call_two_def as_numeric_def; blast)
  qed
qed (use assms(1) in \<open>auto simp: price_variable_def\<close>)

lemma num_mul_commute: "num_mul a b = num_mul b a"
proof -
  have "(num_negative a = (\<not> num_negative b)) = (num_negative b = (\<not> num_negative a))" by auto
  then show ?thesis by (simp add: num_mul_def Let_def conj_ac disj_ac mult.commute)
qed

lemma price_term_charged:
  assumes "price_term n = Some (x, price)" "evaluate rt n st = Inr (w, st')"
  shows "\<exists>q p i. w = (JNum (num_mul q p), i) \<and> charged (rt_context rt) x q \<and> num_eq p price"
proof -
  obtain l r a b where n: "n = Binary (lit ''*'') l r a b"
    using assms(1) by (auto simp: price_term_def split: node.splits if_splits)
  have p: "nonnegativePriceLiteral r = Some price \<and> price_variable l = Some x \<or>
      nonnegativePriceLiteral l = Some price \<and> price_variable r = Some x"
    using assms(1) by (auto simp: n price_term_def split: option.splits)
  obtain u v s1 s2 s3 where e: "evaluate rt l s1 = Inr (u, s2)" "evaluate rt r s2 = Inr (v, s3)"
    "binary_op (lit ''*'') u v a = Inr w"
    by (rule evaluate_Binary [OF assms(2) [unfolded n]]) auto
  have op: "\<exists>i. w = (JNum (num_mul y z), i)" if "fst u = JNum y" "fst v = JNum z" for y z
    using e(3) that by (auto simp: binary_op_def compare_values_def arithmetic_def)
  from p show ?thesis
  proof
    assume "nonnegativePriceLiteral r = Some price \<and> price_variable l = Some x"
    then show ?thesis using price_literal [OF _ e(2)] price_variable_charged [OF _ e(1)] op by fastforce
  next
    assume "nonnegativePriceLiteral l = Some price \<and> price_variable r = Some x"
    then show ?thesis using price_literal [OF _ e(1)] price_variable_charged [OF _ e(2)] op num_mul_commute
      by fastforce
  qed
qed

text \<open>A sum of doubles in their order, with parentheses anywhere.\<close>

inductive sum_of :: "number list \<Rightarrow> number \<Rightarrow> bool" where
  one: "sum_of [x] x"
| add: "sum_of xs x \<Longrightarrow> sum_of ys y \<Longrightarrow> sum_of (xs @ ys) (num_add x y)"

definition term_value :: "runtime \<Rightarrow> node \<Rightarrow> number \<Rightarrow> bool" where
  "term_value rt n v \<longleftrightarrow> (\<exists>s i s'. evaluate rt n s = Inr ((JNum v, i), s'))"

definition numeric_term :: "runtime \<Rightarrow> node \<Rightarrow> bool" where
  "numeric_term rt n \<longleftrightarrow> (\<forall>s v i s'. evaluate rt n s = Inr ((v, i), s') \<longrightarrow> (\<exists>x. v = JNum x))"

lemma one_term:
  "evaluate rt n st = Inr ((JNum x, i), st') \<Longrightarrow> \<exists>vs. sum_of vs x \<and> list_all2 (term_value rt) [n] vs"
  by (rule exI [of _ "[x]"]) (auto simp: term_value_def intro: sum_of.one)

lemma sum_terms:
  assumes "\<forall>m \<in> set (flattenBinary n (lit ''+'')). numeric_term rt m"
    and "evaluate rt n st = Inr ((v, i), st')"
  shows "\<exists>x vs. v = JNum x \<and> sum_of vs x \<and> list_all2 (term_value rt) (flattenBinary n (lit ''+'')) vs"
  using assms
proof (induction n "lit ''+''" arbitrary: st v i st' rule: flattenBinary.induct)
  case (1 p l r a b)
  show ?case
  proof (cases "p = lit ''+''")
    case True
    obtain u j w k s1 s2 s3 where e: "evaluate rt l s1 = Inr ((u, j), s2)" "evaluate rt r s2 = Inr ((w, k), s3)"
      "binary_op p (u, j) (w, k) a = Inr (v, i)"
      by (rule evaluate_Binary [OF 1(4)]) (auto simp: True)
    obtain x xs where l: "u = JNum x" "sum_of xs x" "list_all2 (term_value rt) (flattenBinary l (lit ''+'')) xs"
      using 1(1) [OF _ _ e(1)] 1(3) True by auto
    obtain y ys where r: "w = JNum y" "sum_of ys y" "list_all2 (term_value rt) (flattenBinary r (lit ''+'')) ys"
      using 1(2) [OF _ _ e(2)] 1(3) True by auto
    have "v = JNum (num_add x y)" using e(3) l(1) r(1) True
      by (auto simp: binary_op_def compare_values_def arithmetic_def)
    then show ?thesis using sum_of.add [OF l(2) r(2)] list_all2_appendI [OF l(3) r(3)] True by auto
  next
    case False
    then have "numeric_term rt (Binary p l r a b)" using 1(3) by simp
    then obtain x where "v = JNum x" using 1(4) unfolding numeric_term_def by blast
    then show ?thesis using one_term 1(4) False by simp
  qed
qed (simp_all only: flattenBinary.simps list.set ball_simps numeric_term_def, (metis one_term)+)

lemma token_prices_terms:
  assumes "token_prices ts ps = Some qs"
  shows "\<exists>rs. qs = ps @ rs \<and> list_all2 (\<lambda>t r. price_term t = Some r) ts rs"
  using assms
proof (induction ts arbitrary: ps)
  case (Cons t ts)
  then obtain x p where t: "price_term t = Some (x, p)" "token_prices ts (ps @ [(x, p)]) = Some qs"
    by (auto split: option.splits if_splits prod.splits)
  show ?case using Cons.IH [OF t(2)] t(1) by auto
qed simp

lemma called_functions_simps [simp]:
  "called_functions (Literal v i a b) = {}"
  "called_functions (Variable x a b) = {}"
  "called_functions (Unary p e a b) = called_functions e"
  "called_functions (Binary p l r a b) = called_functions l \<union> called_functions r"
  "called_functions (Conditional c y e a b) = called_functions c \<union> called_functions y \<union> called_functions e"
  "called_functions (Call f ns a b) = insert f (\<Union>(called_functions ` set ns))"
  by (auto simp: called_functions_def subnodes.simps [of "Literal _ _ _ _"] subnodes.simps [of "Variable _ _ _"]
      subnodes.simps [of "Unary _ _ _ _"] subnodes.simps [of "Binary _ _ _ _ _"]
      subnodes.simps [of "Conditional _ _ _ _ _"] subnodes.simps [of "Call _ _ _ _"])

lemma price_term_calls:
  assumes "price_term n = Some r"
  shows "called_functions n \<subseteq> {lit ''max''}"
proof -
  have "called_functions m \<subseteq> {lit ''max''}" if "price_variable m = Some x" for m x
    using that
    by (auto simp: price_variable_def is_variable_def is_zero_literal_def Let_def
        split: node.splits list.splits literal_value.splits if_splits)
  moreover have "called_functions m = {}" if "nonnegativePriceLiteral m = Some x" for m x
    using that by (auto simp: nonnegativePriceLiteral_def split: node.splits literal_value.splits if_splits)
  ultimately show ?thesis
    using assms by (fastforce simp: price_term_def split: node.splits if_splits option.splits)
qed

lemma flatten_calls: "called_functions n = (\<Union>m \<in> set (flattenBinary n operator). called_functions m)"
  by (induction n operator rule: flattenBinary.induct) auto

definition token_start :: "runtime_state \<Rightarrow> bool" where
  "token_start st \<longleftrightarrow> rs_billingUnit st = U_token \<and> rs_fixedPrice st = None"

text \<open>What a summary of a tier promises: label, billing unit, fixed price, and prices that make up the cost.\<close>

definition tier_billed :: "simulation_context \<Rightarrow> token_tier \<Rightarrow> json \<Rightarrow> runtime_state \<Rightarrow> bool" where
  "tier_billed cx t v st \<longleftrightarrow>
     rs_matchedTier st = tt_label t \<and> rs_fixedPrice st = tt_fixedPrice t \<and>
     rs_billingUnit st = (case tt_billingUnit t of Some u \<Rightarrow> u | None \<Rightarrow> U_token) \<and>
     (\<exists>cost. v = JNum cost \<and>
       (case tt_fixedPrice t of
          Some price \<Rightarrow> cost = num_mul price (Fin 1000000)
        | None \<Rightarrow> \<exists>amounts. sum_of amounts cost \<and>
            list_all2 (priced cx) (tt_prices t) amounts))"

lemma token_prices_charged:
  assumes "token_prices (flattenBinary n (lit ''+'')) [] = Some prices" "evaluate rt n st = Inr ((v, i), st')"
  shows "same_billing st st'" "\<exists>cost amounts. v = JNum cost \<and> sum_of amounts cost \<and>
    list_all2 (priced (rt_context rt)) prices amounts"
proof -
  have t: "list_all2 (\<lambda>t r. price_term t = Some r) (flattenBinary n (lit ''+'')) prices"
    using token_prices_terms [OF assms(1)] by simp
  then have each: "\<exists>r. price_term m = Some r" if "m \<in> set (flattenBinary n (lit ''+''))" for m
    using that by (auto simp: list_all2_conv_all_nth in_set_conv_nth)
  have "called_functions n \<subseteq> - {lit ''tier'', lit ''fixed''}"
    using each price_term_calls by (subst flatten_calls [of n "lit ''+''"]) fastforce
  then show "same_billing st st'" by (rule billing_step.evaluate_on [OF assms(2)])
  have "\<forall>m \<in> set (flattenBinary n (lit ''+'')). numeric_term rt m"
    using each price_term_charged unfolding numeric_term_def by (metis Pair_inject surj_pair)
  from sum_terms [OF this assms(2)] obtain x vs where s: "v = JNum x" "sum_of vs x"
    "list_all2 (term_value rt) (flattenBinary n (lit ''+'')) vs" by blast
  have "list_all2 (priced (rt_context rt)) prices vs"
  proof (rule list_all2_trans [OF _ _ s(3)])
    show "list_all2 (\<lambda>r t. price_term t = Some r) prices (flattenBinary n (lit ''+''))"
      using t by (simp add: list_all2_conv_all_nth)
    fix r m a
    assume "price_term m = Some r" "term_value rt m a"
    then show "priced (rt_context rt) r a"
      using price_term_charged [of m "fst r" "snd r" rt] by (fastforce simp: priced_def term_value_def)
  qed
  then show "\<exists>cost amounts. v = JNum cost \<and> sum_of amounts cost \<and>
    list_all2 (priced (rt_context rt)) prices amounts"
    using s by blast
qed

lemma tokenTier_sound:
  assumes "tokenTier n cs = Some t" "token_start st" "evaluate rt n st = Inr ((v, i), st')"
  shows "tier_billed (rt_context rt) t v st'"
proof -
  obtain label a1 a2 a3 body rest s e where n: "n = Call (lit ''tier'') (Literal (LString label) a1 a2 a3 # body # rest) s e"
    using assms(1) by (auto simp: tokenTier_def split: node.splits list.splits literal_value.splits if_splits)
  obtain u w s1 s2 s3 s4 where c: "evaluate rt (Literal (LString label) a1 a2 a3) s1 = Inr (u, s2)"
      "evaluate rt body s2 = Inr (w, s3)" "call_two (lit ''tier'') (Literal (LString label) a1 a2 a3) u body w s3 = Inr ((v, i), s4)"
      "s1 = st\<lparr>rs_depth := Suc (rs_depth st)\<rparr>" "st' = s4\<lparr>rs_depth := rs_depth s4 - 1\<rparr>"
    by (rule evaluate_Call_two [OF assms(3) [unfolded n]]) (auto simp: TWO_ARGUMENTS_def)
  have s2: "s2 = s1" "u = (JStr label, a1)" using evaluate_Literal [OF c(1)] by (simp_all add: literal_json_def)
  have s4: "fst w = v" "s4 = s3\<lparr>rs_matchedTier := label\<rparr>"
    using c(3) s2(2) by (auto simp: call_two_def as_string_def as_numeric_def err_simps split: json.splits)
  have start: "token_start s2" using assms(2) c(4) s2(1) by (simp add: token_start_def)
  have lab: "tt_label t = label"
    using assms(1) unfolding n
    by (auto simp: tokenTier_def mk_token_tier_def split: option.splits node.splits list.splits literal_value.splits if_splits)
  show ?thesis
  proof (cases "\<exists>price k l m xs d f. body = Call (lit ''fixed'') (Literal (LNumber price) k l m # xs) d f")
    case True
    then obtain price k l m xs d f where b: "body = Call (lit ''fixed'') (Literal (LNumber price) k l m # xs) d f" by blast
    have t: "tt_fixedPrice t = Some price" "tt_billingUnit t = Some U_request"
      using assms(1) unfolding n b by (auto simp: tokenTier_def)
    obtain x q1 q2 q3 where f: "evaluate rt (Literal (LNumber price) k l m) q1 = Inr (x, q2)"
      "call_one rt (lit ''fixed'') d (Literal (LNumber price) k l m) x q2 = Inr (w, q3)" "s3 = q3\<lparr>rs_depth := rs_depth q3 - 1\<rparr>"
      by (rule evaluate_Call_one [OF c(2) [unfolded b]]) (auto simp: ONE_ARGUMENT_def TWO_ARGUMENTS_def)
    have "fst w = JNum (num_mul price (Fin 1000000))" "rs_fixedPrice s3 = Some price" "rs_billingUnit s3 = U_request"
      using f(2,3) evaluate_Literal [OF f(1)] by (auto simp: call_one_def literal_json_def as_numeric_def)
    then show ?thesis using t lab s4 c(5) by (auto simp: tier_billed_def)
  next
    case False
    then obtain prices where p: "token_prices (flattenBinary body (lit ''+'')) [] = Some prices"
      "t = mk_token_tier label cs prices"
      using assms(1) unfolding n
      by (auto simp: tokenTier_def split: option.splits node.splits list.splits literal_value.splits if_splits)
    have e: "evaluate rt body s2 = Inr ((v, snd w), s3)" using c(2) s4(1) by auto
    have "same_billing s2 s3" by (rule token_prices_charged(1) [OF p(1) e])
    then show ?thesis using token_prices_charged(2) [OF p(1) e] p(2) start s4(2) c(5)
      by (auto simp: tier_billed_def same_billing_def token_start_def mk_token_tier_def)
  qed
qed

interpretation token_chain: tier_reader token_condition tokenTier tier_chain condition_holds tt_conditions tier_billed token_start
proof (unfold_locales, goal_cases)
  case (2 n)
  then show ?case by (cases n) (blast | simp)+
next
  case 3
  then show ?case by (rule token_condition_sound)
next
  case (4 n cs t)
  then show ?case by (auto simp: tokenTier_def mk_token_tier_def
        split: option.splits node.splits list.splits literal_value.splits if_splits)
next
  case 5
  then show ?case by (rule tokenTier_sound)
qed (simp_all add: tokenConditions_def tier_billed_def token_start_def)

text \<open>
  The whole reader: a summary by audio presence and a factor \<open>image_count\<close> as
  well. A tier applies when its condition text for audio, or its token
  conditions, hold.
\<close>

definition audio_present :: "simulation_context \<Rightarrow> jstring \<Rightarrow> bool" where
  "audio_present cx x \<longleftrightarrow> (\<exists>v. token_value cx x = Some v \<and> num_lt (Fin 0) v)"

definition tier_applies :: "simulation_context \<Rightarrow> token_tier \<Rightarrow> bool" where
  "tier_applies cx t =
     (if tt_conditionText t = Some (lit ''Audio requests'')
      then audio_present cx (lit ''ai'') \<or> audio_present cx (lit ''ao'')
      else list_all (condition_holds cx) (tt_conditions t))"

text \<open>What is billed by a tier, the cost only without the image factor.\<close>

definition tier_charged :: "simulation_context \<Rightarrow> token_tier \<Rightarrow> json \<Rightarrow> runtime_state \<Rightarrow> bool" where
  "tier_charged cx t v st \<longleftrightarrow>
     (\<exists>u. tier_billed cx t u st \<and> (tt_imageCount t = None \<longrightarrow> u = v))"

lemma num_lt_cong_zero: "num_eq z (Fin 0) \<Longrightarrow> num_lt z v = num_lt (Fin 0) v"
  by (auto simp: num_eq_def num_lt_def isFinite_def)

lemma audio_part_sound:
  assumes "audio_part n = Some x" "evaluate rt n st = Inr ((v, i), st')"
  shows "v = JBool (audio_present (rt_context rt) x) \<and> st' = st"
proof -
  obtain a b r s t where n: "n = Binary (lit ''>'') (Variable x a b) r s t" "x \<noteq> lit ''image_count''" "is_zero_literal r"
    using assms(1) by (auto simp: audio_part_def split: node.splits if_splits)
  obtain z k d e where r: "r = Literal (LNumber z) k d e" "num_eq z (Fin 0)"
    using n(3) by (auto simp: is_zero_literal_def split: node.splits literal_value.splits)
  obtain u w s1 s2 s3 where e: "evaluate rt (Variable x a b) s1 = Inr (u, s2)" "evaluate rt r s2 = Inr (w, s3)"
      "binary_op (lit ''>'') u w s = Inr (v, i)" "s1 = st\<lparr>rs_depth := Suc (rs_depth st)\<rparr>"
      "st' = s3\<lparr>rs_depth := rs_depth s3 - 1\<rparr>"
    by (rule evaluate_Binary [OF assms(2) [unfolded n(1)]]) auto
  obtain y where "u = (JNum y, False)" "token_value (rt_context rt) x = Some y" "s2 = s1"
    using evaluate_Variable [OF e(1)] n(2) by auto
  moreover have "w = (JNum z, k)" "s3 = s2" using evaluate_Literal [OF e(2) [unfolded r(1)]] by (simp_all add: literal_json_def)
  ultimately show ?thesis using e(3-5) num_lt_cong_zero [OF r(2), of y]
    by (auto simp: binary_op_def compare_values_def audio_present_def)
qed

lemma audio_condition_sound:
  assumes "{audio_part l, audio_part r} = {Some (lit ''ai''), Some (lit ''ao'')}"
    and "evaluate rt (Binary (lit ''||'') l r a b) st = Inr ((v, i), st')"
  shows "v = JBool (audio_present (rt_context rt) (lit ''ai'') \<or> audio_present (rt_context rt) (lit ''ao''))" "st' = st"
proof -
  obtain x y where p: "audio_part l = Some x" "audio_part r = Some y" "{x, y} = {lit ''ai'', lit ''ao''}"
    using assms(1) by (auto simp: doubleton_eq_iff)
  obtain u c s1 s2 where e: "evaluate rt l (st\<lparr>rs_depth := Suc (rs_depth st)\<rparr>) = Inr (u, s1)" "as_boolean l u = Inr c"
    "if c then s2 = s1 \<and> (v, i) = (JBool True, False)
     else (\<exists>w z. evaluate rt r s1 = Inr (w, s2) \<and> as_boolean r w = Inr z \<and> (v, i) = (JBool z, False))"
    "st' = s2\<lparr>rs_depth := rs_depth s2 - 1\<rparr>"
    using evaluate_Or [OF assms(2)] .
  have l: "c = audio_present (rt_context rt) x" "s1 = st\<lparr>rs_depth := Suc (rs_depth st)\<rparr>"
    using audio_part_sound [OF p(1), of rt _ "fst u" "snd u"] e(1,2) by (auto simp: as_boolean_Inr)
  have r: "v = JBool (audio_present (rt_context rt) x \<or> audio_present (rt_context rt) y) \<and> s2 = s1"
  proof (cases c)
    case False
    then obtain z k where "evaluate rt r s1 = Inr ((JBool z, k), s2)" "v = JBool z" using e(3) by (auto simp: as_boolean_Inr)
    then show ?thesis using audio_part_sound [OF p(2)] l(1) False by blast
  qed (use e(3) l in simp)
  show "st' = st" using r e(4) l(2) by simp
  show "v = JBool (audio_present (rt_context rt) (lit ''ai'') \<or> audio_present (rt_context rt) (lit ''ao''))"
    using r p(3) by (auto simp: doubleton_eq_iff)
qed

definition plain_tier :: "token_tier \<Rightarrow> bool" where
  "plain_tier t \<longleftrightarrow> tt_conditionText t = None \<and> tt_imageCount t = None"

lemma tokenTier_plain: "tokenTier n cs = Some t \<Longrightarrow> plain_tier t"
  by (auto simp: plain_tier_def tokenTier_def mk_token_tier_def
      split: option.splits node.splits list.splits literal_value.splits if_splits)

lemma tier_chain_plain: "tier_chain n = Some ts \<Longrightarrow> list_all plain_tier ts"
  by (induction n arbitrary: ts rule: tier_chain.induct) (auto split: option.splits intro: tokenTier_plain)

lemma find_cong_all: "list_all (\<lambda>x. P x = Q x) xs \<Longrightarrow> find P xs = find Q xs"
  by (induction xs) auto

lemma find_map: "find P (map f xs) = map_option f (find (\<lambda>x. P (f x)) xs)"
  by (induction xs) auto

lemma find_Some_set: "find P xs = Some x \<Longrightarrow> x \<in> set xs"
  by (induction xs) (auto split: if_splits)

lemma tier_chain_applies:
  assumes "tier_chain n = Some ts" "token_start st" "evaluate rt n st = Inr ((v, i), st')"
  shows "\<exists>t. find (tier_applies (rt_context rt)) ts = Some t \<and> tier_charged (rt_context rt) t v st'"
proof -
  have "find (tier_applies (rt_context rt)) ts = find (\<lambda>t. list_all (condition_holds (rt_context rt)) (tt_conditions t)) ts"
    using tier_chain_plain [OF assms(1)] by (intro find_cong_all) (auto simp: list_all_iff plain_tier_def tier_applies_def)
  then show ?thesis using token_chain.chain_sound [OF assms] by (auto simp: tier_charged_def)
qed

lemma tier_billed_text [simp]: "tier_billed cx (t\<lparr>tt_conditionText := s\<rparr>) v st = tier_billed cx t v st"
  "tier_billed cx (t\<lparr>tt_imageCount := c\<rparr>) v st = tier_billed cx t v st"
  by (simp_all add: tier_billed_def cong: option.case_cong)

lemma audio_chain_applies:
  assumes "audio_chain n = Some ts" "token_start st" "evaluate rt n st = Inr ((v, i), st')"
  shows "\<exists>t. find (tier_applies (rt_context rt)) ts = Some t \<and> tier_charged (rt_context rt) t v st'"
proof -
  obtain l r a b y e s d au tx where n: "n = Conditional (Binary (lit ''||'') l r a b) y e s d"
      "{audio_part l, audio_part r} = {Some (lit ''ai''), Some (lit ''ao'')}" "tokenTier y [] = Some au" "tokenTier e [] = Some tx"
      "ts = [au\<lparr>tt_conditionText := Some (lit ''Audio requests'')\<rparr>, tx\<lparr>tt_conditionText := Some (lit ''Text-only requests'')\<rparr>]"
    using assms(1) by (auto simp: audio_chain_def split: node.splits option.splits if_splits)
  let ?c = "Binary (lit ''||'') l r a b" and ?s = "st\<lparr>rs_depth := Suc (rs_depth st)\<rparr>"
  let ?m = "\<lambda>z. z\<lparr>rs_requestRules := mark_rule n (ce_requestRules (rt_compiled rt)) (rs_requestRules z)\<rparr>"
  obtain u j cond s1 s2 where c: "evaluate rt ?c ?s = Inr ((u, j), s1)" "as_boolean ?c (u, j) = Inr cond"
    "(if cond then evaluate rt y (?m s1) else evaluate rt e s1) = Inr ((v, i), s2)"
    "st' = s2\<lparr>rs_depth := rs_depth s2 - 1\<rparr>"
    using evaluate_Conditional [OF assms(3) [unfolded n(1)]] unfolding n(1) by (metis surj_pair)
  have p: "cond = (audio_present (rt_context rt) (lit ''ai'') \<or> audio_present (rt_context rt) (lit ''ao''))" "s1 = ?s"
    using audio_condition_sound [OF n(2) c(1)] c(2) by (simp_all add: as_boolean_Inr)
  have start: "token_start (?m s1)" "token_start s1" using assms(2) p(2) by (simp_all add: token_start_def)
  have plain: "tt_conditions tx = []" "tt_imageCount au = None" "tt_imageCount tx = None"
    using tokenTier_plain n(3,4) token_chain.tier_conditions by (auto simp: plain_tier_def)
  have "tier_billed (rt_context rt) (if cond then au else tx) v st'"
    using tokenTier_sound [OF n(3) start(1), of rt v i s2] tokenTier_sound [OF n(4) start(2), of rt v i s2] c(3,4)
    by (cases cond) (simp_all add: token_chain.billed_depth)
  then show ?thesis using p(1) n(5) plain
    by (cases cond) (auto simp: tier_applies_def tier_charged_def)
qed

lemma conditional_chain_applies:
  assumes "(case audio_chain n of Some tiers \<Rightarrow> Some tiers | None \<Rightarrow> tier_chain n) = Some ts" "token_start st"
    "evaluate rt n st = Inr ((v, i), st')"
  shows "\<exists>t. find (tier_applies (rt_context rt)) ts = Some t \<and> tier_charged (rt_context rt) t v st'"
  using assms audio_chain_applies tier_chain_applies by (cases "audio_chain n") auto

lemma tier_applies_image [simp]: "tier_applies cx (t\<lparr>tt_imageCount := c\<rparr>) = tier_applies cx t"
  by (simp add: tier_applies_def)

lemma image_factor_applies:
  assumes "\<exists>t. find (tier_applies cx) ts = Some t \<and> tier_charged cx t u st"
  shows "\<exists>t. find (tier_applies cx) (map (\<lambda>t. t\<lparr>tt_imageCount := Some True\<rparr>) ts) = Some t \<and> tier_charged cx t v st"
  using assms by (fastforce simp: find_map tier_charged_def)

lemma tier_charged_depth: "tier_charged cx t v (st\<lparr>rs_depth := d\<rparr>) = tier_charged cx t v st"
  by (simp add: tier_charged_def token_chain.billed_depth)

lemma token_tiers_apply:
  "readTokenTierChain n = Some ts \<Longrightarrow> token_start st \<Longrightarrow> evaluate rt n st = Inr ((v, i), st') \<Longrightarrow>
     \<exists>t. find (tier_applies (rt_context rt)) ts = Some t \<and> tier_charged (rt_context rt) t v st'"
proof (induction n arbitrary: ts st v i st' rule: readTokenTierChain.induct)
  case (1 p l r a b)
  define image where "image = (p = lit ''*'' \<and> (is_variable ''image_count'' l \<or> is_variable ''image_count'' r))"
  show ?case
  proof (cases image)
    case True
    obtain u j w k s1 s2 s3 where e: "evaluate rt l s1 = Inr ((u, j), s2)" "evaluate rt r s2 = Inr ((w, k), s3)"
        "s1 = st\<lparr>rs_depth := Suc (rs_depth st)\<rparr>" "st' = s3\<lparr>rs_depth := rs_depth s3 - 1\<rparr>"
      by (rule evaluate_Binary [OF 1(5)]) (use True in \<open>auto simp: image_def\<close>)
    have start: "token_start s1" using 1(4) e(3) by (simp add: token_start_def)
    have var: "s' = s" if "is_variable ''image_count'' m" "evaluate rt m s = Inr ((u, j), s')" for m s u j s'
      using that evaluate_Variable(1) by (auto simp: is_variable_def split: node.splits)
    show ?thesis
    proof (cases "is_variable ''image_count'' l")
      case left: True
      then obtain us where "readTokenTierChain r = Some us" "ts = map (\<lambda>t. t\<lparr>tt_imageCount := Some True\<rparr>) us"
        using 1(3) True by (auto simp: image_def)
      then show ?thesis using 1(1) [OF _ _ _ e(2)] left True start var [OF left e(1)] e(4)
          image_factor_applies [of "rt_context rt" us w s3 v]
        by (auto simp: image_def tier_charged_depth)
    next
      case left: False
      then have right: "is_variable ''image_count'' r" using True by (simp add: image_def)
      then obtain us where "readTokenTierChain l = Some us" "ts = map (\<lambda>t. t\<lparr>tt_imageCount := Some True\<rparr>) us"
        using 1(3) True left by (auto simp: image_def)
      then show ?thesis using 1(2) [OF _ _ _ _ e(1)] left right True start var [OF right e(2)] e(4)
          image_factor_applies [of "rt_context rt" us u s2 v]
        by (auto simp: image_def tier_charged_depth)
    qed
  next
    case False
    then have "tier_chain (Binary p l r a b) = Some ts" using 1(3) by (auto simp: image_def)
    then show ?thesis using tier_chain_applies 1(4,5) by blast
  qed
qed (simp_all only: readTokenTierChain.simps, (rule conditional_chain_applies, assumption+)+)

subsection \<open>Properties\<close>

lemma new_runtime_token_start: "new_runtime host c cx = Inr (rt, st) \<Longrightarrow> token_start st"
  by (auto simp: new_runtime_def Let_def err_simps token_start_def)

text \<open>
  C17: the token price summary is what is billed. When an expression has a summary
  and its evaluation succeeds, the first displayed tier whose conditions hold of
  the tokens is the matched tier; the billing unit and the fixed price agree with
  it, and unless a factor \<open>image_count\<close> scales it, the cost is the fixed price, or
  the sum over the displayed prices of price times charged quantity.
\<close>

theorem displayed_token_tier_is_billed:
  assumes "evaluate_compiled host (Ready c) cx = Success e" "readTokenTierChain (ce_ast c) = Some tiers"
  shows "\<exists>t. find (tier_applies cx) tiers = Some t \<and> ev_matchedTier e = tt_label t \<and> ev_fixedPrice e = tt_fixedPrice t \<and>
    ev_billingUnit e = (case tt_billingUnit t of Some u \<Rightarrow> u | None \<Rightarrow> U_token) \<and>
    (tt_imageCount t = None \<longrightarrow>
      (case tt_fixedPrice t of
         Some price \<Rightarrow> ev_cost e = num_mul price (Fin 1000000)
       | None \<Rightarrow> \<exists>amounts. sum_of amounts (ev_cost e) \<and> list_all2 (priced cx) (tt_prices t) amounts))"
proof -
  obtain rt st i st' where n: "new_runtime host c cx = Inr (rt, st)"
    and e: "evaluate rt (ce_ast c) st = Inr ((JNum (ev_cost e), i), st')"
    and r: "ev_matchedTier e = rs_matchedTier st'" "ev_billingUnit e = rs_billingUnit st'" "ev_fixedPrice e = rs_fixedPrice st'"
    by (rule evaluation_run [OF assms(1)]) auto
  obtain t u where "find (tier_applies cx) tiers = Some t" "tier_billed cx t u st'"
      "tt_imageCount t = None \<longrightarrow> u = JNum (ev_cost e)"
    using token_tiers_apply [OF assms(2) new_runtime_token_start [OF n] e] new_runtime_Inr(3) [OF n]
    by (auto simp: tier_charged_def)
  then show ?thesis using r by (cases "tt_fixedPrice t") (auto simp: tier_billed_def)
qed

theorem displayed_token_tier_is_billed_witness:
  "\<exists>e tiers t. evaluate_compiled sample_host (Ready sample_compiled) (tokens_context [(lit ''p'', JNum (Fin 3))]) = Success e \<and>
     readTokenTierChain (ce_ast sample_compiled) = Some tiers \<and> tt_prices (hd tiers) = [(lit ''p'', Fin 2)] \<and>
     find (tier_applies (tokens_context [(lit ''p'', JNum (Fin 3))])) tiers = Some t \<and> ev_matchedTier e = tt_label t"
proof -
  let ?cx = "tokens_context [(lit ''p'', JNum (Fin 3))]"
  have "case evaluate_compiled sample_host (Ready sample_compiled) ?cx of Success e \<Rightarrow> True | _ \<Rightarrow> False" by code_simp
  then obtain e where e: "evaluate_compiled sample_host (Ready sample_compiled) ?cx = Success e"
    by (auto split: evaluation_result.splits)
  have "map_option (\<lambda>ts. tt_prices (hd ts)) (readTokenTierChain (ce_ast sample_compiled)) = Some [(lit ''p'', Fin 2)]" by code_simp
  then obtain tiers where t: "readTokenTierChain (ce_ast sample_compiled) = Some tiers" "tt_prices (hd tiers) = [(lit ''p'', Fin 2)]"
    by auto
  show ?thesis using displayed_token_tier_is_billed [OF e t(1)] e t by blast
qed

end
