(* ===== verification/Time_Facts.thy ===== *)
theory Time_Facts
  imports Display_Facts
begin

text \<open>
  The tiers shown for a time of day against the interpreter: a condition that
  only reads the time has the same value outside and inside an evaluation at that
  time, so the tiers shown as current are the summary of the branch that is billed.
\<close>

subsection \<open>A value does not depend on the place of its evaluation\<close>

text \<open>
  The second state may be shallower and differ in what is billed; both caches of
  time values are sound. A success in the first state is one in the second.
\<close>

definition shallower :: "runtime \<Rightarrow> runtime \<Rightarrow> runtime_state \<Rightarrow> runtime_state \<Rightarrow> bool" where
  "shallower rt rt' st st' \<longleftrightarrow> rs_depth st' \<le> rs_depth st \<and> times_sound rt st \<and> times_sound rt' st'"

definition carries ::
  "runtime \<Rightarrow> runtime \<Rightarrow> js_error + 'a \<times> runtime_state \<Rightarrow> js_error + 'a \<times> runtime_state \<Rightarrow> bool" where
  "carries rt rt' r r' \<longleftrightarrow> (\<forall>v s. r = Inr (v, s) \<longrightarrow> (\<exists>s'. r' = Inr (v, s') \<and> shallower rt rt' s s'))"

lemma carries_Inl [simp]: "carries rt rt' (Inl e) r"
  by (simp add: carries_def)

lemma carries_Inr [simp]: "carries rt rt' (Inr (v, s)) (Inr (v, s')) = shallower rt rt' s s'"
  by (simp add: carries_def)

lemma carries_bind:
  assumes "carries rt rt' r r'" "\<And>v s s'. shallower rt rt' s s' \<Longrightarrow> carries rt rt' (f (v, s)) (g (v, s'))"
  shows "carries rt rt' (ebind r f) (ebind r' g)"
  using assms by (cases r) (auto simp: carries_def)

lemma carries_pure:
  "(\<And>x. p = Inr x \<Longrightarrow> carries rt rt' (f x) (g x)) \<Longrightarrow> carries rt rt' (ebind p f) (ebind p g)"
  by (cases p) auto

lemma shallower_upd [simp]:
  "shallower rt rt' (st\<lparr>rs_requestRules := a\<rparr>) (st'\<lparr>rs_requestRules := b\<rparr>) = shallower rt rt' st st'"
  "shallower rt rt' (st\<lparr>rs_matchedTier := t\<rparr>) (st'\<lparr>rs_matchedTier := u\<rparr>) = shallower rt rt' st st'"
  "shallower rt rt' (st\<lparr>rs_billingUnit := w, rs_fixedPrice := x\<rparr>) (st'\<lparr>rs_billingUnit := w, rs_fixedPrice := x\<rparr>) =
     shallower rt rt' st st'"
  by (simp_all add: shallower_def)

lemma call_time_carries:
  assumes "shallower rt rt' st st'" "rt_host rt = rt_host rt'" "rt_now rt = rt_now rt'"
  shows "carries rt rt' (call_time rt name zone st) (call_time rt' name zone st')"
proof -
  have s: "times_sound rt st" "times_sound rt' st'" using assms(1) by (simp_all add: shallower_def)
  show ?thesis
    unfolding carries_def
  proof (intro allI impI)
    fix v s
    assume e: "call_time rt name zone st = Inr (v, s)"
    then obtain s' where e': "call_time rt' name zone st' = Inr (v, s')"
      unfolding call_time_value [OF s(1)] call_time_value [OF s(2)] assms(2,3) by (auto simp: err_simps)
    have "times_sound rt s" "times_sound rt' s'" using time_step.call_time_R [OF e] time_step.call_time_R [OF e'] s by blast+
    moreover have "rs_depth s = rs_depth st" "rs_depth s' = rs_depth st'"
      using depth_step.call_time_R [OF e] depth_step.call_time_R [OF e'] by simp_all
    ultimately show "\<exists>s'. call_time rt' name zone st' = Inr (v, s') \<and> shallower rt rt' s s'"
      using e' assms(1) by (simp add: shallower_def)
  qed
qed

lemma call_one_carries:
  assumes "shallower rt rt' st st'" "agree rt rt' (Call name args a b)" "name \<in> set ONE_ARGUMENT"
  shows "carries rt rt' (call_one rt name pos x v st) (call_one rt' name pos x v st')"
proof -
  have h: "rt_host rt = rt_host rt'" "name \<in> called_functions (Call name args a b)" using assms(2) by (simp_all add: agree_def)
  consider "name \<in> set TIME_FUNCTIONS" | "name = lit ''param'' \<or> name = lit ''header''" | "name = lit ''u''"
    | "name = lit ''fixed'' \<or> name = lit ''abs'' \<or> name = lit ''floor'' \<or> name = lit ''ceil''"
    using assms(3) by (auto simp: ONE_ARGUMENT_def)
  then show ?thesis
  proof cases
    case 1
    then have n: "rt_now rt = rt_now rt'" using assms(2) h(2) by (auto simp: agree_def)
    have "call_one r name pos x v s = ebind (as_string x v) (\<lambda>zone. call_time r name zone s)" for r s
      using 1 by (auto simp: call_one_def TIME_FUNCTIONS_def)
    then show ?thesis using call_time_carries [OF assms(1) h(1) n] by (auto intro: carries_pure)
  next
    case 2
    then have "cx_request (rt_context rt) = cx_request (rt_context rt')" "rt_headers rt = rt_headers rt'"
      using assms(2) h(2) by (auto simp: agree_def)
    then show ?thesis using 2 assms(1) h(1)
      by (auto simp: call_one_def Let_def intro!: carries_pure split: option.splits)
  next
    case 3
    then have "cx_usage (rt_context rt) = cx_usage (rt_context rt')" using assms(2) h(2) by (auto simp: agree_def)
    then show ?thesis using 3 assms(1) by (auto simp: call_one_def intro!: carries_pure split: option.splits)
  qed (use assms(1) in \<open>auto simp: call_one_def intro!: carries_pure\<close>)
qed

lemma call_two_carries:
  "shallower rt rt' st st' \<Longrightarrow> carries rt rt' (call_two name x v y w st) (call_two name x v y w st')"
  by (auto simp: call_two_def intro!: carries_pure)

lemma evaluateNode_carries:
  assumes "\<And>c st st'. c \<in> set (node_children n) \<Longrightarrow> shallower rt rt' st st' \<Longrightarrow>
      carries rt rt' (evaluate rt c st) (evaluate rt' c st')"
    and "agree rt rt' n" "shallower rt rt' st st'"
  shows "carries rt rt' (evaluateNode rt n st) (evaluateNode rt' n st')"
proof (cases n)
  case (Variable x a b)
  then have "x \<in> used_variables n" using self_subnode [of n] unfolding used_variables_def by blast
  then show ?thesis using assms(2,3) Variable by (auto simp: agree_def intro!: carries_pure)
next
  case (Call name args a b)
  show ?thesis
  proof (cases "name \<in> set TWO_ARGUMENTS")
    case True
    then show ?thesis using Call assms(1,3)
      by (auto intro!: carries_bind carries_pure call_two_carries split: list.splits)
  next
    case False
    show ?thesis
    proof (cases "name \<in> set ONE_ARGUMENT")
      case one: True
      have "carries rt rt' (call_one rt name a x v s) (call_one rt' name a x v s')" if "shallower rt rt' s s'" for x v s s'
        using call_one_carries [OF that _ one] assms(2) Call by blast
      then show ?thesis using Call assms(1,3) False one by (auto intro!: carries_bind split: list.splits)
    qed (use Call False in simp)
  qed
next
  case (Conditional c y e a b)
  then show ?thesis using assms(1,3) by (auto intro!: carries_bind carries_pure)
next
  case (Unary operator e a b)
  then show ?thesis using assms(1,3) by (auto intro!: carries_bind carries_pure)
next
  case (Binary operator l r a b)
  then show ?thesis using assms(1,3) by (auto intro!: carries_bind carries_pure)
qed (use assms in simp)

lemma evaluate_carries:
  "agree rt rt' n \<Longrightarrow> shallower rt rt' st st' \<Longrightarrow> carries rt rt' (evaluate rt n st) (evaluate rt' n st')"
proof (induction n arbitrary: st st' rule: node_tree_induct)
  case (node n)
  have "shallower rt rt' (st\<lparr>rs_depth := Suc (rs_depth st)\<rparr>) (st'\<lparr>rs_depth := Suc (rs_depth st')\<rparr>)"
    using node.prems(2) by (simp add: shallower_def)
  then have "carries rt rt' (evaluateNode rt n (st\<lparr>rs_depth := Suc (rs_depth st)\<rparr>))
      (evaluateNode rt' n (st'\<lparr>rs_depth := Suc (rs_depth st')\<rparr>))"
    by (rule evaluateNode_carries [rotated 2]) (use node agree_child [OF node.prems(1)] in auto)
  then show ?case
    unfolding carries_def
  proof (intro allI impI)
    fix v s
    assume c: "\<forall>v s. evaluateNode rt n (st\<lparr>rs_depth := Suc (rs_depth st)\<rparr>) = Inr (v, s) \<longrightarrow>
        (\<exists>s'. evaluateNode rt' n (st'\<lparr>rs_depth := Suc (rs_depth st')\<rparr>) = Inr (v, s') \<and> shallower rt rt' s s')"
      and "evaluate rt n st = Inr (v, s)"
    then obtain s1 where s: "rs_depth st < 256" "evaluateNode rt n (st\<lparr>rs_depth := Suc (rs_depth st)\<rparr>) = Inr (v, s1)"
      "check_value n v = Inr ()" "s = s1\<lparr>rs_depth := rs_depth s1 - 1\<rparr>" by (auto simp: evaluate_Inr_iff)
    obtain s1' where "evaluateNode rt' n (st'\<lparr>rs_depth := Suc (rs_depth st')\<rparr>) = Inr (v, s1')" "shallower rt rt' s1 s1'"
      using c s(2) by blast
    then show "\<exists>s'. evaluate rt' n st' = Inr (v, s') \<and> shallower rt rt' s s'"
      using s node.prems(2) by (intro exI [of _ "s1'\<lparr>rs_depth := rs_depth s1' - 1\<rparr>"]) (simp add: evaluate_Inr_iff shallower_def diff_le_mono)
  qed
qed

subsection \<open>Time conditions\<close>

lemma time_condition_reads:
  assumes "isTimeCondition c = Inr True"
  shows "used_variables c = {}" "called_functions c \<inter> set (map lit [''tier'', ''fixed'', ''param'', ''header'', ''u'', ''has'']) = {}"
proof -
  obtain vs fs where d: "expressionDependencies c = Inr (vs, fs)" "vs = []"
      "list_all (\<lambda>name. name \<in> set (TIME_FUNCTIONS @ map lit [''min'', ''max'', ''abs'', ''ceil'', ''floor''])) fs"
    using assms by (auto simp: isTimeCondition_def err_simps)
  have "set fs = called_functions c" "set vs = used_variables c" using expressionDependencies_Inr [OF d(1)] by simp_all
  then show "used_variables c = {}" using d(2) by simp
  show "called_functions c \<inter> set (map lit [''tier'', ''fixed'', ''param'', ''header'', ''u'', ''has'']) = {}"
    using d(3) \<open>set fs = called_functions c\<close> by (auto simp: list_all_iff TIME_FUNCTIONS_def)
qed

lemma condition_outside:
  assumes "isTimeCondition c = Inr True" "new_runtime host compiled cx = Inr (rt, st0)" "cx_now cx = Some date"
    and "evaluate rt c st = Inr ((JBool b, i), st')" "times_sound rt st"
  shows "evaluateBillingCondition host compiled c date = Some b"
proof -
  let ?cx = "empty_context\<lparr>cx_now := Some date\<rparr>"
  obtain rt0 s0 where n: "new_runtime host compiled ?cx = Inr (rt0, s0)"
    by (auto simp: new_runtime_def empty_context_def)
  note r = new_runtime_Inr [OF assms(2)] and r0 = new_runtime_Inr [OF n]
  have "agree rt rt0 c"
    using time_condition_reads [OF assms(1)] r(1-4) r0(1-4) assms(3) by (auto simp: agree_def)
  moreover have "shallower rt rt0 st s0" using r0(6,8) assms(5) by (simp add: shallower_def)
  ultimately obtain s' where "evaluate rt0 c s0 = Inr ((JBool b, i), s')"
    using evaluate_carries assms(4) unfolding carries_def by blast
  then show ?thesis using n by (simp add: evaluateBillingCondition_def)
qed

lemma time_condition_token_start:
  assumes "isTimeCondition c = Inr True" "evaluate rt c st = Inr (v, st')" "token_start st"
  shows "token_start st'"
proof -
  have "called_functions c \<subseteq> - {lit ''tier'', lit ''fixed''}" using time_condition_reads(2) [OF assms(1)] by auto
  then have "same_billing st st'" by (rule billing_step.evaluate_on [OF assms(2)])
  then show ?thesis using assms(3) by (simp add: same_billing_def token_start_def)
qed

subsection \<open>Branches\<close>

definition time_tier :: "jstring \<Rightarrow> (node \<times> bool) list \<Rightarrow> token_tier \<Rightarrow> time_token_tier" where
  "time_tier source path t =
     token_tier.extend
       (t\<lparr>tt_conditionText := Some (join (lit '' && '') (time_description source path # map condition_text (tt_conditions t)))\<rparr>)
       (time_token_tier.fields path)"

definition is_current :: "host \<Rightarrow> compiled_expression \<Rightarrow> int option \<Rightarrow> node \<times> bool \<Rightarrow> bool" where
  "is_current host compiled date = (\<lambda>(condition, matches). evaluateBillingCondition host compiled condition date = Some matches)"

abbreviation current_tiers :: "host \<Rightarrow> compiled_expression \<Rightarrow> int option \<Rightarrow> time_token_tier list \<Rightarrow> time_token_tier list" where
  "current_tiers host compiled date \<equiv> filter (\<lambda>t. list_all (is_current host compiled date) (tm_timeConditions t))"

lemma time_leaf_Some:
  "time_leaf source n path = Some ts \<longleftrightarrow> path \<noteq> [] \<and> (\<exists>us. readTokenTierChain n = Some us \<and> ts = map (time_tier source path) us)"
  by (auto simp: time_leaf_def time_tier_def split: option.splits)

lemma tm_timeConditions_time_tier [simp]: "tm_timeConditions (time_tier source path t) = path"
  by (simp add: time_tier_def token_tier.defs time_token_tier.defs)

lemma branch_paths:
  "timeTierBranches source n path = Inr (Some ts) \<Longrightarrow> t \<in> set ts \<Longrightarrow> \<exists>more. tm_timeConditions t = path @ more"
proof (induction source n path arbitrary: ts rule: timeTierBranches.induct)
  case (1 source c y e a b path)
  then show ?case by (fastforce simp: err_simps time_leaf_Some split: if_splits option.splits)
qed (auto simp: time_leaf_Some)

lemma not_current_branch:
  assumes "timeTierBranches source n path = Inr (Some ts)" "x \<in> set path" "\<not> is_current host compiled date x"
  shows "current_tiers host compiled date ts = []"
  using branch_paths [OF assms(1)] assms(2,3) by (fastforce simp: filter_empty_conv list_all_iff)

lemma leaf_billed:
  assumes "new_runtime host compiled cx = Inr (rt, st0)" "time_leaf source n path = Some ts"
    "evaluate rt n st = Inr ((v, i), st')" "token_start st" "list_all (is_current host compiled date) path"
  shows "\<exists>m us more t. readTokenTierChain m = Some us \<and>
    current_tiers host compiled date ts = map (time_tier source (path @ more)) us \<and>
    find (tier_applies cx) us = Some t \<and> tier_charged cx t v st'"
proof -
  obtain us where us: "readTokenTierChain n = Some us" "ts = map (time_tier source path) us"
    using assms(2) by (auto simp: time_leaf_Some)
  obtain t where "find (tier_applies cx) us = Some t" "tier_charged cx t v st'"
    using token_tiers_apply [OF us(1) assms(4,3)] new_runtime_Inr(3) [OF assms(1)] by auto
  then show ?thesis using us assms(5)
    by (intro exI [of _ n] exI [of _ us] exI [of _ "[]"] exI [of _ t]) (simp add: filter_True)
qed

lemma current_branch_billed:
  assumes "new_runtime host compiled cx = Inr (rt, st0)" "cx_now cx = Some date"
  shows "timeTierBranches source n path = Inr (Some ts) \<Longrightarrow> evaluate rt n st = Inr ((v, i), st') \<Longrightarrow> token_start st \<Longrightarrow>
    times_sound rt st \<Longrightarrow> list_all (is_current host compiled date) path \<Longrightarrow>
    \<exists>m us more t. readTokenTierChain m = Some us \<and> current_tiers host compiled date ts = map (time_tier source (path @ more)) us \<and>
      find (tier_applies cx) us = Some t \<and> tier_charged cx t v st'"
proof (induction source n path arbitrary: ts st v i st' rule: timeTierBranches.induct)
  case (1 source c y e a b path)
  have cx: "rt_context rt = cx" using new_runtime_Inr(3) [OF assms(1)] .
  show ?case
  proof (cases "isTimeCondition c = Inr True")
    case True
    obtain ys ns where t: "timeTierBranches source y (path @ [(c, True)]) = Inr (Some ys)"
      "timeTierBranches source e (path @ [(c, False)]) = Inr (Some ns)" "ts = ys @ ns"
      using 1(3) True by (auto simp: err_simps split: option.splits)
    obtain u cond s1 s2 where u: "evaluate rt c (st\<lparr>rs_depth := Suc (rs_depth st)\<rparr>) = Inr (u, s1)" "as_boolean c u = Inr cond"
      and c: "(if cond then evaluate rt y (s1\<lparr>rs_requestRules := mark_rule (Conditional c y e a b)
          (ce_requestRules (rt_compiled rt)) (rs_requestRules s1)\<rparr>) else evaluate rt e s1) = Inr ((v, i), s2)"
      "st' = s2\<lparr>rs_depth := rs_depth s2 - 1\<rparr>"
      using evaluate_Conditional [OF 1(4)] .
    have ec: "evaluate rt c (st\<lparr>rs_depth := Suc (rs_depth st)\<rparr>) = Inr ((JBool cond, snd u), s1)"
      using u by (cases u) (simp add: as_boolean_Inr)
    have s1: "token_start s1" "times_sound rt s1"
      using time_condition_token_start [OF True ec] time_step.evaluate_R [OF ec] 1(5,6) by (simp_all add: token_start_def)
    have cur: "is_current host compiled date (c, cond)" "\<not> is_current host compiled date (c, \<not> cond)"
      using condition_outside [OF True assms ec] 1(6) by (auto simp: is_current_def)
    show ?thesis
    proof (cases cond)
      case yes: True
      have none: "current_tiers host compiled date ns = []"
        by (rule not_current_branch [OF t(2), of "(c, False)"]) (use cur yes in simp_all)
      have p: "list_all (is_current host compiled date) (path @ [(c, True)])" using 1(7) cur(1) yes by simp
      have y: "evaluate rt y (s1\<lparr>rs_requestRules := mark_rule (Conditional c y e a b)
          (ce_requestRules (rt_compiled rt)) (rs_requestRules s1)\<rparr>) = Inr ((v, i), s2)" using c(1) yes by simp
      obtain m us more t where "readTokenTierChain m = Some us"
        "current_tiers host compiled date ys = map (time_tier source ((path @ [(c, True)]) @ more)) us"
        "find (tier_applies cx) us = Some t" "tier_charged cx t v s2"
        using 1(1) [OF True _ t(1) y _ _ p] s1 by (auto simp: token_start_def)
      then show ?thesis using none t(3) c(2)
        by (intro exI [of _ m] exI [of _ us] exI [of _ "(c, True) # more"] exI [of _ t]) (simp add: tier_charged_depth)
    next
      case no: False
      have none: "current_tiers host compiled date ys = []"
        by (rule not_current_branch [OF t(1), of "(c, True)"]) (use cur no in simp_all)
      have p: "list_all (is_current host compiled date) (path @ [(c, False)])" using 1(7) cur(1) no by simp
      have e: "evaluate rt e s1 = Inr ((v, i), s2)" using c(1) no by simp
      obtain m us more t where "readTokenTierChain m = Some us"
        "current_tiers host compiled date ns = map (time_tier source ((path @ [(c, False)]) @ more)) us"
        "find (tier_applies cx) us = Some t" "tier_charged cx t v s2"
        using 1(2) [OF True _ t(1,2) e _ _ p] s1 by auto
      then show ?thesis using none t(3) c(2)
        by (intro exI [of _ m] exI [of _ us] exI [of _ "(c, False) # more"] exI [of _ t]) (simp add: tier_charged_depth)
    qed
  next
    case False
    then have "time_leaf source (Conditional c y e a b) path = Some ts" using 1(3) by (auto simp: err_simps split: if_splits)
    then show ?thesis by (rule leaf_billed [OF assms(1) _ 1(4,5,7)])
  qed
qed (simp_all only: timeTierBranches.simps sum.inject, (rule leaf_billed [OF assms(1)], assumption+)+)

subsection \<open>Properties\<close>

definition time_source :: jstring where
  "time_source = lit ''hour(\"\")>9?tier(\"a\",p*2):tier(\"b\",p*3)''"

definition time_compiled :: compiled_expression where
  "time_compiled =
     \<lparr>ce_version = 1, ce_source = time_source,
      ce_ast = Conditional
        (Binary (lit ''>'') (Call (lit ''hour'') [Literal (LString []) False 5 7] 0 8) (Literal (LNumber (Fin 9)) True 9 10) 0 10)
        (Call (lit ''tier'') [Literal (LString (lit ''a'')) False 16 19,
          Binary (lit ''*'') (Variable (lit ''p'') 20 21) (Literal (LNumber (Fin 2)) True 22 23) 20 23] 11 24)
        (Call (lit ''tier'') [Literal (LString (lit ''b'')) False 30 33,
          Binary (lit ''*'') (Variable (lit ''p'') 34 35) (Literal (LNumber (Fin 3)) True 36 37) 34 37] 25 38) 0 38,
      ce_variables = [lit ''p''], ce_functions = [lit ''hour'', lit ''tier''], ce_requestRules = []\<rparr>"

lemma compile_time: "compile_result time_source = Ready time_compiled"
  by code_simp

text \<open>
  C18: the tiers shown as current for a time are the ones billed at that time. When
  an evaluation at the time succeeds, the current tiers are the summary of a single
  branch of the time conditions, in order, and the first of them whose token
  conditions hold gives the matched tier and the fixed price of the evaluation.
\<close>

theorem current_time_tiers_are_billed:
  assumes "evaluateBillingExpression host source cx = Success e" "cx_now cx = Some date"
    "readTimeTokenPricing host source (Some date) = Inr (Some (tiers, current))"
  shows "\<exists>m us path t. readTokenTierChain m = Some us \<and> current = map (time_tier source path) us \<and>
    set current \<subseteq> set tiers \<and> find (tier_applies cx) us = Some t \<and>
    ev_matchedTier e = tt_label t \<and> ev_fixedPrice e = tt_fixedPrice t"
proof -
  obtain c where c: "compile_result source = Ready c" "evaluate_compiled host (Ready c) cx = Success e"
    using assms(1) by (cases "compile_result source") (auto simp: evaluateBillingExpression_def evaluate_compiled_def)
  have t: "timeTierBranches source (ce_ast c) [] = Inr (Some tiers)" "current = current_tiers host c date tiers"
    using assms(3) by (auto simp: readTimeTokenPricing_def c(1) compile_result_Ready(2) [OF c(1)] is_current_def err_simps
        split: option.splits)
  obtain rt st i st' where n: "new_runtime host c cx = Inr (rt, st)"
    and e: "evaluate rt (ce_ast c) st = Inr ((JNum (ev_cost e), i), st')"
    and r: "ev_matchedTier e = rs_matchedTier st'" "ev_fixedPrice e = rs_fixedPrice st'"
    by (rule evaluation_run [OF c(2)]) auto
  obtain m us path u where "readTokenTierChain m = Some us" "current = map (time_tier source path) us"
    "find (tier_applies cx) us = Some u" "tier_charged cx u (JNum (ev_cost e)) st'"
    using current_branch_billed [OF n assms(2) t(1) e new_runtime_token_start [OF n] new_runtime_Inr(8) [OF n]] t(2) by auto
  moreover have "set current \<subseteq> set tiers" using t(2) by auto
  ultimately show ?thesis
    using r by (intro exI [of _ m] exI [of _ us] exI [of _ path] exI [of _ u]) (auto simp: tier_charged_def tier_billed_def)
qed

theorem current_time_tiers_are_billed_witness:
  "\<exists>e tiers current us path t.
     evaluateBillingExpression sample_host time_source ((tokens_context [(lit ''p'', JNum (Fin 3))])\<lparr>cx_now := Some (Some 0)\<rparr>) = Success e \<and>
     readTimeTokenPricing sample_host time_source (Some (Some 0)) = Inr (Some (tiers, current)) \<and>
     length tiers = 2 \<and> map tt_label current = [lit ''b''] \<and> current = map (time_tier time_source path) us \<and>
     find (tier_applies ((tokens_context [(lit ''p'', JNum (Fin 3))])\<lparr>cx_now := Some (Some 0)\<rparr>)) us = Some t \<and>
     ev_matchedTier e = tt_label t"
proof -
  let ?cx = "(tokens_context [(lit ''p'', JNum (Fin 3))])\<lparr>cx_now := Some (Some 0)\<rparr>"
  have "case evaluate_compiled sample_host (Ready time_compiled) ?cx of Success e \<Rightarrow> True | _ \<Rightarrow> False" by code_simp
  then obtain e where e: "evaluateBillingExpression sample_host time_source ?cx = Success e"
    by (auto simp: evaluateBillingExpression_def compile_time split: evaluation_result.splits)
  have "case timeTierBranches time_source (ce_ast time_compiled) [] of
      Inr (Some ts) \<Rightarrow> length ts = 2 \<and> map tt_label (current_tiers sample_host time_compiled (Some 0) ts) = [lit ''b'']
    | _ \<Rightarrow> False" by code_simp
  moreover have "ce_source time_compiled = time_source" by (simp add: time_compiled_def)
  ultimately obtain tiers current
    where p: "readTimeTokenPricing sample_host time_source (Some (Some 0)) = Inr (Some (tiers, current))"
      "length tiers = 2" "map tt_label current = [lit ''b'']"
    by (auto simp: readTimeTokenPricing_def compile_time is_current_def split: sum.splits option.splits)
  have "cx_now ?cx = Some (Some 0)" by simp
  from current_time_tiers_are_billed [OF e this p(1)] obtain us path t where "current = map (time_tier time_source path) us"
    "find (tier_applies ?cx) us = Some t" "ev_matchedTier e = tt_label t" by blast
  then show ?thesis using e p
    by (intro exI [of _ e] exI [of _ tiers] exI [of _ current] exI [of _ us] exI [of _ path] exI [of _ t]) simp
qed

end
