(* ===== verification/Task_Facts.thy ===== *)
theory Task_Facts
  imports Display_Facts "HOL-Library.Multiset"
begin

text \<open>
  The summaries of task tiers against the interpreter: the first tier whose
  displayed conditions hold of the usage facts is matched, and its unit prices and
  constant make up the cost.
\<close>

subsection \<open>Task tiers\<close>

definition usage_value :: "simulation_context \<Rightarrow> jstring \<Rightarrow> json option" where
  "usage_value cx field = map_option (\<lambda>us. case map_of us field of Some x \<Rightarrow> x | None \<Rightarrow> JNull) (cx_usage cx)"

text \<open>A displayed condition of a task tier: a boolean field by its text, an enumeration by its value.\<close>

definition usage_holds :: "usage_schema \<Rightarrow> simulation_context \<Rightarrow> jstring \<times> jstring \<Rightarrow> bool" where
  "usage_holds schema cx c \<longleftrightarrow>
     usage_value cx (fst c) =
       Some (if Option.bind (map_of schema (fst c)) uf_type = Some Usage_boolean
             then JBool (snd c = lit ''true'') else JStr (snd c))"

lemma usage_name_value:
  assumes "usage_name n = Some field" "evaluate rt n st = Inr (w, st')"
  shows "\<exists>x. w = (x, False) \<and> usage_value (rt_context rt) field = Some x" "st' = st"
proof -
  obtain i a b xs s e where n: "n = Call (lit ''u'') (Literal (LString field) i a b # xs) s e"
    using assms(1) by (auto simp: usage_name_def split: node.splits list.splits literal_value.splits if_splits)
  obtain u s1 s2 s3 where c: "evaluate rt (Literal (LString field) i a b) s1 = Inr (u, s2)"
      "call_one rt (lit ''u'') s (Literal (LString field) i a b) u s2 = Inr (w, s3)"
      "s1 = st\<lparr>rs_depth := Suc (rs_depth st)\<rparr>" "st' = s3\<lparr>rs_depth := rs_depth s3 - 1\<rparr>"
    by (rule evaluate_Call_one [OF assms(2) [unfolded n]]) (auto simp: ONE_ARGUMENT_def TWO_ARGUMENTS_def)
  have "u = (JStr field, i)" "s2 = s1" using evaluate_Literal [OF c(1)] by (simp_all add: literal_json_def)
  then show "\<exists>x. w = (x, False) \<and> usage_value (rt_context rt) field = Some x" "st' = st"
    using c(2-4) by (cases "cx_usage (rt_context rt)"; auto simp: call_one_def as_string_def usage_value_def)+
qed

lemma task_condition_sound:
  assumes "task_condition schema inc n = Some c" "evaluate rt n st = Inr ((v, i), st')"
  shows "v = JBool (usage_holds schema (rt_context rt) c) \<and> st' = st"
proof -
  obtain l val k d e s t field where n: "n = Binary (lit ''=='') l (Literal val k d e) s t" "usage_name l = Some field"
    using assms(1) by (auto simp: task_condition_def split: node.splits option.splits if_splits)
  obtain u w s1 s2 s3 where b: "evaluate rt l s1 = Inr (u, s2)" "evaluate rt (Literal val k d e) s2 = Inr (w, s3)"
      "binary_op (lit ''=='') u w s = Inr (v, i)" "s1 = st\<lparr>rs_depth := Suc (rs_depth st)\<rparr>"
      "st' = s3\<lparr>rs_depth := rs_depth s3 - 1\<rparr>"
    by (rule evaluate_Binary [OF assms(2) [unfolded n(1)]]) auto
  obtain x where x: "u = (x, False)" "usage_value (rt_context rt) field = Some x" "s2 = s1"
    using usage_name_value [OF n(2) b(1)] by auto
  have w: "w = (literal_json val, k)" "s3 = s2" using evaluate_Literal [OF b(2)] by simp_all
  have eq: "v = JBool (strict_eq x (literal_json val))"
    using b(3) x(1) w(1) by (auto simp: binary_op_def Let_def split: if_splits)
  have "strict_eq x (literal_json val) = usage_holds schema (rt_context rt) c"
    using assms(1) x(2) n(2) unfolding n(1)
    by (cases x; cases val)
      (auto simp: task_condition_def usage_holds_def literal_json_def strict_eq_def split: option.splits if_splits)
  then show ?thesis using eq w(2) x(3) b(4,5) by simp
qed

text \<open>A unit price charges the number of the usage field, per million for tokens.\<close>

definition unit_priced :: "usage_schema \<Rightarrow> simulation_context \<Rightarrow> jstring \<times> number \<Rightarrow> number \<Rightarrow> bool" where
  "unit_priced schema cx r a \<longleftrightarrow>
     (\<exists>q p. usage_value cx (fst r) = Some (JNum q) \<and> num_eq p (snd r) \<and>
       a = (if Option.bind (map_of schema (fst r)) uf_unit = Some Unit_token
            then num_div (num_mul q p) (Fin 1000000) else num_mul q p))"

lemma num_eq_Fin: "num_eq v (Fin q) \<Longrightarrow> q \<noteq> 0 \<Longrightarrow> v = Fin q"
  by (cases v) (auto simp: num_eq_def)

lemma product_value:
  assumes "evaluate rt (Binary (lit ''*'') l r s e) st = Inr (w, st')" "usage_name l = Some field"
    "nonnegativePriceLiteral r = Some price"
  shows "\<exists>q p i. w = (JNum (num_mul q p), i) \<and> usage_value (rt_context rt) field = Some (JNum q) \<and> num_eq p price"
proof -
  obtain u v s1 s2 s3 where b: "evaluate rt l s1 = Inr (u, s2)" "evaluate rt r s2 = Inr (v, s3)"
      "binary_op (lit ''*'') u v s = Inr w"
    by (rule evaluate_Binary [OF assms(1)]) auto
  obtain x where x: "u = (x, False)" "usage_value (rt_context rt) field = Some x"
    using usage_name_value(1) [OF assms(2) b(1)] by blast
  obtain p i where p: "v = (JNum p, i)" "num_eq p price" using price_literal [OF assms(3) b(2)] by blast
  then show ?thesis using b(3) x by (cases x) (auto simp: binary_op_def compare_values_def arithmetic_def)
qed

lemma unit_price_charged:
  assumes "unit_price schema n = Some r" "evaluate rt n st = Inr (w, st')"
  shows "\<exists>a i. w = (JNum a, i) \<and> unit_priced schema (rt_context rt) r a"
proof -
  obtain m l rt' s e d u where m: "m = Binary (lit ''*'') l rt' s e" "usage_name l = Some (fst r)"
      "nonnegativePriceLiteral rt' = Some (snd r)" "map_of schema (fst r) = Some d" "uf_unit d = Some u"
      "if u = Unit_token then \<exists>k x y a b. n = Binary (lit ''/'') m (Literal (LNumber (Fin 1000000)) k x y) a b else n = m"
    using assms(1)
    by (auto simp: unit_price_def Let_def dest: num_eq_Fin
        split: node.splits literal_value.splits option.splits if_splits)
  show ?thesis
  proof (cases "u = Unit_token")
    case True
    then obtain k x y a b where n: "n = Binary (lit ''/'') m (Literal (LNumber (Fin 1000000)) k x y) a b" using m(6) by auto
    obtain v z s1 s2 s3 where b: "evaluate rt m s1 = Inr (v, s2)"
        "evaluate rt (Literal (LNumber (Fin 1000000)) k x y) s2 = Inr (z, s3)" "binary_op (lit ''/'') v z a = Inr w"
      by (rule evaluate_Binary [OF assms(2) [unfolded n]]) auto
    have z: "z = (JNum (Fin 1000000), k)" using evaluate_Literal [OF b(2)] by (simp add: literal_json_def)
    obtain q p i where v: "v = (JNum (num_mul q p), i)" "usage_value (rt_context rt) (fst r) = Some (JNum q)" "num_eq p (snd r)"
      using product_value [OF b(1) [unfolded m(1)] m(2,3)] by blast
    have "w = (JNum (num_div (num_mul q p) (Fin 1000000)), False)"
      using b(3) v(1) z by (auto simp: binary_op_def compare_values_def arithmetic_def)
    then show ?thesis using v m(4,5) True by (auto simp: unit_priced_def)
  next
    case False
    then show ?thesis using product_value [of rt l rt' s e st w st' "fst r" "snd r"] assms(2) m
      by (auto simp: unit_priced_def)
  qed
qed

text \<open>The amounts of a task tier: those of its unit prices, and the constant when there is one.\<close>

definition task_amounts :: "usage_schema \<Rightarrow> simulation_context \<Rightarrow> (jstring \<times> number) list \<Rightarrow> number option \<Rightarrow> number list \<Rightarrow> bool" where
  "task_amounts schema cx prices constant amounts \<longleftrightarrow>
     (\<exists>units rest. mset amounts = mset (rest @ units) \<and> list_all2 (unit_priced schema cx) prices units \<and>
       (case constant of None \<Rightarrow> rest = [] | Some c \<Rightarrow> \<exists>k. rest = [k] \<and> num_eq k c))"

lemma task_amounts_Nil [simp]: "task_amounts schema cx [] None []"
  by (simp add: task_amounts_def)

lemma task_amounts_constant:
  assumes "task_amounts schema cx rs None ws" "num_eq v k"
  shows "task_amounts schema cx rs (Some k) (v # ws)"
proof -
  obtain units where "mset ws = mset units" "list_all2 (unit_priced schema cx) rs units"
    using assms(1) by (auto simp: task_amounts_def)
  then show ?thesis using assms(2) unfolding task_amounts_def by (intro exI [of _ units] exI [of _ "[v]"]) simp
qed

lemma task_amounts_unit:
  assumes "task_amounts schema cx rs d ws" "unit_priced schema cx r v"
  shows "task_amounts schema cx (r # rs) d (v # ws)"
proof -
  obtain units rest where "mset ws = mset (rest @ units)" "list_all2 (unit_priced schema cx) rs units"
    "case d of None \<Rightarrow> rest = [] | Some c \<Rightarrow> \<exists>k. rest = [k] \<and> num_eq k c"
    using assms(1) unfolding task_amounts_def by blast
  then show ?thesis using assms(2) unfolding task_amounts_def by (intro exI [of _ "v # units"] exI [of _ rest]) simp
qed

lemma task_terms_step:
  assumes "task_terms schema ts c ps = Some (d, qs)" "list_all2 (term_value rt) ts vs"
  shows "\<exists>rs. qs = ps @ rs \<and> (if c = None then task_amounts schema (rt_context rt) rs d vs
      else d = c \<and> task_amounts schema (rt_context rt) rs None vs)"
  using assms
proof (induction ts arbitrary: c ps vs)
  case (Cons t ts)
  obtain v ws where w: "vs = v # ws" "term_value rt t v" "list_all2 (term_value rt) ts ws"
    using Cons.prems(2) by (auto simp: list_all2_Cons1)
  then obtain s i s' where v: "evaluate rt t s = Inr ((JNum v, i), s')" by (auto simp: term_value_def)
  show ?case
  proof (cases "nonnegativePriceLiteral t")
    case (Some k)
    then have r: "c = None" "task_terms schema ts (Some k) ps = Some (d, qs)"
      using Cons.prems(1) by (auto split: if_splits)
    have "num_eq v k" using price_literal [OF Some v] by auto
    then show ?thesis using Cons.IH [OF r(2) w(3)] r(1) w(1) task_amounts_constant by auto
  next
    case None
    then obtain f p where r: "unit_price schema t = Some (f, p)" "task_terms schema ts c (ps @ [(f, p)]) = Some (d, qs)"
      using Cons.prems(1) by (auto split: option.splits if_splits)
    have "unit_priced schema (rt_context rt) (f, p) v" using unit_price_charged [OF r(1) v] by auto
    then show ?thesis using Cons.IH [OF r(2) w(3)] w(1) by (auto intro: task_amounts_unit split: if_splits)
  qed
qed simp

lemma task_terms_amounts:
  assumes "task_terms schema ts None [] = Some (d, prices)" "list_all2 (term_value rt) ts vs"
  shows "task_amounts schema (rt_context rt) prices d vs"
  using task_terms_step [OF assms] by simp

definition task_billed :: "usage_schema \<Rightarrow> simulation_context \<Rightarrow> task_tier \<Rightarrow> json \<Rightarrow> runtime_state \<Rightarrow> bool" where
  "task_billed schema cx t v st \<longleftrightarrow>
     rs_matchedTier st = tk_label t \<and>
     (\<exists>cost amounts constant. v = JNum cost \<and> sum_of amounts cost \<and>
       task_amounts schema cx (tk_unitPrices t) constant amounts \<and>
       tk_constant t = (case constant of Some c \<Rightarrow> c | None \<Rightarrow> Fin 0))"

lemma task_terms_numeric:
  assumes "task_terms schema ts c ps = Some r" "t \<in> set ts"
  shows "numeric_term rt t"
proof -
  have "(\<exists>k. nonnegativePriceLiteral t = Some k) \<or> (\<exists>r. unit_price schema t = Some r)"
    using assms by (induction ts arbitrary: c ps) (auto split: option.splits if_splits)
  then show ?thesis
    using price_literal [of t _ rt] unit_price_charged [of schema t _ rt] unfolding numeric_term_def by blast
qed

lemma taskTier_sound:
  assumes "taskTier n cs schema = Some t" "evaluate rt n st = Inr ((v, i), st')"
  shows "task_billed schema (rt_context rt) t v st'"
proof -
  obtain label a1 a2 a3 body rest s e k prices
    where n: "n = Call (lit ''tier'') (Literal (LString label) a1 a2 a3 # body # rest) s e"
      "task_terms schema (flattenBinary body (lit ''+'')) None [] = Some (k, prices)"
      "t = \<lparr>tk_label = label, tk_conditions = cs, tk_constant = (case k of Some v \<Rightarrow> v | None \<Rightarrow> Fin 0),
            tk_unitPrices = prices\<rparr>"
    using assms(1) by (auto simp: taskTier_def split: node.splits list.splits literal_value.splits option.splits if_splits)
  obtain u w s1 s2 s3 s4 where c: "evaluate rt (Literal (LString label) a1 a2 a3) s1 = Inr (u, s2)"
      "evaluate rt body s2 = Inr (w, s3)" "call_two (lit ''tier'') (Literal (LString label) a1 a2 a3) u body w s3 = Inr ((v, i), s4)"
      "st' = s4\<lparr>rs_depth := rs_depth s4 - 1\<rparr>"
    by (rule evaluate_Call_two [OF assms(2) [unfolded n]]) (auto simp: TWO_ARGUMENTS_def)
  have u: "u = (JStr label, a1)" using evaluate_Literal [OF c(1)] by (simp add: literal_json_def)
  have s4: "fst w = v" "s4 = s3\<lparr>rs_matchedTier := label\<rparr>"
    using c(3) u by (auto simp: call_two_def as_string_def as_numeric_def err_simps split: json.splits)
  have b: "evaluate rt body s2 = Inr ((v, snd w), s3)" using c(2) s4(1) by auto
  obtain x vs where "v = JNum x" "sum_of vs x" "list_all2 (term_value rt) (flattenBinary body (lit ''+'')) vs"
    using sum_terms [OF _ b] task_terms_numeric [OF n(2)] by blast
  then show ?thesis
    using task_terms_amounts [OF n(2)] n(3) s4(2) c(4) by (auto simp: task_billed_def)
qed

interpretation task_chain: tier_reader "task_condition schema inc" "\<lambda>n cs. taskTier n cs schema"
  "\<lambda>n. readTaskTierChain n schema inc" "usage_holds schema" tk_conditions "task_billed schema" "\<lambda>_. True"
  for schema inc
proof (unfold_locales, goal_cases)
  case (2 n)
  then show ?case by (cases n) (blast | simp)+
next
  case 3
  then show ?case by (rule task_condition_sound)
next
  case (4 n cs t)
  then show ?case
    by (auto simp: taskTier_def split: option.splits node.splits list.splits literal_value.splits if_splits)
next
  case 5
  then show ?case by (intro taskTier_sound)
qed (simp_all add: taskConditions_def task_billed_def)

subsection \<open>Properties\<close>

definition task_schema :: usage_schema where
  "task_schema =
     [(lit ''mode'', \<lparr>uf_type = None, uf_unit = None, uf_enum = Some [lit ''hd'', lit ''sd'']\<rparr>),
      (lit ''time'', \<lparr>uf_type = Some Usage_number, uf_unit = Some Unit_second, uf_enum = None\<rparr>)]"

definition task_compiled :: compiled_expression where
  "task_compiled = sample_compiled\<lparr>ce_ast :=
     Conditional
       (Binary (lit ''=='') (Call (lit ''u'') [Literal (LString (lit ''mode'')) False 2 8] 0 9)
         (Literal (LString (lit ''hd'')) False 13 17) 0 17)
       (Call (lit ''tier'') [Literal (LString (lit ''high'')) False 25 31,
         Binary (lit ''*'') (Call (lit ''u'') [Literal (LString (lit ''time'')) False 35 41] 33 42)
           (Literal (LNumber (Fin 3)) True 45 46) 33 46] 20 47)
       (Call (lit ''tier'') [Literal (LString (lit ''low'')) False 55 60,
         Binary (lit ''*'') (Call (lit ''u'') [Literal (LString (lit ''time'')) False 64 70] 62 71)
           (Literal (LNumber (Fin 1)) True 74 75) 62 75] 50 76) 0 76\<rparr>"

definition task_context :: simulation_context where
  "task_context = empty_context\<lparr>cx_usage := Some [(lit ''mode'', JStr (lit ''hd'')), (lit ''time'', JNum (Fin 5))]\<rparr>"

text \<open>
  C19: the task price summary is what is billed. When an expression has a task
  summary for a usage schema and its evaluation succeeds, the first displayed tier
  whose conditions hold of the usage facts is the matched tier, and the cost is the
  sum of its displayed constant and its unit prices times the usage, per million
  for fields counted in tokens.
\<close>

theorem displayed_task_tier_is_billed:
  assumes "evaluate_compiled host (Ready c) cx = Success e" "readTaskTierChain (ce_ast c) schema inc = Some tiers"
  shows "\<exists>t. find (\<lambda>t. list_all (usage_holds schema cx) (tk_conditions t)) tiers = Some t \<and> ev_matchedTier e = tk_label t \<and>
    (\<exists>amounts k. sum_of amounts (ev_cost e) \<and> task_amounts schema cx (tk_unitPrices t) k amounts \<and>
      tk_constant t = (case k of Some v \<Rightarrow> v | None \<Rightarrow> Fin 0))"
proof -
  obtain rt st i st' where n: "new_runtime host c cx = Inr (rt, st)"
    and e: "evaluate rt (ce_ast c) st = Inr ((JNum (ev_cost e), i), st')" and r: "ev_matchedTier e = rs_matchedTier st'"
    by (rule evaluation_run [OF assms(1)]) auto
  obtain t where "find (\<lambda>t. list_all (usage_holds schema cx) (tk_conditions t)) tiers = Some t"
      "task_billed schema cx t (JNum (ev_cost e)) st'"
    using task_chain.chain_sound [OF assms(2) TrueI e] new_runtime_Inr(3) [OF n] by auto
  then show ?thesis using r by (auto simp: task_billed_def)
qed

theorem displayed_task_tier_is_billed_witness:
  "\<exists>e tiers t. evaluate_compiled sample_host (Ready task_compiled) task_context = Success e \<and> ev_cost e = Fin 15 \<and>
     readTaskTierChain (ce_ast task_compiled) task_schema False = Some tiers \<and>
     map tk_unitPrices tiers = [[(lit ''time'', Fin 3)], [(lit ''time'', Fin 1)]] \<and>
     find (\<lambda>t. list_all (usage_holds task_schema task_context) (tk_conditions t)) tiers = Some t \<and> ev_matchedTier e = tk_label t"
proof -
  have "case evaluate_compiled sample_host (Ready task_compiled) task_context of Success e \<Rightarrow> ev_cost e = Fin 15 | _ \<Rightarrow> False"
    by code_simp
  then obtain e where e: "evaluate_compiled sample_host (Ready task_compiled) task_context = Success e" "ev_cost e = Fin 15"
    by (auto split: evaluation_result.splits)
  have "map_option (map tk_unitPrices) (readTaskTierChain (ce_ast task_compiled) task_schema False) =
      Some [[(lit ''time'', Fin 3)], [(lit ''time'', Fin 1)]]" by code_simp
  then obtain tiers where t: "readTaskTierChain (ce_ast task_compiled) task_schema False = Some tiers"
      "map tk_unitPrices tiers = [[(lit ''time'', Fin 3)], [(lit ''time'', Fin 1)]]" by auto
  from displayed_task_tier_is_billed [OF e(1) t(1)]
  obtain x where "find (\<lambda>t. list_all (usage_holds task_schema task_context) (tk_conditions t)) tiers = Some x"
    "ev_matchedTier e = tk_label x" by blast
  then show ?thesis using e t by (intro exI [of _ e] exI [of _ tiers] exI [of _ x]) simp
qed

end
