(* ===== verification/Billing_Visual.thy ===== *)
theory Billing_Visual
  imports Billing_Display
begin

text \<open>
  The visual editor of billing expressions, \<open>billing-expression/visual.ts\<close>: a
  document of tiers and conditions is read off the syntax tree, each part keeping
  the node it was read from, and written back by patching the source at the spans
  of the nodes. The issues a write reports are its second result.
\<close>

subsection \<open>Documents\<close>

text \<open>Every node carries its \<open>id\<close> and its \<open>origin\<close>.\<close>

datatype visual_condition =
  V_comparison jstring "node option" (v_probe: jstring) (v_timezone: jstring) (v_operator: jstring) (v_value: jstring)
| V_all jstring "node option" "visual_condition list"
| V_any jstring "node option" "visual_condition list"
| V_not jstring "node option" visual_condition

fun condition_id :: "visual_condition \<Rightarrow> jstring" where
  "condition_id (V_comparison i _ _ _ _ _) = i"
| "condition_id (V_all i _ _) = i"
| "condition_id (V_any i _ _) = i"
| "condition_id (V_not i _ _) = i"

fun condition_origin :: "visual_condition \<Rightarrow> node option" where
  "condition_origin (V_comparison _ n _ _ _ _) = n"
| "condition_origin (V_all _ n _) = n"
| "condition_origin (V_any _ n _) = n"
| "condition_origin (V_not _ n _) = n"

record visual_price =
  vp_variable :: jstring
  vp_value :: jstring
  vp_origin :: "node option"

datatype visual_pricing =
  V_tier jstring "node option" jstring "visual_price list" billing_unit jstring
| V_branch jstring "node option" visual_condition visual_pricing visual_pricing

fun pricing_id :: "visual_pricing \<Rightarrow> jstring" where
  "pricing_id (V_tier i _ _ _ _ _) = i"
| "pricing_id (V_branch i _ _ _ _) = i"

record visual_document =
  vd_source :: jstring
  vd_root :: visual_pricing

type_synonym visual_issue = "jstring \<times> jstring"

datatype visual_serialization = Serialized jstring | Rejected "visual_issue list"

definition COMPARISONS :: "jstring list" where
  "COMPARISONS = map lit [''<'', ''<='', ''>'', ''>='', ''=='', ''!='']"

definition TIME_DOMAINS :: "(jstring \<times> int \<times> int) list" where
  "TIME_DOMAINS =
     [(lit ''hour'', 0, 23), (lit ''minute'', 0, 59), (lit ''weekday'', 0, 6), (lit ''month'', 1, 12), (lit ''day'', 1, 31)]"

text \<open>The counter of the module, and the identifiers it hands out.\<close>

definition visualNodeId :: "nat \<Rightarrow> jstring \<times> nat" where
  "visualNodeId nextId = (lit ''draft-'' @ int_digits (int (nextId + 1)), nextId + 1)"

definition createEmptyVisualCondition :: "nat \<Rightarrow> visual_condition \<times> nat" where
  "createEmptyVisualCondition nextId =
     (let (i, nextId') = visualNodeId nextId
      in (V_comparison i None (lit ''hour'') (lit ''Asia/Shanghai'') (lit ''>='') [], nextId'))"

subsection \<open>Reading\<close>

definition span_id :: "string \<Rightarrow> node \<Rightarrow> jstring" where
  "span_id pre n = lit pre @ int_digits (int (node_start n)) @ lit ''-'' @ int_digits (int (node_end n))"

lemma size_flattenBinary: "m \<in> set (flattenBinary n operator) \<Longrightarrow> size m \<le> size n"
  by (induction n operator rule: flattenBinary.induct) (auto split: if_splits)

definition readVisualComparison :: "node \<Rightarrow> visual_condition option" where
  "readVisualComparison n =
     (case n of
        Binary p l (Literal (LNumber v) _ _ _) _ _ \<Rightarrow>
          if p \<notin> set COMPARISONS then None
          else
            (case l of
               Variable x _ _ \<Rightarrow>
                 if x \<in> set (map lit [''p'', ''c'', ''len''])
                 then Some (V_comparison (span_id ''condition-'' n) (Some n) x [] p (number_to_string v)) else None
             | Call f (Literal (LString zone) _ _ _ # _) _ _ \<Rightarrow>
                 if f \<in> set TIME_FUNCTIONS
                 then Some (V_comparison (span_id ''condition-'' n) (Some n) f zone p (number_to_string v)) else None
             | _ \<Rightarrow> None)
      | _ \<Rightarrow> None)"

function (sequential) readVisualCondition :: "node \<Rightarrow> visual_condition option" where
  "readVisualCondition (Unary p e a b) =
     (if p = lit ''!''
      then map_option (V_not (span_id ''condition-'' (Unary p e a b)) (Some (Unary p e a b))) (readVisualCondition e)
      else None)"
| "readVisualCondition (Binary p l r a b) =
     (let n = Binary p l r a b
      in if p = lit ''&&'' \<or> p = lit ''||'' then
           map_option
             (if p = lit ''&&'' then V_all (span_id ''condition-'' n) (Some n) else V_any (span_id ''condition-'' n) (Some n))
             (those (map readVisualCondition (flattenBinary n p)))
         else readVisualComparison n)"
| "readVisualCondition n = None"
  by pat_completeness auto
termination readVisualCondition
proof (relation "measure size", goal_cases)
  case (3 p l r a b n m)
  then show ?case using size_flattenBinary [of m l p] size_flattenBinary [of m r p] by auto
qed simp_all

definition literal_to_string :: "literal_value \<Rightarrow> jstring" where
  "literal_to_string v =
     (case v of
        LString s \<Rightarrow> s
      | LNumber x \<Rightarrow> number_to_string x
      | LBoolean b \<Rightarrow> if b then lit ''true'' else lit ''false''
      | LNil \<Rightarrow> lit ''null'')"

fun read_prices :: "node list \<Rightarrow> visual_price list \<Rightarrow> visual_price list option" where
  "read_prices [] prices = Some prices"
| "read_prices (t # ts) prices =
     (case t of
        Binary p (Variable x _ _) (Literal (LNumber v) _ _ _) _ _ \<Rightarrow>
          if p \<noteq> lit ''*'' \<or> x = lit ''len'' \<or> x = lit ''image_count'' \<or> num_lt v (Fin 0) \<or> x \<in> vp_variable ` set prices
          then None
          else read_prices ts (prices @ [\<lparr>vp_variable = x, vp_value = number_to_string v, vp_origin = Some t\<rparr>])
      | _ \<Rightarrow> None)"

fun readVisualPricing :: "node \<Rightarrow> visual_pricing option" where
  "readVisualPricing (Conditional c y e a b) =
     (case (readVisualCondition c, readVisualPricing y, readVisualPricing e) of
        (Some condition, Some yes, Some no) \<Rightarrow>
          Some (V_branch (span_id ''pricing-'' (Conditional c y e a b)) (Some (Conditional c y e a b)) condition yes no)
      | _ \<Rightarrow> None)"
| "readVisualPricing n =
     (case n of
        Call f (Literal (LString label) _ _ _ # body # _) _ _ \<Rightarrow>
          if f \<noteq> lit ''tier'' then None
          else
            (case (case body of
                     Call g (Literal amount _ _ _ # _) _ _ \<Rightarrow> if g = lit ''fixed'' then Some amount else None
                   | _ \<Rightarrow> None) of
               Some amount \<Rightarrow>
                 Some (V_tier (span_id ''pricing-'' n) (Some n) label [] U_request (literal_to_string amount))
             | None \<Rightarrow>
                 map_option (\<lambda>prices. V_tier (span_id ''pricing-'' n) (Some n) label prices U_token [])
                   (read_prices (flattenBinary body (lit ''+'')) []))
      | _ \<Rightarrow> None)"

subsection \<open>Writing\<close>

text \<open>
  The patches go in from the last to the first. A patched node always lies inside
  the origin, so the offsets are not negative.
\<close>

definition apply_patch :: "node \<Rightarrow> node \<times> jstring \<Rightarrow> jstring \<Rightarrow> jstring" where
  "apply_patch origin patch result =
     take (node_start (fst patch) - node_start origin) result @ snd patch @ drop (node_end (fst patch) - node_start origin) result"

definition patchSource :: "jstring \<Rightarrow> node \<Rightarrow> (node \<times> jstring) list \<Rightarrow> jstring" where
  "patchSource source origin patches =
     fold (apply_patch origin) (sort_key (\<lambda>patch. - int (node_start (fst patch))) patches)
       (slice source (node_start origin) (node_end origin))"

text \<open>The pattern of \<open>parseNonNegativeNumber\<close> is the lexer's number pattern, for the whole text.\<close>

definition parseNonNegativeNumber :: "jstring \<Rightarrow> number option" where
  "parseNonNegativeNumber v =
     (if trim v = [] \<or> scan_number (trim v) \<noteq> trim v then None
      else let n = string_to_number v in if isFinite n \<and> num_le (Fin 0) n then Some n else None)"

text \<open>\<open>value === literal.value\<close> for a number or null.\<close>

definition same_literal :: "number option \<Rightarrow> literal_value \<Rightarrow> bool" where
  "same_literal v l =
     (case (v, l) of (Some x, LNumber y) \<Rightarrow> num_eq x y | (None, LNil) \<Rightarrow> True | _ \<Rightarrow> False)"

definition source_of :: "jstring \<Rightarrow> node \<Rightarrow> jstring" where
  "source_of source n = slice source (node_start n) (node_end n)"

text \<open>The text of a value: the source of the literal it was read from while it is unchanged.\<close>

definition value_text :: "jstring \<Rightarrow> number option \<Rightarrow> node \<Rightarrow> jstring \<Rightarrow> jstring" where
  "value_text source v n text =
     (case n of Literal l _ _ _ \<Rightarrow> if same_literal v l then source_of source n else text | _ \<Rightarrow> text)"

definition original_zone :: "node option \<Rightarrow> literal_value option" where
  "original_zone origin =
     (case origin of Some (Binary _ (Call _ (Literal l _ _ _ # _) _ _) _ _ _) \<Rightarrow> Some l | _ \<Rightarrow> None)"

text \<open>The formatter that is constructed to try a time zone has no other option.\<close>

definition zone_only_options :: "jstring \<Rightarrow> intl_options" where
  "zone_only_options timezone =
     \<lparr>io_locale = lit ''en'', io_timeZone = timezone, io_calendar = None, io_numberingSystem = None,
      io_hourCycle = None, io_hour = None, io_minute = None, io_weekday = None, io_month = None, io_day = None\<rparr>"

definition comparison_issues ::
  "host \<Rightarrow> jstring \<Rightarrow> node option \<Rightarrow> jstring \<Rightarrow> jstring \<Rightarrow> jstring \<Rightarrow> number option \<Rightarrow> visual_issue list" where
  "comparison_issues host i origin probe timezone operator v =
     (let valid =
        (case v of
           None \<Rightarrow> False
         | Some x \<Rightarrow>
             (case map_of TIME_DOMAINS probe of
                None \<Rightarrow> True
              | Some (low, high) \<Rightarrow>
                  isInteger x \<and> num_le (Fin (of_int low)) x \<and>
                  num_le x (Fin (of_int (high + (if operator = lit ''<'' then 1 else 0))))))
      in (if valid then [] else [(i, lit ''Enter a valid condition value.'')]) @
         (if probe \<in> set TIME_FUNCTIONS \<and> original_zone origin \<noteq> Some (LString timezone) \<and>
             (trim timezone = [] \<or> h_zone host (zone_only_options (trim timezone)) = None)
          then [(i, lit ''Choose a valid IANA timezone.'')] else []))"

definition comparison_text ::
  "jstring \<Rightarrow> node option \<Rightarrow> jstring \<Rightarrow> jstring \<Rightarrow> jstring \<Rightarrow> jstring \<Rightarrow> number option \<Rightarrow> jstring" where
  "comparison_text source origin probe timezone operator val v =
     (let text = (if probe \<in> set TIME_FUNCTIONS then probe @ lit ''('' @ json_string timezone @ lit '')'' else probe);
          plain = lit ''('' @ text @ lit '' '' @ operator @ lit '' '' @ val @ lit '')''
      in case origin of
           Some (Binary p l r a b) \<Rightarrow>
             if p \<noteq> operator then plain
             else
               let probeText =
                 (case l of
                    Variable x _ _ \<Rightarrow> if x = probe then source_of source l else text
                  | Call f (Literal (LString zone) _ _ _ # _) _ _ \<Rightarrow>
                      if f = probe \<and> zone = timezone then source_of source l else text
                  | _ \<Rightarrow> text)
               in patchSource source (Binary p l r a b) [(l, probeText), (r, value_text source v r val)]
         | _ \<Rightarrow> plain)"

definition empty_group_issue :: "jstring \<Rightarrow> 'a list \<Rightarrow> visual_issue list" where
  "empty_group_issue i children = (if children = [] then [(i, lit ''Add at least one condition to this group.'')] else [])"

definition group_text :: "jstring \<Rightarrow> string \<Rightarrow> node option \<Rightarrow> node option list \<Rightarrow> jstring list \<Rightarrow> jstring" where
  "group_text source operator origin origins texts =
     (let plain = lit ''('' @ join (lit '' '' @ lit operator @ lit '' '') (map (\<lambda>t. lit ''('' @ t @ lit '')'') texts) @ lit '')''
      in case origin of
           Some (Binary p l r a b) \<Rightarrow>
             let original = flattenBinary (Binary p l r a b) (lit operator)
             in if p = lit operator \<and> origins = map Some original
                then patchSource source (Binary p l r a b) (zip original texts) else plain
         | _ \<Rightarrow> plain)"

fun writeVisualCondition :: "host \<Rightarrow> visual_condition \<Rightarrow> jstring \<Rightarrow> jstring \<times> visual_issue list" where
  "writeVisualCondition host (V_not i origin child) source =
     (let (text, issues) = writeVisualCondition host child source
      in (case origin of
            Some (Unary p e a b) \<Rightarrow>
              if condition_origin child = Some e then patchSource source (Unary p e a b) [(e, text)]
              else lit ''!('' @ text @ lit '')''
          | _ \<Rightarrow> lit ''!('' @ text @ lit '')'', issues))"
| "writeVisualCondition host (V_all i origin children) source =
     (let written = map (\<lambda>child. writeVisualCondition host child source) children
      in (group_text source ''&&'' origin (map condition_origin children) (map fst written),
          empty_group_issue i children @ concat (map snd written)))"
| "writeVisualCondition host (V_any i origin children) source =
     (let written = map (\<lambda>child. writeVisualCondition host child source) children
      in (group_text source ''||'' origin (map condition_origin children) (map fst written),
          empty_group_issue i children @ concat (map snd written)))"
| "writeVisualCondition host (V_comparison i origin probe timezone operator val) source =
     (let v = parseNonNegativeNumber val
      in (comparison_text source origin probe timezone operator val v,
          comparison_issues host i origin probe timezone operator v))"

definition visualConditionExpression :: "host \<Rightarrow> visual_condition \<Rightarrow> jstring \<Rightarrow> jstring option" where
  "visualConditionExpression host n source =
     (let (expression, issues) = writeVisualCondition host n source in if issues = [] then Some expression else None)"

text \<open>The text of a tier's label, and the two kinds of tier.\<close>

definition label_text :: "jstring \<Rightarrow> node \<Rightarrow> jstring \<Rightarrow> jstring" where
  "label_text source n label =
     (case n of Literal l _ _ _ \<Rightarrow> if l = LString label then source_of source n else json_string label | _ \<Rightarrow> json_string label)"

definition price_issue :: "jstring \<Rightarrow> jstring \<Rightarrow> visual_issue" where
  "price_issue i name = (i @ lit '':'' @ name, lit ''Enter a finite, non-negative price.'')"

definition fixed_issues :: "jstring \<Rightarrow> number option \<Rightarrow> visual_issue list" where
  "fixed_issues i v =
     (if (case v of None \<Rightarrow> True | Some x \<Rightarrow> \<not> isFinite (num_mul x (Fin 1000000))) then [price_issue i (lit ''fixed'')] else [])"

definition fixed_text :: "jstring \<Rightarrow> node option \<Rightarrow> jstring \<Rightarrow> jstring \<Rightarrow> number option \<Rightarrow> jstring" where
  "fixed_text source origin label fixedPrice v =
     (let plain = lit ''fixed('' @ fixedPrice @ lit '')''
      in case origin of
           Some (Call f (l # price # args) a b) \<Rightarrow>
             if f \<noteq> lit ''tier'' then lit ''tier('' @ json_string label @ lit '', '' @ plain @ lit '')''
             else
               let priceText =
                 (case price of
                    Call g (Literal x i c d # rest) s e \<Rightarrow>
                      if g = lit ''fixed''
                      then patchSource source price [(Literal x i c d, value_text source v (Literal x i c d) fixedPrice)]
                      else plain
                  | _ \<Rightarrow> plain)
               in patchSource source (Call f (l # price # args) a b) [(l, label_text source l label), (price, priceText)]
         | _ \<Rightarrow> lit ''tier('' @ json_string label @ lit '', '' @ plain @ lit '')'')"

text \<open>One round of the loop over the prices: the term, and the patch of its value.\<close>

definition price_patch :: "jstring \<Rightarrow> visual_price \<Rightarrow> (node \<times> jstring) option" where
  "price_patch source price =
     (case vp_origin price of
        Some (Binary _ _ (Literal x i a b) _ _) \<Rightarrow>
          Some (Literal x i a b,
                value_text source (parseNonNegativeNumber (vp_value price)) (Literal x i a b) (vp_value price))
      | _ \<Rightarrow> None)"

definition price_text :: "jstring \<Rightarrow> visual_price \<Rightarrow> jstring" where
  "price_text source price =
     (case (vp_origin price, price_patch source price) of
        (Some n, Some patch) \<Rightarrow> patchSource source n [patch]
      | _ \<Rightarrow> vp_variable price @ lit '' * '' @ vp_value price)"

definition price_issues :: "jstring \<Rightarrow> visual_price \<Rightarrow> visual_issue list" where
  "price_issues i price =
     (if parseNonNegativeNumber (vp_value price) = None then [price_issue i (vp_variable price)] else [])"

definition token_text :: "jstring \<Rightarrow> node option \<Rightarrow> jstring \<Rightarrow> visual_price list \<Rightarrow> jstring" where
  "token_text source origin label prices =
     (let terms = map (price_text source) prices;
          plain = lit ''tier('' @ json_string label @ lit '', '' @ join (lit '' + '') terms @ lit '')''
      in case origin of
           Some (Call f (l # body # args) a b) \<Rightarrow>
             if f \<noteq> lit ''tier'' then plain
             else
               patchSource source (Call f (l # body # args) a b)
                 ((l, label_text source l label) #
                  (if map vp_origin prices = map Some (flattenBinary body (lit ''+''))
                   then List.map_filter (price_patch source) prices
                   else [(body, join (lit '' + '') terms)]))
         | _ \<Rightarrow> plain)"

fun writeVisualPricing :: "host \<Rightarrow> visual_pricing \<Rightarrow> jstring \<Rightarrow> jstring \<times> visual_issue list" where
  "writeVisualPricing host (V_branch i origin condition yes no) source =
     (let (c, ci) = writeVisualCondition host condition source;
          (y, yi) = writeVisualPricing host yes source;
          (n, ni) = writeVisualPricing host no source
      in (case origin of
            Some (Conditional oc oy oe a b) \<Rightarrow> patchSource source (Conditional oc oy oe a b) [(oc, c), (oy, y), (oe, n)]
          | _ \<Rightarrow> lit ''('' @ c @ lit '') ? ('' @ y @ lit '') : ('' @ n @ lit '')'',
          ci @ yi @ ni))"
| "writeVisualPricing host (V_tier i origin label prices billingUnit fixedPrice) source =
     (if billingUnit = U_request then
        let v = parseNonNegativeNumber fixedPrice
        in (fixed_text source origin label fixedPrice v, fixed_issues i v)
      else
        (token_text source origin label prices,
         (if prices = [] then [(i, lit ''Include at least one price variable.'')] else []) @
         concat (map (price_issues i) prices)))"

definition serializeVisualBillingDocument :: "host \<Rightarrow> visual_document \<Rightarrow> visual_serialization" where
  "serializeVisualBillingDocument host document =
     (let source = vd_source document; tree = vd_root document; (body, issues) = writeVisualPricing host tree source
      in if issues \<noteq> [] then Rejected issues
         else
           case compile_result source of
             Failed _ \<Rightarrow>
               Rejected [(pricing_id tree, lit ''This expression cannot be edited visually without losing information.'')]
           | Ready original \<Rightarrow>
               let result = take (node_start (ce_ast original)) source @ body @ drop (node_end (ce_ast original)) source
               in (case compile_result result of
                     Failed _ \<Rightarrow> Rejected [(pricing_id tree, lit ''Enter a valid condition value.'')]
                   | Ready _ \<Rightarrow> Serialized result))"

definition parseVisualBillingDocument :: "host \<Rightarrow> jstring \<Rightarrow> visual_document option" where
  "parseVisualBillingDocument host source =
     (case compile_result source of
        Failed _ \<Rightarrow> None
      | Ready compiled \<Rightarrow>
          (case readVisualPricing (ce_ast compiled) of
             None \<Rightarrow> None
           | Some tree \<Rightarrow>
               let document = \<lparr>vd_source = source, vd_root = tree\<rparr>
               in (case serializeVisualBillingDocument host document of
                     Serialized _ \<Rightarrow> Some document
                   | Rejected _ \<Rightarrow> None)))"

end
