(* ===== verification/Visual_Facts.thy ===== *)
theory Visual_Facts
  imports Billing_Visual
begin

text \<open>
  The visual editor keeps the source: writing an unchanged document gives back
  the text it was read from, white space, labels and number formats included.
\<close>

subsection \<open>Patches that change nothing\<close>

definition span_in :: "node \<Rightarrow> node \<Rightarrow> bool" where
  "span_in m n \<longleftrightarrow> node_start n \<le> node_start m \<and> node_start m \<le> node_end m \<and> node_end m \<le> node_end n"

lemma apply_patch_same:
  assumes "span_in m n" "node_end n \<le> length source"
  shows "apply_patch n (m, source_of source m) (source_of source n) = source_of source n"
proof -
  let ?a = "node_start n" and ?b = "node_end n" and ?c = "node_start m" and ?d = "node_end m"
  have o: "?a \<le> ?c" "?c \<le> ?d" "?d \<le> ?b" using assms(1) by (simp_all add: span_in_def)
  have "take (?c - ?a) (slice source ?a ?b) = slice source ?a ?c"
    using o by (simp add: slice_def min_def)
  moreover have "drop (?d - ?a) (slice source ?a ?b) = slice source ?d ?b"
    using o by (simp add: slice_def drop_take)
  moreover have "slice source ?a ?c @ slice source ?c ?d @ slice source ?d ?b = slice source ?a ?b"
    using o assms(2) slice_append [of ?a ?c ?d source] slice_append [of ?a ?d ?b source]
    by (metis append.assoc le_trans)
  ultimately show ?thesis by (simp add: apply_patch_def source_of_def)
qed

lemma patchSource_same:
  assumes "\<forall>(m, text) \<in> set patches. span_in m n \<and> text = source_of source m" "node_end n \<le> length source"
  shows "patchSource source n patches = source_of source n"
proof -
  have "fold (apply_patch n) ps (source_of source n) = source_of source n"
    if "set ps \<subseteq> set patches" for ps
    using that
  proof (induction ps)
    case (Cons p ps)
    then have "apply_patch n p (source_of source n) = source_of source n"
      using assms apply_patch_same [of "fst p" n source] by (cases p) auto
    then show ?case using Cons by simp
  qed simp
  then show ?thesis by (simp add: patchSource_def source_of_def)
qed

subsection \<open>Numbers\<close>

lemma scan_number_not_radix:
  assumes "scan_number t = t" "t \<noteq> []"
  shows "take 2 t \<notin> {lit ''0x'', lit ''0X'', lit ''0o'', lit ''0O'', lit ''0b'', lit ''0B''}"
proof
  assume "take 2 t \<in> {lit ''0x'', lit ''0X'', lit ''0o'', lit ''0O'', lit ''0b'', lit ''0B''}"
  then obtain c r where t: "t = 48 # c # r" "c \<in> {120, 88, 111, 79, 98, 66}"
    by (cases t; cases "tl t") (auto simp: lit_def)
  then have "scan_number t = [48]" by (auto simp: scan_number_def scan_mantissa_def scan_exponent_def is_digit_def)
  then show False using assms t by simp
qed

lemma scan_number_chars:
  assumes "c \<in> set (scan_number t)"
  shows "is_digit c \<or> c \<in> {46, 101, 69, 43, 45}"
proof -
  have m: "is_digit c \<or> c = 46" if "c \<in> set (scan_mantissa u)" for u
    using that by (auto simp: scan_mantissa_def Let_def dest: set_takeWhileD split: list.splits if_splits)
  have e: "is_digit c \<or> c \<in> {101, 69, 43, 45}" if "c \<in> set (scan_exponent u)" for u
    using that by (cases u; cases "tl u") (auto simp: scan_exponent_def Let_def dest: set_takeWhileD split: if_splits)
  show ?thesis using assms m e by (fastforce simp: scan_number_def Let_def split: if_splits)
qed

lemma scan_number_hd: "scan_number t = t \<Longrightarrow> t \<noteq> [] \<Longrightarrow> is_digit (hd t) \<or> hd t = 46"
  by (cases t) (auto simp: scan_number_def scan_mantissa_def Let_def split: if_splits list.splits)

lemma number_char_not_space: "is_digit c \<or> c \<in> {46, 101, 69, 43, 45} \<Longrightarrow> \<not> is_space c"
  by (auto simp: is_digit_def is_space_def)

lemma string_to_number_scanned:
  assumes "scan_number t = t" "t \<noteq> []"
  shows "trim t = t" "string_to_number t = decimal_number t"
proof -
  show tr: "trim t = t"
    using assms scan_number_chars [of "hd t" t] scan_number_chars [of "last t" t] by (intro trim_id number_char_not_space) auto
  have "hd t \<noteq> 43" "hd t \<noteq> 45" using scan_number_hd [OF assms] by (auto simp: is_digit_def)
  moreover have "t \<noteq> lit ''Infinity''"
    using scan_number_hd [OF assms] by (auto simp: lit_def is_digit_def)
  ultimately show "string_to_number t = decimal_number t"
    using scan_number_not_radix [OF assms] assms tr by (simp add: string_to_number_def unsigned_number_def)
qed

lemma parse_printed:
  assumes "number_ok v i"
  shows "parseNonNegativeNumber (number_to_string v) = Some v"
proof -
  obtain q where q: "v = Fin q" "is_double (Fin q)" "0 \<le> q" using assms by (auto simp: number_ok_def)
  note r = number_round_trip [OF q(2,3)]
  have "number_to_string (Fin q) \<noteq> []"
  proof (cases "q = 0")
    case False
    then show ?thesis using r(1) by (auto simp: decimal_number_def decimal_rat_def num_of_rat_def)
  qed (simp add: number_to_string_def)
  then show ?thesis
    using string_to_number_scanned [OF r(2)] r q by (simp add: parseNonNegativeNumber_def isFinite_def num_le_def num_eq_def num_lt_def)
qed

subsection \<open>Conditions\<close>

lemma spans_child:
  "spans_ok n \<Longrightarrow> c \<in> set (node_children n) \<Longrightarrow> spans_ok c \<and> span_in c n"
  using spans_okD [of n] spans_okD(1) [of c] by (auto simp: span_in_def)

lemma span_in_trans: "span_in a b \<Longrightarrow> span_in b c \<Longrightarrow> span_in a c"
  by (auto simp: span_in_def)

lemma flatten_ok:
  "m \<in> set (flattenBinary n operator) \<Longrightarrow> spans_ok n \<Longrightarrow> vocabulary_ok n \<Longrightarrow> spans_ok m \<and> vocabulary_ok m \<and> span_in m n"
proof (induction n operator rule: flattenBinary.induct)
  case (1 p l r a b operator)
  have c: "spans_ok l" "spans_ok r" "span_in l (Binary p l r a b)" "span_in r (Binary p l r a b)"
    using spans_child [OF 1(4)] by simp_all
  have self: "span_in (Binary p l r a b) (Binary p l r a b)" using spans_okD(1) [OF 1(4)] by (simp add: span_in_def)
  show ?case using 1 c self span_in_trans by (auto split: if_splits)
qed (auto simp: span_in_def dest: spans_okD(1))

lemma read_condition_origin: "readVisualCondition n = Some v \<Longrightarrow> condition_origin v = Some n"
  by (cases n rule: readVisualCondition.cases)
    (auto simp: Let_def readVisualComparison_def split: if_splits node.splits literal_value.splits list.splits)

lemma value_text_literal:
  "number_ok v i \<Longrightarrow> value_text source (parseNonNegativeNumber (number_to_string v)) (Literal (LNumber v) i a b) t =
     source_of source (Literal (LNumber v) i a b)"
  using parse_printed [of v i] by (auto simp: value_text_def same_literal_def num_eq_def number_ok_def)

definition readable :: "jstring \<Rightarrow> node \<Rightarrow> bool" where
  "readable source n \<longleftrightarrow> spans_ok n \<and> vocabulary_ok n \<and> node_end n \<le> length source"

lemma comparison_written:
  assumes "readVisualComparison n = Some v" "readable source n"
  shows "fst (writeVisualCondition host v source) = source_of source n"
proof -
  obtain p l x i a b s e where n: "n = Binary p l (Literal (LNumber x) i a b) s e"
    using assms(1) by (auto simp: readVisualComparison_def split: node.splits literal_value.splits if_splits)
  have x: "number_ok x i" using assms(2) n by (simp add: readable_def)
  have c: "span_in l n" "span_in (Literal (LNumber x) i a b) n"
    using spans_child [of n] assms(2) n by (auto simp: readable_def)
  have "patchSource source n [(l, source_of source l), (Literal (LNumber x) i a b, source_of source (Literal (LNumber x) i a b))]
      = source_of source n"
    using c assms(2) by (intro patchSource_same) (auto simp: readable_def)
  then show ?thesis
    using assms(1) unfolding n
    by (auto simp: readVisualComparison_def comparison_text_def Let_def value_text_literal [OF x]
        split: node.splits literal_value.splits list.splits if_splits)
qed

lemma those_map: "those (map f xs) = Some ys \<longleftrightarrow> list_all2 (\<lambda>x y. f x = Some y) xs ys"
  by (induction xs arbitrary: ys) (auto simp: list_all2_Cons1 split: option.splits)

lemma list_all2_map_eq:
  "list_all2 P xs ys \<Longrightarrow> (\<And>x y. x \<in> set xs \<Longrightarrow> P x y \<Longrightarrow> g y = f x) \<Longrightarrow> map g ys = map f xs"
  by (induction rule: list_all2_induct) auto

lemma group_written:
  assumes "readable source n" "n = Binary (lit p) l r a b" "texts = map (source_of source) (flattenBinary n (lit p))"
  shows "group_text source p (Some n) (map Some (flattenBinary n (lit p))) texts = source_of source n"
proof -
  have "patchSource source n (zip (flattenBinary n (lit p)) texts) = source_of source n"
    using assms(1,3) flatten_ok [of _ n "lit p"]
    by (intro patchSource_same) (auto simp: readable_def zip_map2 zip_same_conv_map)
  then show ?thesis using assms(2) by (simp add: group_text_def Let_def)
qed

lemma condition_written:
  "readVisualCondition n = Some v \<Longrightarrow> readable source n \<Longrightarrow> fst (writeVisualCondition host v source) = source_of source n"
proof (induction n arbitrary: v rule: readVisualCondition.induct)
  case (1 p e a b)
  then obtain w where v: "p = lit ''!''" "readVisualCondition e = Some w"
      "v = V_not (span_id ''condition-'' (Unary p e a b)) (Some (Unary p e a b)) w"
    by (auto split: if_splits)
  have e: "readable source e" "span_in e (Unary p e a b)"
    using 1(3) spans_child [of "Unary p e a b" e] by (auto simp: readable_def span_in_def)
  have "patchSource source (Unary p e a b) [(e, source_of source e)] = source_of source (Unary p e a b)"
    using e 1(3) by (intro patchSource_same) (auto simp: readable_def)
  then show ?case using 1(1) [OF v(1,2) e(1)] v read_condition_origin [OF v(2)] by (simp add: case_prod_beta)
next
  case (2 p l r a b)
  let ?n = "Binary p l r a b"
  show ?case
  proof (cases "p = lit ''&&'' \<or> p = lit ''||''")
    case True
    obtain cs where cs: "list_all2 (\<lambda>m c. readVisualCondition m = Some c) (flattenBinary ?n p) cs"
        "v = (if p = lit ''&&'' then V_all (span_id ''condition-'' ?n) (Some ?n) cs
              else V_any (span_id ''condition-'' ?n) (Some ?n) cs)"
      using 2(2) True by (auto simp: Let_def those_map simp del: flattenBinary.simps split: if_splits)
    have ok: "readable source m" if "m \<in> set (flattenBinary ?n p)" for m
      using flatten_ok [OF that] 2(3) by (auto simp: readable_def span_in_def)
    have "map (\<lambda>c. fst (writeVisualCondition host c source)) cs = map (source_of source) (flattenBinary ?n p)"
      by (rule list_all2_map_eq [OF cs(1)]) (rule 2(1) [OF refl True _ _ ok])
    moreover have "map condition_origin cs = map Some (flattenBinary ?n p)"
      by (rule list_all2_map_eq [OF cs(1)]) (rule read_condition_origin)
    ultimately show ?thesis using True cs(2) group_written [OF 2(3)]
      by (auto simp: Let_def o_def simp del: flattenBinary.simps)
  next
    case False
    then show ?thesis using comparison_written 2(2,3) by (simp add: Let_def)
  qed
qed auto

subsection \<open>Tiers\<close>

definition price_read :: "node \<Rightarrow> visual_price \<Rightarrow> bool" where
  "price_read t q \<longleftrightarrow>
     (\<exists>x v i s e c d a b. t = Binary (lit ''*'') (Variable x s e) (Literal (LNumber v) i c d) a b \<and>
       q = \<lparr>vp_variable = x, vp_value = number_to_string v, vp_origin = Some t\<rparr>)"

lemma read_prices_terms:
  assumes "read_prices ts ps = Some qs"
  shows "\<exists>rs. qs = ps @ rs \<and> list_all2 price_read ts rs"
  using assms
proof (induction ts arbitrary: ps)
  case (Cons t ts)
  then obtain x v i s e c d a b where t: "t = Binary (lit ''*'') (Variable x s e) (Literal (LNumber v) i c d) a b"
      "read_prices ts (ps @ [\<lparr>vp_variable = x, vp_value = number_to_string v, vp_origin = Some t\<rparr>]) = Some qs"
    by (auto split: node.splits literal_value.splits if_splits)
  have "price_read t \<lparr>vp_variable = x, vp_value = number_to_string v, vp_origin = Some t\<rparr>"
    using t(1) by (auto simp: price_read_def)
  then show ?case using Cons.IH [OF t(2)] by auto
qed simp

lemma label_text_same: "label_text source (Literal (LString label) i a b) label = source_of source (Literal (LString label) i a b)"
  by (simp add: label_text_def)

lemma token_tier_written:
  assumes n: "n = Call (lit ''tier'') (Literal (LString label) i a b # body # args) s e" and ok: "readable source n"
    and p: "read_prices (flattenBinary body (lit ''+'')) [] = Some prices"
  shows "token_text source (Some n) label prices = source_of source n"
proof -
  let ?terms = "flattenBinary body (lit ''+'')"
  have t: "list_all2 price_read ?terms prices"
    using read_prices_terms [OF p] by simp
  have origins: "map vp_origin prices = map Some ?terms" by (rule list_all2_map_eq [OF t]) (auto simp: price_read_def)
  have c: "spans_ok body" "span_in body n" "span_in (Literal (LString label) i a b) n" "vocabulary_ok body"
    using spans_child [of n] ok n by (auto simp: readable_def)
  have patch: "\<exists>m. price_patch source q = Some (m, source_of source m) \<and> span_in m n" if "q \<in> set prices" for q
  proof -
    have "\<exists>t \<in> set ?terms. price_read t q"
      using t that by (metis in_set_conv_nth list_all2_conv_all_nth)
    then obtain t x v j k d w y z f where q: "t \<in> set ?terms" "t = Binary (lit ''*'') (Variable x j k) (Literal (LNumber v) d w y) z f"
        "q = \<lparr>vp_variable = x, vp_value = number_to_string v, vp_origin = Some t\<rparr>"
      by (auto simp: price_read_def)
    have tok: "spans_ok t" "vocabulary_ok t" "span_in t body" using flatten_ok [OF q(1) c(1,4)] by auto
    then have "span_in (Literal (LNumber v) d w y) n" "number_ok v d"
      using spans_child [OF tok(1)] span_in_trans [OF _ span_in_trans [OF tok(3) c(2)]] q(2) by auto
    then show ?thesis using q by (auto simp: price_patch_def value_text_literal)
  qed
  have "patchSource source n ((Literal (LString label) i a b, source_of source (Literal (LString label) i a b)) #
      List.map_filter (price_patch source) prices) = source_of source n"
    using patch c(3) ok by (intro patchSource_same) (fastforce simp: readable_def List.map_filter_def)+
  then show ?thesis using origins n by (simp add: token_text_def Let_def label_text_same)
qed

lemma fixed_argument_number:
  assumes "static_type (Call (lit ''fixed'') (Literal x i c d # rest) s e) \<noteq> None"
  shows "\<exists>v. x = LNumber v"
proof -
  let ?n = "Call (lit ''fixed'') (Literal x i c d # rest) s e"
  obtain t where "static_type ?n = Some t" using assms by auto
  then have "node_type (child_type ?n) ?n = Inr t" by (rule static_type_SomeD)
  then have "requireType (child_type ?n) (Literal x i c d) T_number = Inr ()"
    by (auto simp: node_type_def call_type_def TIME_FUNCTIONS_def err_simps)
  then show ?thesis
    by (cases x) (auto simp: requireType_Inr static_type.simps [of "Literal _ _ _ _"] node_type_def literal_type_def)
qed

lemma fixed_tier_written:
  assumes n: "n = Call (lit ''tier'') (Literal (LString label) i a b # Call (lit ''fixed'') (Literal x k c d # rest) g h # args) s e"
    and ok: "readable source n" and t: "static_type n \<noteq> None"
  shows "fixed_text source (Some n) label (literal_to_string x) (parseNonNegativeNumber (literal_to_string x)) = source_of source n"
proof -
  let ?l = "Literal (LString label) i a b" and ?p = "Call (lit ''fixed'') (Literal x k c d # rest) g h"
  have "static_type ?p \<noteq> None" using t static_type_children [of n _ ?p] n by auto
  then obtain v where v: "x = LNumber v" using fixed_argument_number by blast
  have c: "spans_ok ?p" "span_in ?p n" "span_in ?l n" "number_ok v k"
    using spans_child [of n] ok n v by (auto simp: readable_def)
  have "span_in (Literal x k c d) ?p" using spans_child [OF c(1)] by simp
  then have "patchSource source ?p [(Literal x k c d, source_of source (Literal x k c d))] = source_of source ?p"
    using c(2) ok by (intro patchSource_same) (auto simp: readable_def span_in_def)
  moreover have "patchSource source n [(?l, source_of source ?l), (?p, source_of source ?p)] = source_of source n"
    using c(2,3) ok by (intro patchSource_same) (auto simp: readable_def)
  ultimately show ?thesis
    using n v by (simp add: fixed_text_def Let_def label_text_same value_text_literal [OF c(4)] literal_to_string_def)
qed

lemma pricing_written:
  "readVisualPricing n = Some v \<Longrightarrow> readable source n \<Longrightarrow> static_type n \<noteq> None \<Longrightarrow>
     fst (writeVisualPricing host v source) = source_of source n"
proof (induction n arbitrary: v rule: readVisualPricing.induct [case_names conditional literal variable call unary binary])
  case (conditional c y e a b)
  let ?n = "Conditional c y e a b"
  obtain vc vy ve where v: "readVisualCondition c = Some vc" "readVisualPricing y = Some vy" "readVisualPricing e = Some ve"
      "v = V_branch (span_id ''pricing-'' ?n) (Some ?n) vc vy ve"
    using conditional(3) by (auto split: option.splits)
  have s: "span_in m ?n" "readable source m" "static_type m \<noteq> None" if "m \<in> {c, y, e}" for m
    using spans_child [of ?n m] that conditional(4,5) static_type_children [of ?n _ m] by (auto simp: readable_def span_in_def)
  have "patchSource source ?n [(c, source_of source c), (y, source_of source y), (e, source_of source e)] = source_of source ?n"
    using s(1) conditional(4) by (intro patchSource_same) (auto simp: readable_def)
  moreover have "fst (writeVisualCondition host vc source) = source_of source c"
    by (rule condition_written [OF v(1)]) (simp add: s)
  moreover have "fst (writeVisualPricing host vy source) = source_of source y" by (rule conditional(1) [OF v(2)]) (simp_all add: s)
  moreover have "fst (writeVisualPricing host ve source) = source_of source e" by (rule conditional(2) [OF v(3)]) (simp_all add: s)
  ultimately show ?case using v(4) by (simp add: case_prod_beta)
next
  case (call f ns s e)
  then obtain label i a b body args where n: "Call f ns s e = Call (lit ''tier'') (Literal (LString label) i a b # body # args) s e"
    by (auto split: list.splits node.splits literal_value.splits if_splits)
  show ?case
  proof (cases "\<exists>x k c d rest g h. body = Call (lit ''fixed'') (Literal x k c d # rest) g h")
    case True
    then obtain x k c d rest g h where b: "body = Call (lit ''fixed'') (Literal x k c d # rest) g h" by blast
    show ?thesis using call n b fixed_tier_written [OF n [unfolded b]] by (auto simp: Let_def)
  next
    case False
    then have "(case body of Call g (Literal amount _ _ _ # _) _ _ \<Rightarrow> if g = lit ''fixed'' then Some amount else None
        | _ \<Rightarrow> None) = None" by (auto split: node.splits list.splits)
    then obtain prices where "read_prices (flattenBinary body (lit ''+'')) [] = Some prices"
      "v = V_tier (span_id ''pricing-'' (Call f ns s e)) (Some (Call f ns s e)) label prices U_token []"
      using call(1) n by auto
    then show ?thesis using token_tier_written [OF n] call(2) by simp
  qed
qed auto

subsection \<open>Properties\<close>

lemma parse_sample: "\<exists>doc. parseVisualBillingDocument sample_host sample_source = Some doc"
proof -
  have "case readVisualPricing (ce_ast sample_compiled) of
      Some r \<Rightarrow> writeVisualPricing sample_host r sample_source = (sample_source, []) | None \<Rightarrow> False" by code_simp
  then obtain r where r: "readVisualPricing (ce_ast sample_compiled) = Some r"
      "writeVisualPricing sample_host r sample_source = (sample_source, [])" by (auto split: option.splits)
  have "node_start (ce_ast sample_compiled) = 0" "node_end (ce_ast sample_compiled) = length sample_source"
    by (simp_all add: sample_compiled_def sample_source_def)
  then have "serializeVisualBillingDocument sample_host \<lparr>vd_source = sample_source, vd_root = r\<rparr> = Serialized sample_source"
    using r(2) by (simp add: serializeVisualBillingDocument_def compile_sample)
  then show ?thesis using r(1) by (simp add: parseVisualBillingDocument_def compile_sample)
qed

text \<open>
  C20: opening and saving an expression in the visual editor keeps it to the
  letter. Whenever a source can be opened, writing the unchanged document back
  gives exactly the source again: white space, parentheses, labels, the order of
  the prices and the format of the numbers.
\<close>

theorem visual_round_trip:
  assumes "parseVisualBillingDocument host source = Some doc"
  shows "serializeVisualBillingDocument host doc = Serialized source"
proof -
  obtain c r where c: "compile_result source = Ready c" "readVisualPricing (ce_ast c) = Some r"
      "doc = \<lparr>vd_source = source, vd_root = r\<rparr>" "\<exists>t. serializeVisualBillingDocument host doc = Serialized t"
    using assms
    by (auto simp: parseVisualBillingDocument_def Let_def
        split: compilation_result.splits option.splits visual_serialization.splits)
  note ready = compile_result_Ready [OF c(1)]
  note ok = parse_source_ok [OF ready(1)]
  have "readable source (ce_ast c)" using ok by (simp add: readable_def)
  then have body: "fst (writeVisualPricing host r source) = source_of source (ce_ast c)"
    by (rule pricing_written [OF c(2) _ ready(3)])
  have "node_start (ce_ast c) \<le> node_end (ce_ast c)" using spans_okD(1) [OF ok(1)] by simp
  then have whole: "take (node_start (ce_ast c)) source @ source_of source (ce_ast c) @ drop (node_end (ce_ast c)) source = source"
    using slice_append [of "node_start (ce_ast c)" "node_end (ce_ast c)" "length source" source] ok(3)
    by (simp add: source_of_def slice_def)
  show ?thesis
    using c body whole
    by (auto simp: serializeVisualBillingDocument_def Let_def case_prod_beta split: if_splits compilation_result.splits)
qed

theorem visual_round_trip_witness:
  "\<exists>doc. parseVisualBillingDocument sample_host sample_source = Some doc \<and>
     serializeVisualBillingDocument sample_host doc = Serialized sample_source"
proof -
  obtain doc where d: "parseVisualBillingDocument sample_host sample_source = Some doc" using parse_sample by blast
  show ?thesis using visual_round_trip [OF d] d by blast
qed

end
