(* ===== verification/Visual_Ids.thy ===== *)
theory Visual_Ids
  imports Visual_Facts "HOL-Library.Multiset"
begin

text \<open>
  The identifiers of the visual editor: the parts of a document are named after
  the spans of distinct nodes, and new parts after a counter.
\<close>

subsection \<open>Identifiers\<close>

fun condition_ids :: "visual_condition \<Rightarrow> jstring list" where
  "condition_ids (V_comparison i _ _ _ _ _) = [i]"
| "condition_ids (V_all i _ cs) = i # concat (map condition_ids cs)"
| "condition_ids (V_any i _ cs) = i # concat (map condition_ids cs)"
| "condition_ids (V_not i _ c) = i # condition_ids c"

fun pricing_ids :: "visual_pricing \<Rightarrow> jstring list" where
  "pricing_ids (V_tier i _ _ _ _ _) = [i]"
| "pricing_ids (V_branch i _ c y e) = i # condition_ids c @ pricing_ids y @ pricing_ids e"

lemma int_digits_inject: "0 \<le> a \<Longrightarrow> 0 \<le> b \<Longrightarrow> int_digits a = int_digits b \<Longrightarrow> a = b"
  by (metis int_digits_props(1))

lemma takeWhile_int_digits: "0 \<le> a \<Longrightarrow> takeWhile is_digit (int_digits a @ 45 # r) = int_digits a"
  using int_digits_props(2) [of a] by (auto simp: takeWhile_append2 is_digit_def)

lemma span_id_inject: "span_id pre m = span_id pre n \<Longrightarrow> node_span m = node_span n"
proof -
  assume e: "span_id pre m = span_id pre n"
  then have "int_digits (int (node_start m)) @ 45 # int_digits (int (node_end m)) =
      int_digits (int (node_start n)) @ 45 # int_digits (int (node_end n))"
    by (simp add: span_id_def lit_def)
  then have "int_digits (int (node_start m)) = int_digits (int (node_start n))"
      "int_digits (int (node_end m)) = int_digits (int (node_end n))"
    by (metis takeWhile_int_digits of_nat_0_le_iff, metis takeWhile_int_digits of_nat_0_le_iff same_append_eq list.inject)
  then show ?thesis using int_digits_inject by (metis of_nat_0_le_iff of_nat_eq_iff)
qed

text \<open>The identifiers of a document are those of distinct nodes of the tree.\<close>

lemma flatten_subnodes: "mset (concat (map subnodes (flattenBinary n operator))) \<subseteq># mset (subnodes n)"
proof (induction n operator rule: flattenBinary.induct)
  case (1 p l r a b operator)
  show ?case
  proof (cases "p = operator")
    case True
    have "mset (concat (map subnodes (flattenBinary l operator))) + mset (concat (map subnodes (flattenBinary r operator))) \<subseteq>#
        mset (subnodes l) + mset (subnodes r)" using 1 True by (intro subset_mset.add_mono) auto
    also have "\<dots> \<subseteq># mset (subnodes (Binary p l r a b))" by (simp add: subnodes.simps [of "Binary p l r a b"])
    finally show ?thesis using True by simp
  qed simp
qed simp_all

lemma condition_id_nodes:
  "readVisualCondition n = Some v \<Longrightarrow> \<exists>ms. condition_ids v = map (span_id ''condition-'') ms \<and> mset ms \<subseteq># mset (subnodes n)"
proof (induction n arbitrary: v rule: readVisualCondition.induct)
  case (1 p e a b)
  let ?n = "Unary p e a b"
  obtain w where v: "p = lit ''!''" "readVisualCondition e = Some w" "v = V_not (span_id ''condition-'' ?n) (Some ?n) w"
    using 1(2) by (auto split: if_splits)
  obtain ms where "condition_ids w = map (span_id ''condition-'') ms" "mset ms \<subseteq># mset (subnodes e)"
    using 1(1) [OF v(1,2)] by blast
  then show ?case using v(3) by (intro exI [of _ "?n # ms"]) (simp add: subnodes.simps [of ?n])
next
  case (2 p l r a b)
  let ?n = "Binary p l r a b"
  show ?case
  proof (cases "p = lit ''&&'' \<or> p = lit ''||''")
    case True
    obtain cs where cs: "list_all2 (\<lambda>m c. readVisualCondition m = Some c) (flattenBinary ?n p) cs"
        "condition_ids v = span_id ''condition-'' ?n # concat (map condition_ids cs)"
      using 2(2) True by (auto simp: Let_def those_map simp del: flattenBinary.simps split: if_splits)
    have "\<exists>ms. concat (map condition_ids cs) = map (span_id ''condition-'') ms \<and> mset ms \<subseteq># mset (concat (map subnodes ps))"
      if "list_all2 (\<lambda>m c. readVisualCondition m = Some c) ps cs" "set ps \<subseteq> set (flattenBinary ?n p)" for ps cs
      using that
    proof (induction rule: list_all2_induct)
      case (Cons m ps c cs)
      obtain xs ys where "condition_ids c = map (span_id ''condition-'') xs" "mset xs \<subseteq># mset (subnodes m)"
          "concat (map condition_ids cs) = map (span_id ''condition-'') ys" "mset ys \<subseteq># mset (concat (map subnodes ps))"
        using 2(1) [OF refl True _ Cons(1)] Cons by (auto simp del: flattenBinary.simps)
      then show ?case by (intro exI [of _ "xs @ ys"]) (simp add: subset_mset.add_mono)
    qed simp
    from this [OF cs(1)] obtain ms where ms: "concat (map condition_ids cs) = map (span_id ''condition-'') ms"
        "mset ms \<subseteq># mset (concat (map subnodes (flattenBinary ?n p)))" by blast
    have "mset (concat (map subnodes (flattenBinary ?n p))) \<subseteq># mset (subnodes l) + mset (subnodes r)"
      using flatten_subnodes [of l p] flatten_subnodes [of r p] by (simp add: subset_mset.add_mono)
    then show ?thesis using ms cs(2) subset_mset.order_trans [OF ms(2)]
      by (intro exI [of _ "?n # ms"]) (simp add: subnodes.simps [of ?n])
  next
    case False
    then have "condition_ids v = [span_id ''condition-'' ?n]" using 2(2)
      by (auto simp: readVisualComparison_def Let_def split: node.splits literal_value.splits list.splits if_splits)
    then show ?thesis by (intro exI [of _ "[?n]"]) (simp add: subnodes.simps [of ?n])
  qed
qed auto

lemma pricing_id_nodes:
  "readVisualPricing n = Some v \<Longrightarrow> \<exists>ps cs. mset (pricing_ids v) = mset (map (span_id ''pricing-'') ps @ map (span_id ''condition-'') cs) \<and>
     mset (ps @ cs) \<subseteq># mset (subnodes n)"
proof (induction n arbitrary: v rule: readVisualPricing.induct [case_names conditional literal variable call unary binary])
  case (conditional c y e a b)
  let ?n = "Conditional c y e a b"
  obtain vc vy ve where v: "readVisualCondition c = Some vc" "readVisualPricing y = Some vy" "readVisualPricing e = Some ve"
      "v = V_branch (span_id ''pricing-'' ?n) (Some ?n) vc vy ve"
    using conditional(3) by (auto split: option.splits)
  obtain ms ps cs qs ds where m: "condition_ids vc = map (span_id ''condition-'') ms" "mset ms \<subseteq># mset (subnodes c)"
      "mset (pricing_ids vy) = mset (map (span_id ''pricing-'') ps @ map (span_id ''condition-'') cs)"
      "mset (ps @ cs) \<subseteq># mset (subnodes y)"
      "mset (pricing_ids ve) = mset (map (span_id ''pricing-'') qs @ map (span_id ''condition-'') ds)"
      "mset (qs @ ds) \<subseteq># mset (subnodes e)"
    using condition_id_nodes [OF v(1)] conditional(1) [OF v(2)] conditional(2) [OF v(3)] by blast
  have "mset ms + (mset (ps @ cs) + mset (qs @ ds)) \<subseteq># mset (subnodes c) + (mset (subnodes y) + mset (subnodes e))"
    by (intro subset_mset.add_mono m)
  then have "mset ((?n # ps @ qs) @ (ms @ cs @ ds)) \<subseteq># mset (subnodes ?n)"
    by (simp add: subnodes.simps [of ?n] ac_simps)
  then show ?case using v(4) m(1,3,5) by (intro exI [of _ "?n # ps @ qs"] exI [of _ "ms @ cs @ ds"]) (simp add: ac_simps)
next
  case (call f ns s e)
  then have "pricing_ids v = [span_id ''pricing-'' (Call f ns s e)]"
    by (auto split: option.splits node.splits list.splits literal_value.splits if_splits)
  then show ?case
    by (intro exI [of _ "[Call f ns s e]"] exI [of _ "[]"]) (simp add: subnodes.simps [of "Call f ns s e"])
qed auto

lemma distinct_subset_mset: "mset xs \<subseteq># mset ys \<Longrightarrow> distinct ys \<Longrightarrow> distinct xs"
proof -
  assume s: "mset xs \<subseteq># mset ys" and d: "distinct ys"
  have "count (mset xs) a = (if a \<in> set xs then 1 else 0)" for a
  proof (cases "a \<in> set xs")
    case True
    have "count (mset xs) a \<le> count (mset ys) a" by (rule mset_subset_eq_count [OF s])
    also have "\<dots> \<le> 1" using d by (auto simp: distinct_count_atmost_1)
    finally show ?thesis using True by (simp add: le_Suc_eq count_mset_0_iff)
  qed (simp add: count_mset_0_iff)
  then show ?thesis by (simp add: distinct_count_atmost_1)
qed

lemma distinct_document_ids:
  assumes "readVisualPricing n = Some v" "spans_ok n"
  shows "distinct (pricing_ids v)"
proof -
  obtain ps cs where p: "mset (pricing_ids v) = mset (map (span_id ''pricing-'') ps @ map (span_id ''condition-'') cs)"
      "mset (ps @ cs) \<subseteq># mset (subnodes n)"
    using pricing_id_nodes [OF assms(1)] by blast
  have "mset (map node_span (ps @ cs)) \<subseteq># mset (map node_span (subnodes n))"
    using image_mset_subseteq_mono [OF p(2), of node_span] by simp
  then have d: "distinct (map node_span (ps @ cs))" by (rule distinct_subset_mset [OF _ distinct_spans [OF assms(2)]])
  have inj: "inj_on (span_id pre) A" if "inj_on node_span A" for pre A
    using that span_id_inject unfolding inj_on_def by blast
  have "span_id ''pricing-'' a \<noteq> span_id ''condition-'' b" for a b by (simp add: span_id_def lit_def)
  then have "distinct (map (span_id ''pricing-'') ps @ map (span_id ''condition-'') cs)"
    using d inj by (auto simp: distinct_map)
  then show ?thesis using mset_eq_imp_distinct_iff [OF p(1)] by blast
qed

subsection \<open>Properties\<close>

text \<open>
  C21: identifiers of the visual editor never clash: the parts of an opened
  document have distinct identifiers, and those handed out for new parts differ
  from all of them and from each other.
\<close>

theorem visual_ids_distinct:
  assumes "parseVisualBillingDocument host source = Some doc"
  shows "distinct (pricing_ids (vd_root doc)) \<and>
    (\<forall>k. fst (visualNodeId k) \<notin> set (pricing_ids (vd_root doc)) \<and> (\<forall>j. fst (visualNodeId j) = fst (visualNodeId k) \<longleftrightarrow> j = k))"
proof -
  obtain c r where c: "compile_result source = Ready c" "readVisualPricing (ce_ast c) = Some r" "vd_root doc = r"
    using assms
    by (auto simp: parseVisualBillingDocument_def Let_def
        split: compilation_result.splits option.splits visual_serialization.splits)
  have ok: "spans_ok (ce_ast c)" using parse_source_ok(1) compile_result_Ready(1) [OF c(1)] by blast
  obtain ps cs where m: "mset (pricing_ids r) = mset (map (span_id ''pricing-'') ps @ map (span_id ''condition-'') cs)"
    using pricing_id_nodes [OF c(2)] by blast
  have "hd (span_id ''pricing-'' m) = 112" "hd (span_id ''condition-'' m) = 99" for m by (simp_all add: span_id_def lit_def)
  then have hds: "hd x \<noteq> 100" if "x \<in> set (pricing_ids r)" for x using that mset_eq_setD [OF m] by auto
  have "hd (fst (visualNodeId k)) = 100" for k by (simp add: visualNodeId_def lit_def)
  then have "fst (visualNodeId k) \<notin> set (pricing_ids r)" for k using hds by blast
  moreover have "j = k" if "fst (visualNodeId j) = fst (visualNodeId k)" for j k
  proof -
    have "int_digits (int (j + 1)) = int_digits (int (k + 1))" using that by (simp add: visualNodeId_def)
    then show ?thesis using int_digits_inject [of "int (j + 1)" "int (k + 1)"] by simp
  qed
  ultimately show ?thesis using distinct_document_ids [OF c(2) ok] c(3) by blast
qed

theorem visual_ids_distinct_witness:
  "\<exists>doc. parseVisualBillingDocument sample_host sample_source = Some doc \<and> distinct (pricing_ids (vd_root doc)) \<and>
     fst (visualNodeId 0) \<notin> set (pricing_ids (vd_root doc))"
proof -
  obtain doc where d: "parseVisualBillingDocument sample_host sample_source = Some doc" using parse_sample by blast
  show ?thesis using visual_ids_distinct [OF d] d by blast
qed

end
