(* ===== verification/Status_Code_Rules.thy ===== *)
theory Status_Code_Rules
  imports JS_String "HOL-Library.Product_Lexorder"
begin

text \<open>
  The rules for HTTP status codes of \<open>lib/http-status-code-rules.ts\<close>: a list of
  codes and ranges is parsed, and the ranges are sorted and merged. The lemmas show
  that the merged ranges are disjoint, cover what the tokens say, and that the
  normalised text is read back unchanged.
\<close>

subsection \<open>Definitions\<close>

record status_range =
  sr_start :: int
  sr_end :: int

record parsed_rules =
  pr_ok :: bool
  pr_ranges :: "status_range list"
  pr_tokens :: "jstring list"
  pr_normalized :: jstring
  pr_invalidTokens :: "jstring list"

definition isNumber :: "jstring \<Rightarrow> bool" where
  "isNumber s \<longleftrightarrow> s \<noteq> [] \<and> list_all is_digit s"

text \<open>\<open>parseInt\<close> of digits is their value; a value beyond the doubles is no valid code either way.\<close>

definition isValidCode :: "int \<Rightarrow> bool" where
  "isValidCode code \<longleftrightarrow> 100 \<le> code \<and> code \<le> 599"

definition parseToken :: "jstring \<Rightarrow> status_range option" where
  "parseToken token =
     (let cleaned = filter (\<lambda>c. \<not> is_space c) (trim token)
      in if cleaned = [] then None
         else if 45 \<in> set cleaned then
           (case split_on 45 cleaned of
              a # b # _ \<Rightarrow>
                if \<not> isNumber a \<or> \<not> isNumber b then None
                else
                  let first = digits_val a; last = digits_val b
                  in if \<not> isValidCode first \<or> \<not> isValidCode last \<or> last < first then None
                     else Some \<lparr>sr_start = first, sr_end = last\<rparr>
            | _ \<Rightarrow> None)
         else if \<not> isNumber cleaned then None
         else
           let code = digits_val cleaned
           in if \<not> isValidCode code then None else Some \<lparr>sr_start = code, sr_end = code\<rparr>)"

fun merge_step :: "status_range list \<Rightarrow> status_range \<Rightarrow> status_range list" where
  "merge_step merged current =
     (if merged = [] \<or> sr_end (last merged) + 1 < sr_start current then merged @ [current]
      else butlast merged @ [(last merged)\<lparr>sr_end := max (sr_end (last merged)) (sr_end current)\<rparr>])"

definition mergeRanges :: "status_range list \<Rightarrow> status_range list" where
  "mergeRanges ranges = foldl merge_step [] (sort_key (\<lambda>r. (sr_start r, sr_end r)) ranges)"

definition range_token :: "status_range \<Rightarrow> jstring" where
  "range_token r =
     (if sr_start r = sr_end r then int_digits (sr_start r)
      else int_digits (sr_start r) @ [45] @ int_digits (sr_end r))"

definition segments_of :: "jstring \<Rightarrow> jstring list" where
  "segments_of raw =
     filter (\<lambda>s. s \<noteq> []) (map trim (split_on 44 (map (\<lambda>c. if c = 0xFF0C then 44 else c) raw)))"

definition parseHttpStatusCodeRules :: "jstring option \<Rightarrow> parsed_rules" where
  "parseHttpStatusCodeRules input =
     (let raw = trim (case input of Some s \<Rightarrow> s | None \<Rightarrow> [])
      in if raw = [] then \<lparr>pr_ok = True, pr_ranges = [], pr_tokens = [], pr_normalized = [], pr_invalidTokens = []\<rparr>
         else
           let segments = segments_of raw;
               invalid = filter (\<lambda>s. parseToken s = None) segments
           in if invalid \<noteq> [] then
                \<lparr>pr_ok = False, pr_ranges = [], pr_tokens = [], pr_normalized = raw, pr_invalidTokens = invalid\<rparr>
              else
                let merged = mergeRanges (List.map_filter parseToken segments); tokens = map range_token merged
                in \<lparr>pr_ok = True, pr_ranges = merged, pr_tokens = tokens, pr_normalized = join [44] tokens,
                     pr_invalidTokens = []\<rparr>)"

subsection \<open>Merging\<close>

definition range_ok :: "status_range \<Rightarrow> bool" where
  "range_ok r \<longleftrightarrow> 100 \<le> sr_start r \<and> sr_start r \<le> sr_end r \<and> sr_end r \<le> 599"

definition in_status_range :: "int \<Rightarrow> status_range \<Rightarrow> bool" where
  "in_status_range code r \<longleftrightarrow> sr_start r \<le> code \<and> code \<le> sr_end r"

text \<open>Sorted, disjoint and not even adjacent.\<close>

abbreviation separated :: "status_range list \<Rightarrow> bool" where
  "separated \<equiv> sorted_wrt (\<lambda>r s. sr_end r + 1 < sr_start s)"

definition merge_ok :: "status_range list \<Rightarrow> bool" where
  "merge_ok rs \<longleftrightarrow> separated rs \<and> (\<forall>r \<in> set rs. range_ok r)"

lemma merge_step_ok:
  assumes "merge_ok merged" "range_ok current" "merged \<noteq> [] \<Longrightarrow> sr_start (last merged) \<le> sr_start current"
  shows "merge_ok (merge_step merged current)"
    and "(\<exists>r \<in> set (merge_step merged current). in_status_range code r) \<longleftrightarrow>
      (\<exists>r \<in> set merged. in_status_range code r) \<or> in_status_range code current"
    and "sr_start (last (merge_step merged current)) \<le> sr_start current" "merge_step merged current \<noteq> []"
proof -
  show "merge_step merged current \<noteq> []" "sr_start (last (merge_step merged current)) \<le> sr_start current"
    using assms(3) by auto
  show "merge_ok (merge_step merged current)"
    using assms by (cases merged rule: rev_cases) (fastforce simp: merge_ok_def sorted_wrt_append range_ok_def)+
  show "(\<exists>r \<in> set (merge_step merged current). in_status_range code r) \<longleftrightarrow>
      (\<exists>r \<in> set merged. in_status_range code r) \<or> in_status_range code current"
    using assms by (cases merged rule: rev_cases) (auto simp: in_status_range_def merge_ok_def range_ok_def)
qed

lemma merge_fold_ok:
  assumes "merge_ok merged" "\<forall>r \<in> set rs. range_ok r" "sorted (map sr_start rs)"
    "merged \<noteq> [] \<Longrightarrow> \<forall>r \<in> set rs. sr_start (last merged) \<le> sr_start r"
  shows "merge_ok (foldl merge_step merged rs) \<and>
    ((\<exists>r \<in> set (foldl merge_step merged rs). in_status_range code r) \<longleftrightarrow>
     (\<exists>r \<in> set merged \<union> set rs. in_status_range code r))"
  using assms
proof (induction rs arbitrary: merged)
  case (Cons r rs)
  note step = merge_step_ok [OF Cons.prems(1), of r]
  have r: "range_ok r" "merged \<noteq> [] \<Longrightarrow> sr_start (last merged) \<le> sr_start r" using Cons.prems by auto
  have "\<forall>s \<in> set rs. sr_start (last (merge_step merged r)) \<le> sr_start s"
    using step(3) [OF r] Cons.prems(3) by fastforce
  then have "merge_ok (foldl merge_step (merge_step merged r) rs) \<and>
      ((\<exists>x \<in> set (foldl merge_step (merge_step merged r) rs). in_status_range code x) \<longleftrightarrow>
       (\<exists>x \<in> set (merge_step merged r) \<union> set rs. in_status_range code x))"
    using Cons.prems step(1) [OF r] by (intro Cons.IH) auto
  then show ?case using step(2) [OF r, of code] by (auto simp del: merge_step.simps)
qed simp

lemma mergeRanges_ok:
  assumes "\<forall>r \<in> set rs. range_ok r"
  shows "merge_ok (mergeRanges rs)"
    "(\<exists>r \<in> set (mergeRanges rs). in_status_range code r) \<longleftrightarrow> (\<exists>r \<in> set rs. in_status_range code r)"
proof -
  let ?s = "sort_key (\<lambda>r. (sr_start r, sr_end r)) rs"
  have "sorted (map (\<lambda>r. (sr_start r, sr_end r)) ?s)" by simp
  then have "sorted (map sr_start ?s)"
    by (simp add: sorted_map) (auto elim!: sorted_wrt_mono_rel [rotated])
  then have "merge_ok (foldl merge_step [] ?s) \<and>
      ((\<exists>r \<in> set (foldl merge_step [] ?s). in_status_range code r) \<longleftrightarrow> (\<exists>r \<in> set [] \<union> set ?s. in_status_range code r))"
    using assms by (intro merge_fold_ok) (auto simp: merge_ok_def)
  then show "merge_ok (mergeRanges rs)"
    "(\<exists>r \<in> set (mergeRanges rs). in_status_range code r) \<longleftrightarrow> (\<exists>r \<in> set rs. in_status_range code r)"
    by (auto simp: mergeRanges_def)
qed

lemma merge_fold_separated: "separated (ms @ rs) \<Longrightarrow> \<forall>r \<in> set (ms @ rs). range_ok r \<Longrightarrow> foldl merge_step ms rs = ms @ rs"
proof (induction rs arbitrary: ms)
  case (Cons r rs)
  have "merge_step ms r = ms @ [r]" using Cons.prems(1) by (cases ms rule: rev_cases) (auto simp: sorted_wrt_append)
  then show ?case using Cons.IH [of "ms @ [r]"] Cons.prems by simp
qed simp

lemma mergeRanges_separated:
  assumes "merge_ok rs"
  shows "mergeRanges rs = rs"
proof -
  have "sorted_wrt (\<lambda>r s. (sr_start r, sr_end r) \<le> (sr_start s, sr_end s)) rs"
    using assms by (auto simp: merge_ok_def range_ok_def elim!: sorted_wrt_mono_rel [rotated])
  then have "sort_key (\<lambda>r. (sr_start r, sr_end r)) rs = rs" by (intro sort_key_id_if_sorted) (simp add: sorted_map)
  then show ?thesis using merge_fold_separated [of "[]" rs] assms by (simp add: mergeRanges_def merge_ok_def)
qed

subsection \<open>Printing and parsing\<close>

lemma parseToken_ok: "parseToken t = Some r \<Longrightarrow> range_ok r"
  by (auto simp: parseToken_def Let_def isValidCode_def range_ok_def split: if_splits list.splits)

definition token_char :: "code_unit \<Rightarrow> bool" where
  "token_char c \<longleftrightarrow> is_digit c \<or> c = 45"

lemma token_char_plain:
  assumes "token_char c"
  shows "\<not> is_space c" "c \<noteq> 44" "c \<noteq> 0xFF0C"
  using assms by (auto simp: token_char_def is_digit_def is_space_def)

lemma range_token_chars:
  assumes "range_ok r"
  shows "list_all token_char (range_token r)" "range_token r \<noteq> []"
  using int_digits_props(2,3) [of "sr_start r"] int_digits_props(2,3) [of "sr_end r"] assms
  by (auto simp: range_token_def range_ok_def token_char_def list_all_iff)

lemma trim_tokens: "list_all token_char s \<Longrightarrow> trim s = s"
  using token_char_plain(1) by (cases "s = []") (auto simp: list_all_iff intro!: trim_id)

lemma parse_range_token:
  assumes "range_ok r"
  shows "parseToken (range_token r) = Some r"
proof -
  have d: "int_digits n \<noteq> []" "list_all is_digit (int_digits n)" "digits_val (int_digits n) = n" "45 \<notin> set (int_digits n)"
    if "0 \<le> n" for n
    using int_digits_props [OF that] by (auto simp: list_all_iff is_digit_def)
  have n: "0 \<le> sr_start r" "0 \<le> sr_end r" using assms by (auto simp: range_ok_def)
  have clean: "filter (\<lambda>c. \<not> is_space c) (trim (range_token r)) = range_token r"
    using range_token_chars(1) [OF assms] trim_tokens [of "range_token r"] token_char_plain(1)
    by (auto simp: list_all_iff intro: filter_True)
  show ?thesis
    using d [OF n(1)] d [OF n(2)] assms range_token_chars(2) [OF assms]
    unfolding parseToken_def clean
    by (auto simp: Let_def range_token_def isNumber_def isValidCode_def range_ok_def split_on_append split_on_none)
qed

lemma segments_of_tokens:
  assumes "ts \<noteq> []" "\<forall>t \<in> set ts. list_all token_char t \<and> t \<noteq> []"
  shows "segments_of (join [44] ts) = ts" "trim (join [44] ts) = join [44] ts" "join [44] ts \<noteq> []"
proof -
  have chars: "c = 44 \<or> token_char c" if "c \<in> set (join [44] ts)" for c
    using that assms by (induction "[44::int]" ts rule: join.induct) (auto simp: list_all_iff)
  have "map (\<lambda>c. if c = 0xFF0C then 44 else c) (join [44] ts) = join [44] ts"
    using chars token_char_plain(3) by (intro map_idI) fastforce
  moreover have "split_on 44 (join [44] ts) = ts"
    using assms token_char_plain(2) by (intro split_on_join) (auto simp: list_all_iff)
  moreover have "map trim ts = ts" using assms trim_tokens by (intro map_idI) auto
  ultimately show "segments_of (join [44] ts) = ts" using assms(2) by (simp add: segments_of_def)
  show ne: "join [44] ts \<noteq> []" using assms by (cases "([44::int], ts)" rule: join.cases) auto
  have "\<not> is_space c" if "c \<in> set (join [44] ts)" for c
    using chars [OF that] token_char_plain(1) by (auto simp: is_space_def)
  then show "trim (join [44] ts) = join [44] ts" using ne by (intro trim_id) auto
qed

lemma map_filter_total: "\<forall>t \<in> set ts. \<exists>r. f t = Some r \<Longrightarrow> map f ts = map Some (List.map_filter f ts)"
  by (induction ts) (auto simp: List.map_filter_def)

lemma map_filter_range_tokens:
  "\<forall>r \<in> set rs. range_ok r \<Longrightarrow> List.map_filter parseToken (map range_token rs) = rs \<and>
     filter (\<lambda>s. parseToken s = None) (map range_token rs) = []"
  by (induction rs) (auto simp: List.map_filter_def parse_range_token)

subsection \<open>Properties\<close>

text \<open>
  C22: an accepted list of status codes means what its tokens say: every token is a
  code or a range within 100 to 599, a code is in one of the resulting ranges
  exactly when it is in the range of some token, and the resulting ranges are in
  ascending order with a gap between any two.
\<close>

theorem status_rules_cover_tokens:
  assumes "pr_ok (parseHttpStatusCodeRules (Some s))"
  shows "separated (pr_ranges (parseHttpStatusCodeRules (Some s))) \<and>
    list_all range_ok (pr_ranges (parseHttpStatusCodeRules (Some s))) \<and>
    (\<exists>rs. map parseToken (segments_of (trim s)) = map Some rs \<and>
      (\<forall>code. (\<exists>r \<in> set (pr_ranges (parseHttpStatusCodeRules (Some s))). in_status_range code r) \<longleftrightarrow>
        (\<exists>r \<in> set rs. in_status_range code r)))"
proof (cases "trim s = []")
  case True
  then show ?thesis by (auto simp: parseHttpStatusCodeRules_def segments_of_def intro!: exI [of _ "[]"])
next
  case False
  let ?g = "segments_of (trim s)" and ?p = "List.map_filter parseToken (segments_of (trim s))"
  have all: "filter (\<lambda>t. parseToken t = None) ?g = []"
    using assms False by (auto simp: parseHttpStatusCodeRules_def Let_def split: if_splits)
  then have "\<forall>t \<in> set ?g. \<exists>r. parseToken t = Some r" by (auto simp: filter_empty_conv)
  then have p: "map parseToken ?g = map Some ?p" "\<forall>r \<in> set ?p. range_ok r"
    using map_filter_total [of ?g parseToken] parseToken_ok by (auto simp: List.map_filter_def)
  have "pr_ranges (parseHttpStatusCodeRules (Some s)) = mergeRanges ?p"
    using False all by (simp add: parseHttpStatusCodeRules_def Let_def)
  then show ?thesis using mergeRanges_ok [OF p(2)] p(1) by (auto simp: merge_ok_def list_all_iff)
qed

theorem status_rules_cover_tokens_witness:
  "pr_ok (parseHttpStatusCodeRules (Some (lit ''500-502, 503,429''))) \<and>
   separated (pr_ranges (parseHttpStatusCodeRules (Some (lit ''500-502, 503,429''))))"
proof -
  have "pr_ok (parseHttpStatusCodeRules (Some (lit ''500-502, 503,429'')))" by code_simp
  then show ?thesis using status_rules_cover_tokens by blast
qed

text \<open>
  C23: the normalised text of an accepted list is stable: parsing it again gives
  the same ranges, tokens and text.
\<close>

theorem status_rules_normalized_stable:
  assumes "pr_ok (parseHttpStatusCodeRules (Some s))"
  shows "parseHttpStatusCodeRules (Some (pr_normalized (parseHttpStatusCodeRules (Some s)))) = parseHttpStatusCodeRules (Some s)"
proof -
  let ?r = "parseHttpStatusCodeRules (Some s)"
  obtain rs where rs: "merge_ok rs" "?r = \<lparr>pr_ok = True, pr_ranges = rs, pr_tokens = map range_token rs,
      pr_normalized = join [44] (map range_token rs), pr_invalidTokens = []\<rparr>"
  proof (cases "trim s = []")
    case True
    then show ?thesis using that [of "[]"] by (simp add: parseHttpStatusCodeRules_def merge_ok_def)
  next
    case False
    have "filter (\<lambda>t. parseToken t = None) (segments_of (trim s)) = []"
      using assms False by (auto simp: parseHttpStatusCodeRules_def Let_def split: if_splits)
    moreover have "merge_ok (mergeRanges (List.map_filter parseToken (segments_of (trim s))))"
      by (rule mergeRanges_ok) (auto simp: List.map_filter_def dest: parseToken_ok)
    ultimately show ?thesis using that False by (simp add: parseHttpStatusCodeRules_def Let_def)
  qed
  have ok: "\<forall>r \<in> set rs. range_ok r" using rs(1) by (simp add: merge_ok_def)
  show ?thesis
  proof (cases "rs = []")
    case True
    then show ?thesis using rs(2) by (simp add: parseHttpStatusCodeRules_def)
  next
    case False
    then show ?thesis
      using rs(2) segments_of_tokens [of "map range_token rs"] range_token_chars ok map_filter_range_tokens [OF ok]
        mergeRanges_separated [OF rs(1)]
      by (simp add: parseHttpStatusCodeRules_def Let_def)
  qed
qed

theorem status_rules_normalized_stable_witness:
  "pr_normalized (parseHttpStatusCodeRules (Some (lit ''500-502, 503,429''))) = lit ''429,500-503'' \<and>
   parseHttpStatusCodeRules (Some (lit ''429,500-503'')) = parseHttpStatusCodeRules (Some (lit ''500-502, 503,429''))"
proof -
  have "pr_ok (parseHttpStatusCodeRules (Some (lit ''500-502, 503,429'')))"
    "pr_normalized (parseHttpStatusCodeRules (Some (lit ''500-502, 503,429''))) = lit ''429,500-503''" by code_simp+
  then show ?thesis using status_rules_normalized_stable [of "lit ''500-502, 503,429''"] by simp
qed

end
