(* ===== verification/Auth_Store.thy ===== *)
theory Auth_Store
  imports JS_Value
begin

text \<open>
  The authentication store of \<open>stores/auth-store.ts\<close>, and the guards of
  \<open>lib/auth-session.ts\<close> that turn an untyped response into the data kept in it.
  An \<open>AuthUser\<close> carries its checked fields and every other entry as received.
\<close>

subsection \<open>Data\<close>

record auth_user =
  au_id :: number
  au_username :: jstring
  au_role :: number
  au_other :: "(jstring \<times> json) list"

record login_session =
  ls_sid :: jstring
  ls_current :: bool
  ls_login_method :: jstring
  ls_ip :: jstring
  ls_user_agent :: jstring
  ls_created_at :: number
  ls_last_active_at :: number
  ls_expires_at :: number

record auth_bundle =
  ab_access_token :: jstring
  ab_token_type :: jstring
  ab_access_expires_at :: number
  ab_user :: auth_user
  ab_session :: login_session

datatype bootstrap_state = Idle | Checking | Complete

record pending_login =
  pl_challenge :: json
  pl_redirectTo :: "jstring option"

record auth_state =
  as_user :: "auth_user option"
  as_accessToken :: "jstring option"
  as_accessExpiresAt :: "number option"
  as_session :: "login_session option"
  as_pending :: "pending_login option"
  as_bootstrapState :: bootstrap_state

subsection \<open>Store operations\<close>

definition initial_auth :: auth_state where
  "initial_auth = \<lparr>as_user = None, as_accessToken = None, as_accessExpiresAt = None, as_session = None,
     as_pending = None, as_bootstrapState = Idle\<rparr>"

definition setBundle :: "auth_bundle \<Rightarrow> auth_state \<Rightarrow> auth_state" where
  "setBundle bundle auth = auth\<lparr>as_user := Some (ab_user bundle), as_accessToken := Some (ab_access_token bundle),
     as_accessExpiresAt := Some (ab_access_expires_at bundle), as_session := Some (ab_session bundle),
     as_pending := None, as_bootstrapState := Complete\<rparr>"

text \<open>\<open>state.auth.user?.id === user?.id\<close>: two absent users have equal identifiers.\<close>

definition same_user_id :: "auth_user option \<Rightarrow> auth_user option \<Rightarrow> bool" where
  "same_user_id a b =
     (case (a, b) of
        (Some u, Some v) \<Rightarrow> num_eq (au_id u) (au_id v)
      | (None, None) \<Rightarrow> True
      | _ \<Rightarrow> False)"

definition setUser :: "auth_user option \<Rightarrow> auth_state \<Rightarrow> auth_state" where
  "setUser user auth = auth\<lparr>as_user := user,
     as_pending := (if same_user_id (as_user auth) user then as_pending auth else None)\<rparr>"

definition setPendingLoginVerification :: "pending_login option \<Rightarrow> auth_state \<Rightarrow> auth_state" where
  "setPendingLoginVerification pending auth = auth\<lparr>as_pending := pending\<rparr>"

definition setBootstrapState :: "bootstrap_state \<Rightarrow> auth_state \<Rightarrow> auth_state" where
  "setBootstrapState b auth = auth\<lparr>as_bootstrapState := b\<rparr>"

definition reset_auth :: "bootstrap_state \<Rightarrow> auth_state \<Rightarrow> auth_state" where
  "reset_auth b auth = auth\<lparr>as_user := None, as_accessToken := None, as_accessExpiresAt := None,
     as_session := None, as_pending := None, as_bootstrapState := b\<rparr>"

lemmas store_defs = setBundle_def setUser_def setPendingLoginVerification_def setBootstrapState_def reset_auth_def

subsection \<open>Guards on untyped responses\<close>

text \<open>\<open>value.key\<close> on an object; an array has none of the keys that are read.\<close>

definition jfield :: "json \<Rightarrow> jstring \<Rightarrow> json" where
  "jfield v k = (case v of JObj es \<Rightarrow> (case map_of es k of Some x \<Rightarrow> x | None \<Rightarrow> JUndefined) | _ \<Rightarrow> JUndefined)"

definition isRecord :: "json \<Rightarrow> bool" where
  "isRecord v \<longleftrightarrow> v \<noteq> JNull \<and> is_object v"

fun jstr :: "json \<Rightarrow> jstring option" where
  "jstr (JStr s) = Some s"
| "jstr _ = None"

fun jnum :: "json \<Rightarrow> number option" where
  "jnum (JNum n) = Some n"
| "jnum _ = None"

fun jbool :: "json \<Rightarrow> bool option" where
  "jbool (JBool b) = Some b"
| "jbool _ = None"

definition isAuthUser :: "json \<Rightarrow> bool" where
  "isAuthUser v \<longleftrightarrow> isRecord v \<and>
     (case jnum (jfield v (lit ''id'')) of Some n \<Rightarrow> isInteger n \<and> num_lt (Fin 0) n | None \<Rightarrow> False) \<and>
     jstr (jfield v (lit ''username'')) \<noteq> None \<and>
     jnum (jfield v (lit ''role'')) \<noteq> None"

definition isLoginSession :: "json \<Rightarrow> bool" where
  "isLoginSession v \<longleftrightarrow> isRecord v \<and>
     (case jstr (jfield v (lit ''sid'')) of Some s \<Rightarrow> s \<noteq> [] | None \<Rightarrow> False) \<and>
     jbool (jfield v (lit ''current'')) \<noteq> None \<and>
     jstr (jfield v (lit ''login_method'')) \<noteq> None \<and>
     jstr (jfield v (lit ''ip'')) \<noteq> None \<and>
     jstr (jfield v (lit ''user_agent'')) \<noteq> None \<and>
     jnum (jfield v (lit ''created_at'')) \<noteq> None \<and>
     jnum (jfield v (lit ''last_active_at'')) \<noteq> None \<and>
     jnum (jfield v (lit ''expires_at'')) \<noteq> None"

definition hasValidTokenFields :: "json \<Rightarrow> bool" where
  "hasValidTokenFields v \<longleftrightarrow>
     (case jstr (jfield v (lit ''access_token'')) of Some s \<Rightarrow> s \<noteq> [] | None \<Rightarrow> False) \<and>
     (case jstr (jfield v (lit ''token_type'')) of Some s \<Rightarrow> s \<noteq> [] | None \<Rightarrow> False) \<and>
     (case jnum (jfield v (lit ''access_expires_at'')) of Some n \<Rightarrow> isFinite n \<and> num_lt (Fin 0) n | None \<Rightarrow> False)"

definition isAuthBundle :: "json \<Rightarrow> bool" where
  "isAuthBundle v \<longleftrightarrow> isRecord v \<and> hasValidTokenFields v \<and>
     isAuthUser (jfield v (lit ''user'')) \<and> isLoginSession (jfield v (lit ''session''))"

text \<open>The data that a value which passed its guard holds.\<close>

definition user_of :: "json \<Rightarrow> auth_user" where
  "user_of v = \<lparr>au_id = the (jnum (jfield v (lit ''id''))), au_username = the (jstr (jfield v (lit ''username''))),
     au_role = the (jnum (jfield v (lit ''role''))),
     au_other = (case v of JObj es \<Rightarrow> filter (\<lambda>e. fst e \<notin> {lit ''id'', lit ''username'', lit ''role''}) es | _ \<Rightarrow> [])\<rparr>"

definition session_of :: "json \<Rightarrow> login_session" where
  "session_of v = \<lparr>ls_sid = the (jstr (jfield v (lit ''sid''))), ls_current = the (jbool (jfield v (lit ''current''))),
     ls_login_method = the (jstr (jfield v (lit ''login_method''))), ls_ip = the (jstr (jfield v (lit ''ip''))),
     ls_user_agent = the (jstr (jfield v (lit ''user_agent''))), ls_created_at = the (jnum (jfield v (lit ''created_at''))),
     ls_last_active_at = the (jnum (jfield v (lit ''last_active_at''))), ls_expires_at = the (jnum (jfield v (lit ''expires_at'')))\<rparr>"

definition bundle_of :: "json \<Rightarrow> auth_bundle" where
  "bundle_of v = \<lparr>ab_access_token = the (jstr (jfield v (lit ''access_token''))),
     ab_token_type = the (jstr (jfield v (lit ''token_type''))),
     ab_access_expires_at = the (jnum (jfield v (lit ''access_expires_at''))),
     ab_user = user_of (jfield v (lit ''user'')), ab_session = session_of (jfield v (lit ''session''))\<rparr>"

definition isAuthTokenRotation :: "json \<Rightarrow> bool" where
  "isAuthTokenRotation v \<longleftrightarrow> isRecord v \<and> hasValidTokenFields v \<and>
     jfield v (lit ''token_type'') = JStr (lit ''Bearer'') \<and>
     isLoginSession (jfield v (lit ''session'')) \<and>
     jfield (jfield v (lit ''session'')) (lit ''current'') = JBool True"

subsection \<open>What the guards ensure\<close>

definition bundle_ok :: "auth_bundle \<Rightarrow> bool" where
  "bundle_ok b \<longleftrightarrow> ab_access_token b \<noteq> [] \<and> ab_token_type b \<noteq> [] \<and>
     isFinite (ab_access_expires_at b) \<and> num_lt (Fin 0) (ab_access_expires_at b) \<and>
     isInteger (au_id (ab_user b)) \<and> num_lt (Fin 0) (au_id (ab_user b)) \<and> ls_sid (ab_session b) \<noteq> []"

lemma isAuthBundle_ok: "isAuthBundle v \<Longrightarrow> bundle_ok (bundle_of v)"
  by (auto simp: isAuthBundle_def hasValidTokenFields_def isAuthUser_def isLoginSession_def bundle_ok_def
      bundle_of_def user_of_def session_of_def split: option.splits)

text \<open>The token, its expiry and the session are kept together.\<close>

definition store_ok :: "auth_state \<Rightarrow> bool" where
  "store_ok auth \<longleftrightarrow>
     (as_accessToken auth = None \<longleftrightarrow> as_session auth = None) \<and>
     (as_accessExpiresAt auth = None \<longleftrightarrow> as_session auth = None)"

lemma store_ok_operations [simp, intro]:
  "store_ok initial_auth"
  "store_ok (setBundle b auth)"
  "store_ok (reset_auth s auth)"
  "store_ok auth \<Longrightarrow> store_ok (setUser u auth)"
  "store_ok auth \<Longrightarrow> store_ok (setPendingLoginVerification p auth)"
  "store_ok auth \<Longrightarrow> store_ok (setBootstrapState s auth)"
  by (simp_all add: store_ok_def store_defs initial_auth_def)

end
