(* ===== verification/Auth_Session.thy ===== *)
theory Auth_Session
  imports Auth_Store
begin

text \<open>
  Session coordination of \<open>lib/auth-session.ts\<close>. An asynchronous refresh is cut at
  its \<open>await\<close> points into phases; between two phases any other operation on the
  store may run. The steps of the refresh and of its clients are two relations on
  the world: the store, the epoch counter, the published events and the refresh
  in flight.
\<close>

subsection \<open>The refresh runner\<close>

datatype refresh_error = Superseded | Failure json

datatype refresh_outcome =
    Authenticated auth_bundle
  | Anonymous
  | Transient refresh_error
  | Out_Of_Sync "jstring option"

record http_response =
  hr_status :: int
  hr_data :: json
  hr_error :: json

text \<open>
  What the runner calls. The two promises of the interface, \<open>request\<close> and
  \<open>wait\<close>, are phases of the run.
\<close>

record 's refresh_runtime =
  rr_getExpectedSID :: "'s \<Rightarrow> jstring option"
  rr_parseBundle :: "json \<Rightarrow> auth_bundle option"
  rr_acceptBundle :: "auth_bundle \<Rightarrow> 's \<Rightarrow> 's"
  rr_clear :: "bool \<Rightarrow> bootstrap_state option \<Rightarrow> 's \<Rightarrow> 's"
  rr_markTransient :: "'s \<Rightarrow> 's"
  rr_isCurrent :: "('s \<Rightarrow> bool) option"

text \<open>
  \<open>Locking\<close> waits for the browser lock; \<open>Requesting sid k m\<close> for the response to
  a request that expects \<open>sid\<close>, in race attempt \<open>k\<close> and with the mismatch retry
  allowed by \<open>m\<close>; \<open>Waiting d k m\<close> for a timer of \<open>d\<close> milliseconds before the
  attempt \<open>k\<close>. A promise ends fulfilled or rejected.
\<close>

datatype refresh_phase =
    Locking
  | Requesting "jstring option" nat bool
  | Waiting nat nat bool
  | Finished refresh_outcome
  | Rejected json

definition refreshRaceDelays :: "nat list" where
  "refreshRaceDelays = [80, 200, 500]"

definition is_superseded :: "'s refresh_runtime \<Rightarrow> 's \<Rightarrow> bool" where
  "is_superseded rt s = (case rr_isCurrent rt of Some current \<Rightarrow> \<not> current s | None \<Rightarrow> False)"

definition run_request :: "'s refresh_runtime \<Rightarrow> nat \<Rightarrow> bool \<Rightarrow> 's \<Rightarrow> refresh_phase" where
  "run_request rt raceAttempt allowMismatchRetry s =
     (if is_superseded rt s then Finished (Transient Superseded)
      else Requesting (rr_getExpectedSID rt s) raceAttempt allowMismatchRetry)"

text \<open>\<open>response.error ?? response.data\<close>\<close>

definition response_failure :: "http_response \<Rightarrow> json" where
  "response_failure r = (if is_nullish (hr_error r) then hr_data r else hr_error r)"

definition run_response :: "'s refresh_runtime \<Rightarrow> nat \<Rightarrow> bool \<Rightarrow> http_response \<Rightarrow> 's \<Rightarrow> 's \<times> refresh_phase" where
  "run_response rt raceAttempt allowMismatchRetry response s =
     (if is_superseded rt s then (s, Finished (Transient Superseded))
      else
        let responseData = (if isRecord (hr_data response) then hr_data response else JUndefined);
            code = jstr (jfield responseData (lit ''code''));
            bundle = rr_parseBundle rt (jfield responseData (lit ''data''))
        in   if jfield responseData (lit ''success'') = JBool True \<and> bundle \<noteq> None then
               (rr_acceptBundle rt (the bundle) s, Finished (Authenticated (the bundle)))
             else if hr_status response = 409 \<and> code = Some (lit ''AUTH_REFRESH_RACE'') then
               (if raceAttempt < length refreshRaceDelays
                then (s, Waiting (refreshRaceDelays ! raceAttempt) (raceAttempt + 1) allowMismatchRetry)
                else (rr_clear rt False None s, Finished (Out_Of_Sync code)))
             else if hr_status response = 409 \<and> code = Some (lit ''AUTH_SESSION_MISMATCH'') then
               (if allowMismatchRetry then
                  let s' = rr_clear rt False (Some Idle) s in (s', run_request rt 0 False s')
                else (rr_clear rt False None s, Finished (Out_Of_Sync code)))
             else if hr_status response = 401 then (rr_clear rt True None s, Finished Anonymous)
             else if hr_status response = 0 \<or> 500 \<le> hr_status response \<or> hr_status response = 429 then
               (rr_markTransient rt s, Finished (Transient (Failure (response_failure response))))
             else
               (rr_clear rt False None s,
                Finished (Out_Of_Sync (if code = None then Some (lit ''AUTH_INVALID_REFRESH_RESPONSE'') else code))))"

text \<open>
  The request itself: the header that names the expected session, and the
  response record made of what the HTTP client returns or throws.
\<close>

datatype post_result =
    Posted int json
  | Axios_Error "(int \<times> json) option" json
  | Other_Error json

definition refresh_headers :: "jstring option \<Rightarrow> (jstring \<times> jstring) list" where
  "refresh_headers expectedSID =
     (case expectedSID of Some sid \<Rightarrow> if sid = [] then [] else [(lit ''X-Auth-Session'', sid)] | None \<Rightarrow> [])"

fun requestRefresh :: "post_result \<Rightarrow> http_response" where
  "requestRefresh (Posted status data) = \<lparr>hr_status = status, hr_data = data, hr_error = JUndefined\<rparr>"
| "requestRefresh (Other_Error err) = \<lparr>hr_status = 0, hr_data = JUndefined, hr_error = err\<rparr>"
| "requestRefresh (Axios_Error (Some (status, data)) err) = \<lparr>hr_status = status, hr_data = data, hr_error = err\<rparr>"
| "requestRefresh (Axios_Error None err) = \<lparr>hr_status = 0, hr_data = JUndefined, hr_error = err\<rparr>"

subsection \<open>The world of the module\<close>

datatype sync_kind = Sync_Authenticated | Sync_Signed_Out

text \<open>
  The module's variables: the store, \<open>authEpoch\<close>, the calls of
  \<open>publishAuthSessionEvent\<close> made so far, and \<open>refreshPromise\<close> with the epoch it
  was started in.
\<close>

record auth_world =
  aw_auth :: auth_state
  aw_epoch :: nat
  aw_published :: "(sync_kind \<times> jstring) list"
  aw_refresh :: "(nat \<times> refresh_phase) option"

definition initial_world :: auth_world where
  "initial_world = \<lparr>aw_auth = initial_auth, aw_epoch = 0, aw_published = [], aw_refresh = None\<rparr>"

abbreviation current_sid :: "auth_world \<Rightarrow> jstring option" where
  "current_sid w \<equiv> map_option ls_sid (as_session (aw_auth w))"

definition upd_auth :: "(auth_state \<Rightarrow> auth_state) \<Rightarrow> auth_world \<Rightarrow> auth_world" where
  "upd_auth f w = w\<lparr>aw_auth := f (aw_auth w)\<rparr>"

definition publish :: "bool \<Rightarrow> sync_kind \<Rightarrow> jstring \<Rightarrow> auth_world \<Rightarrow> auth_world" where
  "publish do_it kind sid w = (if do_it then w\<lparr>aw_published := aw_published w @ [(kind, sid)]\<rparr> else w)"

definition applyAuthBundle :: "auth_bundle \<Rightarrow> bool \<Rightarrow> auth_world \<Rightarrow> auth_world" where
  "applyAuthBundle bundle synchronizeTabs w =
     publish (synchronizeTabs \<and> current_sid w \<noteq> Some (ls_sid (ab_session bundle))) Sync_Authenticated (ls_sid (ab_session bundle))
       (upd_auth (setBundle bundle) (w\<lparr>aw_epoch := aw_epoch w + 1\<rparr>))"

datatype rotation_error = Invalid_Rotation | No_Active_Session | Session_Mismatch

definition applyAuthRotation :: "json \<Rightarrow> auth_world \<Rightarrow> rotation_error + auth_world" where
  "applyAuthRotation v w =
     (if \<not> isAuthTokenRotation v then Inl Invalid_Rotation
      else
        case (as_user (aw_auth w), as_session (aw_auth w)) of
          (Some user, Some session) \<Rightarrow>
            let rotated = session_of (jfield v (lit ''session'')) in
            if ls_sid rotated \<noteq> ls_sid session then Inl Session_Mismatch
            else Inr (applyAuthBundle
              \<lparr>ab_access_token = the (jstr (jfield v (lit ''access_token''))),
               ab_token_type = the (jstr (jfield v (lit ''token_type''))),
               ab_access_expires_at = the (jnum (jfield v (lit ''access_expires_at''))),
               ab_user = user, ab_session = rotated\<rparr> False w)
        | _ \<Rightarrow> Inl No_Active_Session)"

definition clearAuthentication :: "bool \<Rightarrow> bootstrap_state option \<Rightarrow> auth_world \<Rightarrow> auth_world" where
  "clearAuthentication synchronizeTabs b w =
     (let sid = (case current_sid w of Some s \<Rightarrow> s | None \<Rightarrow> [])
      in publish (synchronizeTabs \<and> sid \<noteq> []) Sync_Signed_Out sid
           (upd_auth (reset_auth (case b of Some s \<Rightarrow> s | None \<Rightarrow> Complete)) (w\<lparr>aw_epoch := aw_epoch w + 1\<rparr>)))"

text \<open>The query cache belongs to a library; \<open>clear\<close> is its operation.\<close>

definition clearAuthenticatedClientState :: "('q \<Rightarrow> 'q) \<Rightarrow> bool \<Rightarrow> 'q \<times> auth_world \<Rightarrow> 'q \<times> auth_world" where
  "clearAuthenticatedClientState clear synchronizeTabs s =
     (clear (fst s), clearAuthentication synchronizeTabs None (snd s))"

subsection \<open>Refreshing\<close>

definition store_clear :: "bool \<Rightarrow> bootstrap_state option \<Rightarrow> auth_world \<Rightarrow> auth_world" where
  "store_clear synchronizeTabs b w =
     (if \<not> synchronizeTabs \<and> b = Some Idle then upd_auth (reset_auth Idle) w
      else clearAuthentication synchronizeTabs b w)"

definition store_runtime :: "nat \<Rightarrow> auth_world refresh_runtime" where
  "store_runtime refreshEpoch =
     \<lparr>rr_getExpectedSID = current_sid,
      rr_parseBundle = (\<lambda>v. if isAuthBundle v then Some (bundle_of v) else None),
      rr_acceptBundle = (\<lambda>b. applyAuthBundle b False),
      rr_clear = store_clear,
      rr_markTransient = upd_auth (setBootstrapState Idle),
      rr_isCurrent = Some (\<lambda>w. aw_epoch w = refreshEpoch)\<rparr>"

definition runRefresh :: "nat \<Rightarrow> auth_world \<Rightarrow> refresh_phase" where
  "runRefresh refreshEpoch w = run_request (store_runtime refreshEpoch) 0 True w"

text \<open>
  The lock interface of the browser may be missing, throw, or queue the refresh.
  The promise it returns is not awaited inside the \<open>try\<close> block, so only what is
  thrown at once is caught.
\<close>

datatype lock_api = No_Locks | Lock_Throws json | Lock_Queues

fun performRefreshWithBrowserLock :: "lock_api \<Rightarrow> nat \<Rightarrow> auth_world \<Rightarrow> auth_world \<times> refresh_phase" where
  "performRefreshWithBrowserLock No_Locks e w = (w, runRefresh e w)"
| "performRefreshWithBrowserLock Lock_Queues e w = (w, Locking)"
| "performRefreshWithBrowserLock (Lock_Throws err) e w =
     (upd_auth (setBootstrapState Idle) w, Finished (Transient (Failure err)))"

definition refreshAuthentication :: "lock_api \<Rightarrow> auth_world \<Rightarrow> auth_world" where
  "refreshAuthentication locks w =
     (if aw_refresh w = None then
        let (w', phase) = performRefreshWithBrowserLock locks (aw_epoch w) w
        in w'\<lparr>aw_refresh := Some (aw_epoch w, phase)\<rparr>
      else w)"

text \<open>\<open>Math.floor(Date.now() / 1000)\<close>; \<open>now\<close> is in milliseconds.\<close>

definition now_seconds :: "int \<Rightarrow> number" where
  "now_seconds now = Fin (of_int (now div 1000))"

fun truthy_number :: "number \<Rightarrow> bool" where
  "truthy_number (Fin q) \<longleftrightarrow> q \<noteq> 0"
| "truthy_number NaN \<longleftrightarrow> False"
| "truthy_number NegZero \<longleftrightarrow> False"
| "truthy_number _ \<longleftrightarrow> True"

definition currentValidAuthBundle :: "int \<Rightarrow> auth_world \<Rightarrow> auth_bundle option" where
  "currentValidAuthBundle now w =
     (let auth = aw_auth w in
      case (as_user auth, as_accessToken auth, as_accessExpiresAt auth, as_session auth) of
        (Some user, Some token, Some expires, Some session) \<Rightarrow>
          if token = [] \<or> \<not> truthy_number expires \<or> num_le expires (now_seconds now) then None
          else Some \<lparr>ab_access_token = token, ab_token_type = lit ''Bearer'', ab_access_expires_at = expires,
            ab_user = user, ab_session = session\<rparr>
      | _ \<Rightarrow> None)"

text \<open>The result is an outcome, or \<open>None\<close> when the caller awaits the refresh in flight.\<close>

definition resolveAuthentication :: "lock_api \<Rightarrow> int \<Rightarrow> auth_world \<Rightarrow> auth_world \<times> refresh_outcome option" where
  "resolveAuthentication locks now w =
     (case currentValidAuthBundle now w of
        Some bundle \<Rightarrow> (upd_auth (setBootstrapState Complete) w, Some (Authenticated bundle))
      | None \<Rightarrow>
        let auth = aw_auth w;
            hasStaleSession = (as_user auth \<noteq> None \<and> as_session auth \<noteq> None)
        in if as_bootstrapState auth = Complete \<and> \<not> hasStaleSession then (w, Some Anonymous)
           else (refreshAuthentication locks (upd_auth (setBootstrapState Checking) w), None))"

definition bootstrapAuthentication :: "lock_api \<Rightarrow> bool \<Rightarrow> int \<Rightarrow> auth_world \<Rightarrow> auth_world \<times> refresh_outcome option" where
  "bootstrapAuthentication locks hint now w =
     (if currentValidAuthBundle now w = None \<and> \<not> hint \<and> as_user (aw_auth w) = None \<and> as_session (aw_auth w) = None
      then (w, Some Anonymous)
      else resolveAuthentication locks now w)"

definition getCommonHeaders :: "auth_world \<Rightarrow> (jstring \<times> jstring) list" where
  "getCommonHeaders w =
     (lit ''Content-Type'', lit ''application/json'') #
     (case as_accessToken (aw_auth w) of
        Some token \<Rightarrow> if token = [] then [] else [(lit ''Authorization'', lit ''Bearer '' @ token)]
      | None \<Rightarrow> [])"

definition token_valid_after :: "number \<Rightarrow> auth_world \<Rightarrow> bool" where
  "token_valid_after limit w =
     (case (as_accessToken (aw_auth w), as_accessExpiresAt (aw_auth w)) of
        (Some token, Some expires) \<Rightarrow> token \<noteq> [] \<and> truthy_number expires \<and> num_lt limit expires
      | _ \<Rightarrow> False)"

text \<open>\<open>getFreshAuthHeaders\<close> up to its \<open>await\<close>, and from the outcome it awaited on.\<close>

definition getFreshAuthHeaders :: "lock_api \<Rightarrow> int \<Rightarrow> auth_world \<Rightarrow> auth_world \<times> (jstring \<times> jstring) list option" where
  "getFreshAuthHeaders locks now w =
     (if token_valid_after (Fin (of_int (now div 1000 + 60))) w then (w, Some (getCommonHeaders w))
      else (refreshAuthentication locks w, None))"

datatype headers_error = Request_Failed refresh_error | Session_Expired

definition fresh_headers_after :: "refresh_outcome \<Rightarrow> int \<Rightarrow> auth_world \<Rightarrow> headers_error + (jstring \<times> jstring) list" where
  "fresh_headers_after outcome now w =
     (case outcome of
        Authenticated _ \<Rightarrow> Inr (getCommonHeaders w)
      | _ \<Rightarrow>
        if token_valid_after (now_seconds now) w then Inr (getCommonHeaders w)
        else (case outcome of Transient err \<Rightarrow> Inl (Request_Failed err) | _ \<Rightarrow> Inl Session_Expired))"

subsection \<open>Steps\<close>

text \<open>
  What may happen to a refresh in flight between the await points of
  \<open>performRefreshWithBrowserLock\<close> and of the runner: the browser grants the lock or
  rejects the request for it (the promise of \<open>navigator.locks.request\<close> is returned from
  the \<open>try\<close> block and not awaited there, so the rejection is that of the refresh), the
  server answers, the timer of a race fires, and the settled promise is forgotten.
\<close>

inductive refresh_step :: "auth_world \<Rightarrow> auth_world \<Rightarrow> bool" where
  lock_granted: "aw_refresh w = Some (e, Locking) \<Longrightarrow> refresh_step w (w\<lparr>aw_refresh := Some (e, runRefresh e w)\<rparr>)"
| lock_rejected: "aw_refresh w = Some (e, Locking) \<Longrightarrow> refresh_step w (w\<lparr>aw_refresh := Some (e, Rejected err)\<rparr>)"
| responded: "aw_refresh w = Some (e, Requesting sid k m) \<Longrightarrow>
    run_response (store_runtime e) k m (requestRefresh r) w = (w', phase) \<Longrightarrow>
    refresh_step w (w'\<lparr>aw_refresh := Some (e, phase)\<rparr>)"
| timer_fired: "aw_refresh w = Some (e, Waiting d k m) \<Longrightarrow>
    refresh_step w (w\<lparr>aw_refresh := Some (e, run_request (store_runtime e) k m w)\<rparr>)"
| fulfilled: "aw_refresh w = Some (e, Finished outcome) \<Longrightarrow> refresh_step w (w\<lparr>aw_refresh := None\<rparr>)"
| rejected: "aw_refresh w = Some (e, Rejected err) \<Longrightarrow> refresh_step w (w\<lparr>aw_refresh := None\<rparr>)"

inductive client_step :: "auth_world \<Rightarrow> auth_world \<Rightarrow> bool" where
  sign_in: "client_step w (applyAuthBundle bundle sync w)"
| rotate: "applyAuthRotation v w = Inr w' \<Longrightarrow> client_step w w'"
| sign_out: "client_step w (clearAuthentication sync b w)"
| set_user: "client_step w (upd_auth (setUser user) w)"
| set_pending: "client_step w (upd_auth (setPendingLoginVerification pending) w)"
| resolve: "client_step w (fst (resolveAuthentication locks now w))"
| bootstrap: "client_step w (fst (bootstrapAuthentication locks hint now w))"
| fresh_headers: "client_step w (fst (getFreshAuthHeaders locks now w))"

definition auth_step :: "auth_world \<Rightarrow> auth_world \<Rightarrow> bool" where
  "auth_step w w' \<longleftrightarrow> refresh_step w w' \<or> client_step w w'"

inductive_cases refresh_stepE: "refresh_step w w'"
inductive_cases client_stepE: "client_step w w'"

end
