(* ===== verification/Auth_Facts.thy ===== *)
theory Auth_Facts
  imports Auth_Session
begin

text \<open>
  Correctness of the session coordination: the contract of the runtime that the
  refresh runner uses, the invariant of the reachable worlds, that a refresh comes
  to an end whatever the server answers, and that a refresh overtaken by a sign-in
  or a sign-out no longer changes the store.
\<close>

subsection \<open>The runner over any runtime\<close>

fun phase_rank :: "refresh_phase \<Rightarrow> nat" where
  "phase_rank Locking = 20"
| "phase_rank (Requesting sid k m) = (if m then 10 else 0) + 2 * (3 - k) + 2"
| "phase_rank (Waiting d k m) = (if m then 10 else 0) + 2 * (3 - k) + 3"
| "phase_rank (Finished outcome) = 1"
| "phase_rank (Rejected err) = 1"

locale refresh_laws =
  fixes rt :: "'s refresh_runtime" and current :: "'s \<Rightarrow> bool"
  assumes is_current: "rr_isCurrent rt = Some current"
    and clear_idle_current: "current s \<Longrightarrow> current (rr_clear rt False (Some Idle) s)"
    and clear_idle_sid: "rr_getExpectedSID rt (rr_clear rt False (Some Idle) s) = None"
begin

lemma superseded_iff [simp]: "is_superseded rt s \<longleftrightarrow> \<not> current s"
  by (simp add: is_superseded_def is_current)

lemma request_rank: "phase_rank (run_request rt k m s) \<le> (if m then 10 else 0) + 2 * (3 - k) + 2"
  by (simp add: run_request_def)

lemma response_superseded: "\<not> current s \<Longrightarrow> run_response rt k m r s = (s, Finished (Transient Superseded))"
  by (simp add: run_response_def)

lemma response_rank:
  assumes "run_response rt k m r s = (s', phase)"
  shows "phase_rank phase < phase_rank (Requesting sid k m)"
proof -
  have "phase_rank (run_request rt 0 False x) < 12 + 2 * (3 - k)" for x
    using request_rank [of 0 False x] by simp
  then show ?thesis
    using assms by (auto simp: run_response_def Let_def refreshRaceDelays_def split: if_split_asm)
qed

lemma response_retry:
  assumes "run_response rt k m r s = (s', Requesting sid k' m')"
  shows "sid = None \<and> k' = 0 \<and> m \<and> \<not> m' \<and> s' = rr_clear rt False (Some Idle) s"
  using assms clear_idle_sid [of s]
  by (auto simp: run_response_def run_request_def Let_def split: if_split_asm)

end

lemmas world_defs = applyAuthBundle_def clearAuthentication_def upd_auth_def publish_def store_clear_def

interpretation store: refresh_laws "store_runtime e" "\<lambda>w. aw_epoch w = e" for e
  by unfold_locales (simp_all add: store_runtime_def world_defs store_defs)

subsection \<open>What the operations keep\<close>

lemma operations_keep_refresh [simp]:
  "aw_refresh (applyAuthBundle b s w) = aw_refresh w"
  "aw_refresh (clearAuthentication s bs w) = aw_refresh w"
  "aw_refresh (upd_auth f w) = aw_refresh w"
  "aw_refresh (store_clear s bs w) = aw_refresh w"
  by (simp_all add: world_defs Let_def)

lemma operations_epoch [simp]:
  "aw_epoch (applyAuthBundle b s w) = aw_epoch w + 1"
  "aw_epoch (clearAuthentication s bs w) = aw_epoch w + 1"
  "aw_epoch (upd_auth f w) = aw_epoch w"
  by (simp_all add: world_defs Let_def)

lemma refreshAuthentication_busy [simp]: "aw_refresh w \<noteq> None \<Longrightarrow> refreshAuthentication locks w = w"
  by (auto simp: refreshAuthentication_def)

lemma operations_auth [simp]:
  "aw_auth (applyAuthBundle b s w) = setBundle b (aw_auth w)"
  "aw_auth (clearAuthentication s bs w) = reset_auth (case bs of Some x \<Rightarrow> x | None \<Rightarrow> Complete) (aw_auth w)"
  "aw_auth (upd_auth f w) = f (aw_auth w)"
  by (simp_all add: world_defs Let_def)

lemma rotation_bundle:
  assumes "applyAuthRotation v w = Inr w'"
  shows "\<exists>b. w' = applyAuthBundle b False w"
  using assms by (auto simp: applyAuthRotation_def Let_def split: if_splits option.splits)

text \<open>Every client step is one of four: a new bundle, a cleared store, an update that keeps the session, the same possibly starting a refresh.\<close>

definition keeps_session :: "(auth_state \<Rightarrow> auth_state) \<Rightarrow> bool" where
  "keeps_session f \<longleftrightarrow> (\<forall>auth. as_session (f auth) = as_session auth \<and> (store_ok auth \<longrightarrow> store_ok (f auth)))"

lemma keeps_session_updates [simp]:
  "keeps_session (setUser u)" "keeps_session (setPendingLoginVerification p)" "keeps_session (setBootstrapState s)"
  "keeps_session (\<lambda>auth. auth)"
  by (simp_all add: keeps_session_def store_ok_def store_defs)

definition client_effect :: "auth_world \<Rightarrow> auth_world \<Rightarrow> bool" where
  "client_effect w w' \<longleftrightarrow>
     (\<exists>b s. w' = applyAuthBundle b s w) \<or> (\<exists>s bs. w' = clearAuthentication s bs w) \<or>
     (\<exists>f. keeps_session f \<and> w' = upd_auth f w) \<or>
     (\<exists>f locks. keeps_session f \<and> w' = refreshAuthentication locks (upd_auth f w))"

lemma upd_auth_id: "upd_auth (\<lambda>auth. auth) w = w"
  by (simp add: upd_auth_def)

lemma client_effectI:
  "client_effect w (applyAuthBundle b s w)"
  "client_effect w (clearAuthentication s bs w)"
  "keeps_session f \<Longrightarrow> client_effect w (upd_auth f w)"
  "keeps_session f \<Longrightarrow> client_effect w (refreshAuthentication locks (upd_auth f w))"
  "client_effect w w"
  "client_effect w (refreshAuthentication locks w)"
proof -
  show "client_effect w (applyAuthBundle b s w)" "client_effect w (clearAuthentication s bs w)"
    unfolding client_effect_def by blast+
  show upd: "client_effect w (upd_auth f w)" "client_effect w (refreshAuthentication locks (upd_auth f w))"
    if "keeps_session f" for f locks
    using that unfolding client_effect_def by blast+
  show "client_effect w w" "client_effect w (refreshAuthentication locks w)"
    using upd [OF keeps_session_updates(4)] by (simp_all add: upd_auth_id)
qed

lemma resolve_effect: "client_effect w (fst (resolveAuthentication locks now w))"
  by (auto simp: resolveAuthentication_def Let_def intro: client_effectI split: option.split)

lemma client_step_effect: "client_step w w' \<Longrightarrow> client_effect w w'"
  by (erule client_stepE)
    (auto simp: bootstrapAuthentication_def getFreshAuthHeaders_def dest!: rotation_bundle
      intro: client_effectI resolve_effect)

text \<open>What starting a refresh does to an idle world.\<close>

lemma refresh_start:
  "\<exists>f phase. keeps_session f \<and>
     refreshAuthentication locks w = (upd_auth f w)\<lparr>aw_refresh :=
       (if aw_refresh w = None then Some (aw_epoch w, phase) else aw_refresh w)\<rparr> \<and>
     (\<forall>sid k m. phase = Requesting sid k m \<longrightarrow> sid = current_sid w)"
proof (cases "aw_refresh w")
  case None
  have id: "upd_auth (\<lambda>auth. auth) w = w" by (rule upd_auth_id)
  show ?thesis
  proof (cases locks)
    case No_Locks
    then show ?thesis using None id
      by (intro exI [of _ "\<lambda>auth. auth"] exI [of _ "runRefresh (aw_epoch w) w"])
        (simp add: refreshAuthentication_def runRefresh_def run_request_def store_runtime_def)
  next
    case (Lock_Throws err)
    then show ?thesis using None
      by (intro exI [of _ "setBootstrapState Idle"] exI [of _ "Finished (Transient (Failure err))"])
        (simp add: refreshAuthentication_def)
  next
    case Lock_Queues
    then show ?thesis using None id
      by (intro exI [of _ "\<lambda>auth. auth"] exI [of _ Locking]) (simp add: refreshAuthentication_def)
  qed
next
  case (Some r)
  then show ?thesis
    by (intro exI [of _ "\<lambda>auth. auth"] exI [of _ Locking]) (simp add: upd_auth_def)
qed

subsection \<open>The invariant\<close>

text \<open>
  A refresh belongs to an epoch not after the current one, and a request of the
  current epoch expects the session in the store.
\<close>

fun refresh_ok :: "auth_world \<Rightarrow> nat \<times> refresh_phase \<Rightarrow> bool" where
  "refresh_ok w (e, Requesting sid k m) \<longleftrightarrow> e \<le> aw_epoch w \<and> (e = aw_epoch w \<longrightarrow> sid = current_sid w)"
| "refresh_ok w (e, _) \<longleftrightarrow> e \<le> aw_epoch w"

definition world_ok :: "auth_world \<Rightarrow> bool" where
  "world_ok w \<longleftrightarrow> store_ok (aw_auth w) \<and> (\<forall>r. aw_refresh w = Some r \<longrightarrow> refresh_ok w r)"

lemma refresh_ok_epoch: "refresh_ok w (e, phase) \<Longrightarrow> e \<le> aw_epoch w"
  by (cases phase) auto

lemma refresh_okI:
  assumes "e \<le> aw_epoch w" "\<And>sid k m. phase = Requesting sid k m \<Longrightarrow> e = aw_epoch w \<Longrightarrow> sid = current_sid w"
  shows "refresh_ok w (e, phase)"
  using assms by (cases phase) auto

lemma refresh_ok_later: "refresh_ok w r \<Longrightarrow> aw_epoch w < aw_epoch w' \<Longrightarrow> refresh_ok w' r"
  by (cases r) (auto intro!: refresh_okI dest: refresh_ok_epoch)

lemma refresh_ok_cong: "refresh_ok w r \<Longrightarrow> aw_epoch w' = aw_epoch w \<Longrightarrow> current_sid w' = current_sid w \<Longrightarrow> refresh_ok w' r"
  by (cases "(w, r)" rule: refresh_ok.cases) auto

lemma upd_keeps_ok: "world_ok w \<Longrightarrow> keeps_session f \<Longrightarrow> world_ok (upd_auth f w)"
  by (auto simp: world_ok_def keeps_session_def intro: refresh_ok_cong)

lemma start_keeps_ok:
  assumes "world_ok w"
  shows "world_ok (refreshAuthentication locks w)"
proof -
  obtain f phase where f: "keeps_session f"
    "refreshAuthentication locks w = (upd_auth f w)\<lparr>aw_refresh :=
       (if aw_refresh w = None then Some (aw_epoch w, phase) else aw_refresh w)\<rparr>"
    "\<forall>sid k m. phase = Requesting sid k m \<longrightarrow> sid = current_sid w"
    using refresh_start by blast
  have "world_ok (upd_auth f w)" using assms f(1) by (rule upd_keeps_ok)
  moreover have "refresh_ok (refreshAuthentication locks w) (aw_epoch w, phase)"
    using f by (intro refresh_okI) (auto simp: keeps_session_def)
  ultimately show ?thesis using f(1) unfolding f(2)
    by (auto simp: world_ok_def keeps_session_def intro: refresh_ok_cong)
qed

lemma client_keeps_ok:
  assumes "world_ok w" "client_step w w'"
  shows "world_ok w'"
proof -
  have bump: "world_ok w''" if "store_ok (aw_auth w'')" "aw_epoch w < aw_epoch w''" "aw_refresh w'' = aw_refresh w" for w''
    using assms(1) that by (auto simp: world_ok_def intro: refresh_ok_later)
  show ?thesis
    using client_step_effect [OF assms(2)] unfolding client_effect_def
  proof (elim disjE exE conjE)
    fix b s assume "w' = applyAuthBundle b s w"
    then show ?thesis by (intro bump) simp_all
  next
    fix s bs assume "w' = clearAuthentication s bs w"
    then show ?thesis by (intro bump) simp_all
  qed (simp_all add: assms(1) upd_keeps_ok start_keeps_ok)
qed

lemma response_world:
  assumes "run_response (store_runtime e) k m r w = (w', phase)" "store_ok (aw_auth w)"
  shows "store_ok (aw_auth w') \<and> aw_epoch w \<le> aw_epoch w' \<and>
    (\<forall>sid k' m'. phase = Requesting sid k' m' \<longrightarrow> sid = current_sid w')"
proof -
  have retry: "sid = current_sid w'" if "phase = Requesting sid k' m'" for sid k' m'
    using store.response_retry [OF assms(1) [unfolded that]] by (simp add: store_runtime_def store_clear_def store_defs)
  have clear: "store_ok (aw_auth (store_clear x y w)) \<and> aw_epoch w \<le> aw_epoch (store_clear x y w)" for x y
    by (simp add: store_clear_def)
  have "store_ok (aw_auth w') \<and> aw_epoch w \<le> aw_epoch w'"
    using assms clear by (auto simp: run_response_def store_runtime_def Let_def split: if_split_asm)
  then show ?thesis using retry by blast
qed

lemma refresh_keeps_ok:
  assumes "world_ok w" "refresh_step w w'"
  shows "world_ok w'"
proof -
  have phase: "world_ok (w\<lparr>aw_refresh := Some (e, ph)\<rparr>)"
    if "aw_refresh w = Some (e, ph')" "\<And>sid k m. ph = Requesting sid k m \<Longrightarrow> sid = current_sid w" for e ph ph'
    using assms(1) that by (auto simp: world_ok_def intro!: refresh_okI dest: refresh_ok_epoch)
  have request: "sid = current_sid w" if "run_request (store_runtime e) k m w = Requesting sid k' m'" for e k m sid k' m'
    using that by (auto simp: run_request_def store_runtime_def split: if_split_asm)
  show ?thesis
    using assms(2,1) phase request
  proof (induction rule: refresh_step.induct)
    case (lock_granted w e)
    show ?case by (rule lock_granted(3) [OF lock_granted(1)]) (simp add: runRefresh_def lock_granted(4))
  next
    case (lock_rejected w e err)
    show ?case by (rule lock_rejected(3) [OF lock_rejected(1)]) simp
  next
    case (responded w e sid k m r w1 ph)
    then have "store_ok (aw_auth w1)" "aw_epoch w \<le> aw_epoch w1"
      "\<forall>sid k' m'. ph = Requesting sid k' m' \<longrightarrow> sid = current_sid w1"
      using response_world [OF responded(2)] by (simp_all add: world_ok_def)
    moreover have "e \<le> aw_epoch w" using responded(1,3) by (simp add: world_ok_def)
    ultimately show ?case by (simp add: world_ok_def) (intro refresh_okI; simp)
  next
    case (timer_fired w e d k m)
    show ?case by (rule timer_fired(3) [OF timer_fired(1)]) (simp add: timer_fired(4))
  qed (simp_all add: world_ok_def)
qed

lemma reachable_ok: "auth_step\<^sup>*\<^sup>* initial_world w \<Longrightarrow> world_ok w"
proof (induction rule: rtranclp_induct)
  case base
  show ?case by (simp add: world_ok_def initial_world_def)
next
  case (step w w')
  then show ?case using client_keeps_ok refresh_keeps_ok unfolding auth_step_def by blast
qed

subsection \<open>Progress\<close>

definition refresh_rank :: "auth_world \<Rightarrow> nat" where
  "refresh_rank w = (case aw_refresh w of None \<Rightarrow> 0 | Some r \<Rightarrow> phase_rank (snd r))"

lemma refresh_step_rank: "refresh_step w w' \<Longrightarrow> refresh_rank w' < refresh_rank w"
proof (induction rule: refresh_step.induct)
  case (lock_granted w e)
  then show ?case using store.request_rank [of e 0 True w] by (simp add: refresh_rank_def runRefresh_def)
next
  case (responded w e sid k m r w' phase)
  then show ?case using store.response_rank [OF responded(2), of sid] by (simp add: refresh_rank_def)
next
  case (timer_fired w e d k m)
  then show ?case using store.request_rank [of e k m w] by (simp add: refresh_rank_def)
qed (simp_all add: refresh_rank_def)

lemma client_step_in_flight:
  assumes "client_step w w'" "aw_refresh w \<noteq> None"
  shows "aw_refresh w' = aw_refresh w" "aw_epoch w \<le> aw_epoch w'"
proof -
  have "refreshAuthentication locks (upd_auth f w) = upd_auth f w" for locks f
    using assms(2) by (intro refreshAuthentication_busy) simp
  then have "aw_refresh w' = aw_refresh w \<and> aw_epoch w \<le> aw_epoch w'"
    using client_step_effect [OF assms(1)] unfolding client_effect_def by (elim disjE exE conjE) simp_all
  then show "aw_refresh w' = aw_refresh w" "aw_epoch w \<le> aw_epoch w'" by simp_all
qed

lemma run_rank:
  assumes "\<And>i. auth_step (\<sigma> i) (\<sigma> (Suc i))" "\<And>n. i \<le> n \<Longrightarrow> n < i + d \<Longrightarrow> aw_refresh (\<sigma> n) \<noteq> None"
  shows "refresh_rank (\<sigma> (i + d)) \<le> refresh_rank (\<sigma> i)"
  using assms(2)
proof (induction d)
  case (Suc d)
  have "refresh_rank (\<sigma> (Suc (i + d))) \<le> refresh_rank (\<sigma> (i + d))"
    using assms(1) [of "i + d"] unfolding auth_step_def
  proof
    assume "client_step (\<sigma> (i + d)) (\<sigma> (Suc (i + d)))"
    then show ?thesis using client_step_in_flight(1) Suc.prems [of "i + d"] by (simp add: refresh_rank_def)
  qed (simp add: refresh_step_rank less_imp_le)
  moreover have "refresh_rank (\<sigma> (i + d)) \<le> refresh_rank (\<sigma> i)" using Suc by simp
  ultimately show ?case by simp
qed simp

subsection \<open>Superseded refreshes\<close>

definition superseded :: "auth_world \<Rightarrow> bool" where
  "superseded w \<longleftrightarrow> (\<forall>e phase. aw_refresh w = Some (e, phase) \<longrightarrow> e < aw_epoch w)"

lemma superseded_refresh_step:
  assumes "refresh_step w w'" "superseded w"
  shows "aw_auth w' = aw_auth w \<and> aw_published w' = aw_published w \<and> aw_epoch w' = aw_epoch w \<and> superseded w'"
  using assms
proof (induction rule: refresh_step.induct)
  case (responded w e sid k m r w' phase)
  then have "(w', phase) = (w, Finished (Transient Superseded))"
    using store.response_superseded [of w e] by (simp add: superseded_def)
  then show ?case using responded by (simp add: superseded_def)
qed (simp_all add: superseded_def)

lemma superseded_steps:
  assumes "(\<lambda>a b. auth_step a b \<and> aw_refresh a \<noteq> None)\<^sup>*\<^sup>* w w'" "superseded w"
  shows "superseded w'"
  using assms
proof (induction rule: rtranclp_induct)
  case (step a b)
  show ?case
  proof (cases "refresh_step a b")
    case True
    then show ?thesis using superseded_refresh_step step by blast
  next
    case False
    then have "aw_refresh b = aw_refresh a" "aw_epoch a \<le> aw_epoch b"
      using step client_step_in_flight by (auto simp: auth_step_def)
    then show ?thesis using step by (auto simp: superseded_def intro: less_le_trans)
  qed
qed

subsection \<open>Properties\<close>

text \<open>
  C30: every refresh comes to an end. In any infinite run of the module, in which
  clients act between the steps of the refresh as they like and the server answers
  whatever it likes, but no refresh is left without a next step for ever, the
  refresh promise is settled and cleared again and again.
\<close>

theorem refresh_settles:
  assumes run: "\<forall>i. auth_step (\<sigma> i) (\<sigma> (Suc i))"
    and fair: "\<forall>i. aw_refresh (\<sigma> i) \<noteq> None \<longrightarrow> (\<exists>j \<ge> i. refresh_step (\<sigma> j) (\<sigma> (Suc j)))"
  shows "\<exists>j \<ge> i. aw_refresh (\<sigma> j) = None"
proof (induction "refresh_rank (\<sigma> i)" arbitrary: i rule: less_induct)
  case less
  show ?case
  proof (rule ccontr)
    assume "\<not> ?thesis"
    then have busy: "aw_refresh (\<sigma> n) \<noteq> None" if "i \<le> n" for n using that by auto
    then obtain d where d: "refresh_step (\<sigma> (i + d)) (\<sigma> (Suc (i + d)))"
      using fair by (metis le_Suc_ex order_refl)
    have "refresh_rank (\<sigma> (i + d)) \<le> refresh_rank (\<sigma> i)" by (rule run_rank) (use run busy in auto)
    then have "refresh_rank (\<sigma> (Suc (i + d))) < refresh_rank (\<sigma> i)" using refresh_step_rank [OF d] by simp
    then obtain j where "Suc (i + d) \<le> j" "aw_refresh (\<sigma> j) = None" using less by blast
    then show False using busy by simp
  qed
qed

definition sample_run :: "nat \<Rightarrow> auth_world" where
  "sample_run i = initial_world\<lparr>aw_refresh :=
     (if i = 0 then Some (0, Requesting None 0 True)
      else if i = 1 then Some (0, Finished (Transient (Failure (JBool True)))) else None)\<rparr>"

lemma sample_steps:
  "refresh_step (sample_run 0) (sample_run 1)" "refresh_step (sample_run 1) (sample_run 2)"
  "client_step (sample_run (Suc (Suc n))) (sample_run (Suc (Suc (Suc n))))"
proof -
  have "run_response (store_runtime 0) 0 True (requestRefresh (Other_Error (JBool True))) (sample_run 0) =
    (sample_run 0, Finished (Transient (Failure (JBool True))))"
    by (simp add: run_response_def is_superseded_def store_runtime_def sample_run_def initial_world_def
        isRecord_def jfield_def response_failure_def is_nullish_def upd_auth_def setBootstrapState_def initial_auth_def is_object_def)
  then show "refresh_step (sample_run 0) (sample_run 1)"
    using responded [of "sample_run 0" 0 None 0 True "Other_Error (JBool True)" "sample_run 0" "Finished (Transient (Failure (JBool True)))"]
    by (simp add: sample_run_def)
  show "refresh_step (sample_run 1) (sample_run 2)"
    using fulfilled [of "sample_run 1" 0 "Transient (Failure (JBool True))"] by (simp add: sample_run_def)
  show "client_step (sample_run (Suc (Suc n))) (sample_run (Suc (Suc (Suc n))))"
    using set_pending [of "sample_run (Suc (Suc n))" None]
    by (simp add: sample_run_def upd_auth_def setPendingLoginVerification_def initial_world_def initial_auth_def)
qed

theorem refresh_settles_witness:
  "aw_refresh (sample_run 0) \<noteq> None \<and> (\<exists>j. aw_refresh (sample_run j) = None)"
proof -
  have "auth_step (sample_run i) (sample_run (Suc i))" for i
    using sample_steps by (cases i rule: nat.exhaust, simp add: auth_step_def)
      (metis One_nat_def Suc_1 auth_step_def not0_implies_Suc)
  moreover have "\<exists>j \<ge> i. refresh_step (sample_run j) (sample_run (Suc j))" if "aw_refresh (sample_run i) \<noteq> None" for i
  proof -
    have "i \<le> 1" using that by (simp add: sample_run_def split: if_splits)
    then show ?thesis using sample_steps(2) by (intro exI [of _ 1]) (simp add: numeral_2_eq_2)
  qed
  ultimately have "\<exists>j \<ge> 0. aw_refresh (sample_run j) = None" using refresh_settles [of sample_run 0] by blast
  then show ?thesis by (simp add: sample_run_def)
qed

text \<open>
  C31: a sign-in or a sign-out during a refresh is never undone by it. From the
  moment a bundle is applied or the session is cleared, no later step of the refresh
  that was in flight changes the store, the epoch or what was published.
\<close>

theorem newer_session_survives_refresh:
  assumes "auth_step\<^sup>*\<^sup>* initial_world w" "aw_refresh w \<noteq> None"
    and "w1 = applyAuthBundle bundle sync w \<or> w1 = clearAuthentication sync b w"
    and "(\<lambda>x y. auth_step x y \<and> aw_refresh x \<noteq> None)\<^sup>*\<^sup>* w1 w2" "refresh_step w2 w3"
  shows "aw_auth w3 = aw_auth w2 \<and> aw_published w3 = aw_published w2 \<and> aw_epoch w3 = aw_epoch w2"
proof -
  have "world_ok w" using assms(1) by (rule reachable_ok)
  then have "e \<le> aw_epoch w" if "aw_refresh w = Some (e, phase)" for e phase
    using that refresh_ok_epoch by (auto simp: world_ok_def)
  then have "superseded w1" using assms(3) by (auto simp: superseded_def intro: le_imp_less_Suc)
  then show ?thesis using superseded_steps [OF assms(4)] superseded_refresh_step [OF assms(5)] by blast
qed

definition sample_bundle :: auth_bundle where
  "sample_bundle = \<lparr>ab_access_token = lit ''t'', ab_token_type = lit ''Bearer'', ab_access_expires_at = Fin 9,
     ab_user = \<lparr>au_id = Fin 1, au_username = lit ''u'', au_role = Fin 1, au_other = []\<rparr>,
     ab_session = \<lparr>ls_sid = lit ''s'', ls_current = True, ls_login_method = [], ls_ip = [], ls_user_agent = [],
       ls_created_at = Fin 1, ls_last_active_at = Fin 1, ls_expires_at = Fin 9\<rparr>\<rparr>"

theorem newer_session_survives_refresh_witness:
  "\<exists>w3. refresh_step (applyAuthBundle sample_bundle True (refreshAuthentication Lock_Queues initial_world)) w3 \<and>
     as_session (aw_auth w3) = Some (ab_session sample_bundle)"
proof -
  let ?w = "refreshAuthentication Lock_Queues initial_world"
  let ?w1 = "applyAuthBundle sample_bundle True ?w"
  have "?w = fst (getFreshAuthHeaders Lock_Queues 0 initial_world)"
    by (simp add: getFreshAuthHeaders_def token_valid_after_def initial_world_def initial_auth_def)
  then have "auth_step\<^sup>*\<^sup>* initial_world ?w"
    using fresh_headers [of initial_world Lock_Queues 0] by (auto simp: auth_step_def)
  moreover have flight: "aw_refresh ?w = Some (0, Locking)"
    by (simp add: refreshAuthentication_def initial_world_def)
  moreover from flight have "refresh_step ?w1 (?w1\<lparr>aw_refresh := Some (0, runRefresh 0 ?w1)\<rparr>)"
    by (intro lock_granted) simp
  ultimately have "refresh_step ?w1 (?w1\<lparr>aw_refresh := Some (0, runRefresh 0 ?w1)\<rparr>) \<and>
      aw_auth (?w1\<lparr>aw_refresh := Some (0, runRefresh 0 ?w1)\<rparr>) = aw_auth ?w1"
    using newer_session_survives_refresh [of ?w ?w1 sample_bundle True None ?w1] by simp
  then show ?thesis by (intro exI conjI) (auto simp: setBundle_def)
qed

definition signed_out_store :: "auth_state \<Rightarrow> bool" where
  "signed_out_store auth \<longleftrightarrow> as_user auth = None \<and> as_accessToken auth = None \<and> as_accessExpiresAt auth = None \<and>
     as_session auth = None \<and> as_pending auth = None"

text \<open>
  C32: what a response does to the store agrees with what the runner reports. For a
  refresh that is still current: an accepted bundle passed every check and is in the
  store; \<open>anonymous\<close> leaves no session and tells the other tabs of the one that
  was there; \<open>out_of_sync\<close> leaves no session and tells nobody; a transient error
  keeps the session and may be tried again; waiting changes nothing; a retry after a
  mismatch is made without a session and within the same epoch.
\<close>

theorem refresh_response_effect:
  "case run_response (store_runtime (aw_epoch w)) k m r w of
     (w', Finished (Authenticated b)) \<Rightarrow>
       bundle_ok b \<and> aw_auth w' = setBundle b (aw_auth w) \<and> aw_published w' = aw_published w
   | (w', Finished Anonymous) \<Rightarrow>
       hr_status r = 401 \<and> signed_out_store (aw_auth w') \<and> as_bootstrapState (aw_auth w') = Complete \<and>
       aw_published w' = aw_published w @
         (case current_sid w of Some sid \<Rightarrow> if sid = [] then [] else [(Sync_Signed_Out, sid)] | None \<Rightarrow> [])
   | (w', Finished (Out_Of_Sync code)) \<Rightarrow>
       code \<noteq> None \<and> signed_out_store (aw_auth w') \<and> as_bootstrapState (aw_auth w') = Complete \<and>
       aw_published w' = aw_published w
   | (w', Finished (Transient err)) \<Rightarrow>
       err = Failure (response_failure r) \<and> aw_auth w' = setBootstrapState Idle (aw_auth w) \<and>
       aw_published w' = aw_published w \<and> aw_epoch w' = aw_epoch w
   | (w', Waiting d k' m') \<Rightarrow> w' = w \<and> k < 3 \<and> k' = k + 1 \<and> m' = m
   | (w', Requesting sid k' m') \<Rightarrow>
       sid = None \<and> k' = 0 \<and> m \<and> \<not> m' \<and> signed_out_store (aw_auth w') \<and>
       aw_published w' = aw_published w \<and> aw_epoch w' = aw_epoch w
   | _ \<Rightarrow> False"
proof -
  let ?rt = "store_runtime (aw_epoch w)"
  have published: "aw_published (applyAuthBundle b False w) = aw_published w"
    "aw_published (clearAuthentication False bs w) = aw_published w"
    "aw_published (clearAuthentication True bs w) = aw_published w @
         (case current_sid w of Some sid \<Rightarrow> if sid = [] then [] else [(Sync_Signed_Out, sid)] | None \<Rightarrow> [])" for b bs
    by (simp_all add: world_defs Let_def split: option.split)
  have retry: "run_request ?rt 0 False (upd_auth (reset_auth Idle) w) = Requesting None 0 False"
    by (simp add: run_request_def is_superseded_def store_runtime_def reset_auth_def)
  have current: "\<not> is_superseded ?rt w" by (simp add: is_superseded_def store_runtime_def)
  have fields: "rr_parseBundle ?rt v = (if isAuthBundle v then Some (bundle_of v) else None)"
    "rr_acceptBundle ?rt b = applyAuthBundle b False" "rr_clear ?rt = store_clear"
    "rr_markTransient ?rt = upd_auth (setBootstrapState Idle)" for v b
    by (simp_all add: store_runtime_def)
  have pub_idle: "aw_published (upd_auth f w) = aw_published w" for f by (simp add: upd_auth_def)
  show ?thesis
    unfolding run_response_def Let_def fields
    using isAuthBundle_ok
    by (simp add: current store_clear_def retry published pub_idle signed_out_store_def reset_auth_def refreshRaceDelays_def)
qed

text \<open>
  C33: in every reachable state of the module the access token, its expiry and the
  session are all present or all absent, a refresh in flight belongs to an epoch that
  is not in the future, and a request of the current epoch names exactly the session
  that is in the store.
\<close>

theorem auth_world_invariant:
  assumes "auth_step\<^sup>*\<^sup>* initial_world w"
  shows "(as_accessToken (aw_auth w) = None \<longleftrightarrow> as_session (aw_auth w) = None) \<and>
    (as_accessExpiresAt (aw_auth w) = None \<longleftrightarrow> as_session (aw_auth w) = None) \<and>
    (\<forall>e phase. aw_refresh w = Some (e, phase) \<longrightarrow> e \<le> aw_epoch w) \<and>
    (\<forall>sid k m. aw_refresh w = Some (aw_epoch w, Requesting sid k m) \<longrightarrow> sid = current_sid w)"
  using reachable_ok [OF assms] refresh_ok_epoch by (auto simp: world_ok_def store_ok_def)

theorem auth_world_invariant_witness:
  "as_session (aw_auth (applyAuthBundle sample_bundle True initial_world)) \<noteq> None \<and>
   as_accessToken (aw_auth (applyAuthBundle sample_bundle True initial_world)) \<noteq> None"
proof -
  have "auth_step\<^sup>*\<^sup>* initial_world (applyAuthBundle sample_bundle True initial_world)"
    using sign_in by (auto simp: auth_step_def)
  then show ?thesis using auth_world_invariant by (auto simp: setBundle_def)
qed

text \<open>
  C34: the visitor without a session hint is answered without a request and without
  recording a finished check, so that the next resolution does ask the server: it
  starts a refresh, or joins the one in flight.
\<close>

theorem hintless_visitor_still_refreshes:
  assumes "as_user (aw_auth w) = None" "as_session (aw_auth w) = None" "as_bootstrapState (aw_auth w) \<noteq> Complete"
  shows "bootstrapAuthentication locks False now w = (w, Some Anonymous) \<and>
    (\<exists>w' r. resolveAuthentication locks' now' w = (w', None) \<and> aw_refresh w' = Some r \<and>
      (aw_refresh w = None \<or> aw_refresh w = Some r))"
proof -
  have none: "currentValidAuthBundle t w = None" for t
    using assms(1) by (simp add: currentValidAuthBundle_def)
  let ?c = "upd_auth (setBootstrapState Checking) w"
  obtain f phase where "refreshAuthentication locks' ?c =
      (upd_auth f ?c)\<lparr>aw_refresh := (if aw_refresh ?c = None then Some (aw_epoch ?c, phase) else aw_refresh ?c)\<rparr>"
    using refresh_start [of locks' ?c] by blast
  then show ?thesis
    using assms none by (cases "aw_refresh w") (simp_all add: bootstrapAuthentication_def resolveAuthentication_def)
qed

theorem hintless_visitor_still_refreshes_witness:
  "bootstrapAuthentication No_Locks False 0 initial_world = (initial_world, Some Anonymous)"
proof -
  have "as_user (aw_auth initial_world) = None" "as_session (aw_auth initial_world) = None"
    "as_bootstrapState (aw_auth initial_world) \<noteq> Complete" by (simp_all add: initial_world_def initial_auth_def)
  from hintless_visitor_still_refreshes [OF this] show ?thesis by blast
qed

text \<open>A signed-in world and a rotation of its token.\<close>

definition signed_in_world :: auth_world where
  "signed_in_world = applyAuthBundle sample_bundle True initial_world"

definition rotation_response :: json where
  "rotation_response = JObj [(lit ''access_token'', JStr (lit ''t2'')), (lit ''token_type'', JStr (lit ''Bearer'')),
     (lit ''access_expires_at'', JNum (Fin 99)),
     (lit ''session'', JObj [(lit ''sid'', JStr (ls_sid (ab_session sample_bundle))), (lit ''current'', JBool True),
       (lit ''login_method'', JStr (lit ''password'')), (lit ''ip'', JStr []), (lit ''user_agent'', JStr []),
       (lit ''created_at'', JNum (Fin 1)), (lit ''last_active_at'', JNum (Fin 2)), (lit ''expires_at'', JNum (Fin 100))])]"

text \<open>
  C35: a rotation of the access token never changes who is signed in. When it succeeds
  there was a signed-in user with a session; the user and the session's identifier stay
  the same, nothing is published to other tabs, the store holds the non-empty token and
  the finite positive expiry time of the response, and the epoch advances, so that a
  refresh in flight, which is left as it is, no longer counts as current.
\<close>

theorem rotation_keeps_identity:
  assumes "applyAuthRotation v w = Inr w'"
  shows "as_user (aw_auth w) \<noteq> None \<and> as_user (aw_auth w') = as_user (aw_auth w) \<and>
    current_sid w \<noteq> None \<and> current_sid w' = current_sid w \<and> aw_published w' = aw_published w \<and>
    aw_refresh w' = aw_refresh w \<and> is_superseded (store_runtime (aw_epoch w)) w' \<and>
    (\<exists>token expires. jfield v (lit ''access_token'') = JStr token \<and> token \<noteq> [] \<and>
       jfield v (lit ''access_expires_at'') = JNum (Fin expires) \<and> 0 < expires \<and>
       as_accessToken (aw_auth w') = Some token \<and> as_accessExpiresAt (aw_auth w') = Some (Fin expires))"
proof -
  have v: "isAuthTokenRotation v" using assms by (auto simp: applyAuthRotation_def split: if_splits)
  then obtain token n where n: "jfield v (lit ''access_token'') = JStr token" "token \<noteq> []"
    "jfield v (lit ''access_expires_at'') = JNum n" "isFinite n" "num_lt (Fin 0) n"
    by (cases "jfield v (lit ''access_token'')"; cases "jfield v (lit ''access_expires_at'')")
      (auto simp: isAuthTokenRotation_def hasValidTokenFields_def)
  then obtain expires where e: "n = Fin expires" "0 < expires" by (cases n) (auto simp: isFinite_def num_lt_def)
  note t = n(1,2) n(3) [unfolded e(1)] e(2)
  show ?thesis using assms v t
    by (auto simp: applyAuthRotation_def applyAuthBundle_def publish_def upd_auth_def setBundle_def Let_def
        is_superseded_def store_runtime_def split: option.splits if_splits)
qed

theorem rotation_keeps_identity_witness:
  "\<exists>w'. applyAuthRotation rotation_response signed_in_world = Inr w' \<and>
     as_user (aw_auth w') = as_user (aw_auth signed_in_world) \<and> current_sid w' = current_sid signed_in_world"
proof -
  have "\<not> (case applyAuthRotation rotation_response signed_in_world of Inl _ \<Rightarrow> True | Inr _ \<Rightarrow> False)" by code_simp
  then obtain w' where w: "applyAuthRotation rotation_response signed_in_world = Inr w'"
    by (cases "applyAuthRotation rotation_response signed_in_world") auto
  from rotation_keeps_identity [OF w] w show ?thesis by blast
qed

end
