(* ===== verification/JS_JSON.thy ===== *)
theory JS_JSON
  imports JS_Value
begin

text \<open>
  \<open>JSON.parse\<close> of the language: a recursive reader of the JSON grammar over UTF-16
  text. A nested value is read with less fuel; the fuel of \<open>JSON_parse\<close> is twice the
  length of the text, which no text exhausts (lemma \<open>json_fuel\<close>). An object lists
  its entries in the order of \<open>Object.keys\<close>. The theory also has the lists that
  \<open>Array.from(new Set(xs))\<close> gives.
\<close>

subsection \<open>Lexical parts\<close>

definition json_ws :: "jstring \<Rightarrow> jstring" where
  "json_ws s = dropWhile (\<lambda>c. c = 32 \<or> c = 9 \<or> c = 10 \<or> c = 13) s"

lemma length_json_ws: "length (json_ws s) \<le> length s"
  by (simp add: json_ws_def length_dropWhile_le)

definition simple_escape :: "code_unit \<Rightarrow> code_unit option" where
  "simple_escape e =
     (if e = 34 \<or> e = 92 \<or> e = 47 then Some e
      else if e = 98 then Some 8 else if e = 102 then Some 12 else if e = 110 then Some 10
      else if e = 114 then Some 13 else if e = 116 then Some 9 else None)"

text \<open>The characters of a string up to its closing quote, and what follows the quote.\<close>

fun json_str :: "jstring \<Rightarrow> (jstring \<times> jstring) option" where
  "json_str [] = None"
| "json_str (c # s) =
     (if c = 34 then Some ([], s)
      else if c < 32 then None
      else if c = 92 then
        (case s of
           [] \<Rightarrow> None
         | e # t \<Rightarrow>
           if e = 117 then
             (if 4 \<le> length t \<and> list_all is_hex (take 4 t)
              then map_option (apfst (Cons (parse_hex (take 4 t)))) (json_str (drop 4 t)) else None)
           else
             (case simple_escape e of
                Some x \<Rightarrow> map_option (apfst (Cons x)) (json_str t)
              | None \<Rightarrow> None))
      else map_option (apfst (Cons c)) (json_str s))"

lemma json_str_shorter: "json_str s = Some (v, r) \<Longrightarrow> length r < length s"
proof (induction s arbitrary: v rule: json_str.induct)
  case (2 c s)
  show ?case
  proof (cases s)
    case (Cons e t)
    then show ?thesis
      using 2 by (fastforce split: if_split_asm option.splits simp: apfst_def map_prod_def)
  qed (use "2.prems" in \<open>auto split: if_splits\<close>)
qed simp

definition number_char :: "code_unit \<Rightarrow> bool" where
  "number_char c \<longleftrightarrow> is_digit c \<or> c = 45 \<or> c = 43 \<or> c = 46 \<or> c = 101 \<or> c = 69"

text \<open>An unsigned number: no leading zero, digits after a point, digits in an exponent.\<close>

definition json_number_ok :: "jstring \<Rightarrow> bool" where
  "json_number_ok s =
     (let ip = takeWhile is_digit s; r = dropWhile is_digit s;
          frac = (case r of c # u \<Rightarrow> c = 46 | [] \<Rightarrow> False);
          fp = (if frac then takeWhile is_digit (tl r) else []);
          ex = (if frac then dropWhile is_digit (tl r) else r)
      in ip \<noteq> [] \<and> (hd ip = 48 \<longrightarrow> length ip = 1) \<and> (frac \<longrightarrow> fp \<noteq> []) \<and> scan_exponent ex = ex)"

definition json_number :: "jstring \<Rightarrow> (json \<times> jstring) option" where
  "json_number s =
     (let t = takeWhile number_char s; r = dropWhile number_char s
      in case t of
           [] \<Rightarrow> None
         | c # u \<Rightarrow>
           if c = 45 then (if json_number_ok u then Some (JNum (num_neg (decimal_number u)), r) else None)
           else (if json_number_ok t then Some (JNum (decimal_number t), r) else None))"

lemma json_number_shorter: "json_number s = Some (v, r) \<Longrightarrow> length r < length s"
  by (cases s) (auto simp: json_number_def Let_def length_dropWhile_le less_Suc_eq_le split: if_split_asm list.splits)

definition json_keyword :: "jstring \<Rightarrow> (json \<times> jstring) option" where
  "json_keyword s =
     (if starts_with s (lit ''true'') then Some (JBool True, drop 4 s)
      else if starts_with s (lit ''false'') then Some (JBool False, drop 5 s)
      else if starts_with s (lit ''null'') then Some (JNull, drop 4 s)
      else None)"

subsection \<open>Objects\<close>

text \<open>
  A key that is the decimal text of an integer below \<open>2\<^sup>3\<^sup>2 - 1\<close> is an index; indices
  come first and in ascending order. A repeated key keeps its place and takes the
  later value.
\<close>

definition is_index :: "jstring \<Rightarrow> bool" where
  "is_index k \<longleftrightarrow> k \<noteq> [] \<and> list_all is_digit k \<and> (hd k = 48 \<longrightarrow> length k = 1) \<and> digits_val k < 2 ^ 32 - 1"

definition own_order :: "(jstring \<times> 'a) list \<Rightarrow> (jstring \<times> 'a) list" where
  "own_order es =
     sort_key (\<lambda>e. digits_val (fst e)) (filter (\<lambda>e. is_index (fst e)) es) @ filter (\<lambda>e. \<not> is_index (fst e)) es"

definition json_object :: "(jstring \<times> json) list \<Rightarrow> json" where
  "json_object members = JObj (own_order (foldl (\<lambda>es m. assoc_set (fst m) (snd m) es) [] members))"

subsection \<open>Values\<close>

fun json_value :: "nat \<Rightarrow> jstring \<Rightarrow> (json \<times> jstring) option"
  and json_items :: "nat \<Rightarrow> jstring \<Rightarrow> (json list \<times> jstring) option"
  and json_members :: "nat \<Rightarrow> jstring \<Rightarrow> ((jstring \<times> json) list \<times> jstring) option" where
  "json_value 0 s = None"
| "json_value (Suc n) s =
     (case json_ws s of
        [] \<Rightarrow> None
      | c # t \<Rightarrow>
        if c = 34 then map_option (apfst JStr) (json_str t)
        else if c = 91 then
          (case json_ws t of
             [] \<Rightarrow> None
           | d # u \<Rightarrow> if d = 93 then Some (JArr [], u) else map_option (apfst JArr) (json_items n t))
        else if c = 123 then
          (case json_ws t of
             [] \<Rightarrow> None
           | d # u \<Rightarrow> if d = 125 then Some (json_object [], u) else map_option (apfst json_object) (json_members n t))
        else if c = 45 \<or> is_digit c then json_number (c # t)
        else json_keyword (c # t))"
| "json_items 0 s = None"
| "json_items (Suc n) s =
     (case json_value n s of
        None \<Rightarrow> None
      | Some (v, r) \<Rightarrow>
        (case json_ws r of
           [] \<Rightarrow> None
         | c # t \<Rightarrow>
           if c = 93 then Some ([v], t)
           else if c = 44 then map_option (apfst (Cons v)) (json_items n t) else None))"
| "json_members 0 s = None"
| "json_members (Suc n) s =
     (case json_ws s of
        [] \<Rightarrow> None
      | q # s1 \<Rightarrow>
        if q \<noteq> 34 then None
        else
          (case json_str s1 of
             None \<Rightarrow> None
           | Some (k, s2) \<Rightarrow>
             (case json_ws s2 of
                [] \<Rightarrow> None
              | col # s3 \<Rightarrow>
                if col \<noteq> 58 then None
                else
                  (case json_value n s3 of
                     None \<Rightarrow> None
                   | Some (v, r) \<Rightarrow>
                     (case json_ws r of
                        [] \<Rightarrow> None
                      | c # t \<Rightarrow>
                        if c = 125 then Some ([(k, v)], t)
                        else if c = 44 then map_option (apfst (Cons (k, v))) (json_members n t) else None)))))"

definition JSON_parse :: "jstring \<Rightarrow> json option" where
  "JSON_parse s =
     (case json_value (2 * length s + 2) s of
        Some (v, r) \<Rightarrow> if json_ws r = [] then Some v else None
      | None \<Rightarrow> None)"

subsection \<open>The fuel is enough\<close>

lemma json_ws_Cons: "json_ws s = c # t \<Longrightarrow> length t < length s"
  using length_json_ws [of s] by simp

lemma json_keyword_shorter: "json_keyword s = Some (v, r) \<Longrightarrow> length r < length s"
proof -
  have "length p \<le> length s" if "starts_with s p" for p
    using that unfolding starts_with_def by (metis length_take min.cobounded1)
  then show "json_keyword s = Some (v, r) \<Longrightarrow> ?thesis"
    by (fastforce simp: json_keyword_def split: if_split_asm)
qed

lemma json_shorter:
  "json_value n s = Some (v, r) \<Longrightarrow> length r < length s"
  "json_items n s = Some (vs, r) \<Longrightarrow> length r < length s"
  "json_members n s = Some (ms, r) \<Longrightarrow> length r < length s"
proof (induction n s and n s and n s arbitrary: v r and vs r and ms r rule: json_value_json_items_json_members.induct)
  case (2 n s)
  obtain c t where ct: "json_ws s = c # t" using "2.prems" by (cases "json_ws s") auto
  have t: "length t < length s" "length (c # t) \<le> length s" using json_ws_Cons [OF ct] by auto
  show ?case
    using "2.prems" "2.IH" [OF ct] t
    by (auto simp: ct split: if_split_asm list.splits
        dest!: json_str_shorter json_number_shorter json_keyword_shorter json_ws_Cons) (use t in fastforce)+
next
  case (4 n s)
  then show ?case by (fastforce split: if_split_asm list.splits option.splits dest: json_ws_Cons)
next
  case (6 n s)
  then show ?case
    by (fastforce split: if_split_asm list.splits option.splits dest: json_ws_Cons json_str_shorter)
qed simp_all

lemma json_fuel_Suc:
  "2 * length s + 1 \<le> n \<Longrightarrow> json_value (Suc n) s = json_value n s"
  "2 * length s + 2 \<le> n \<Longrightarrow> json_items (Suc n) s = json_items n s"
  "2 * length s + 2 \<le> n \<Longrightarrow> json_members (Suc n) s = json_members n s"
proof (induction n s and n s and n s rule: json_value_json_items_json_members.induct)
  case (2 n s)
  show ?case
  proof (cases "json_ws s")
    case (Cons c t)
    have "2 * length t + 2 \<le> n" using json_ws_Cons [OF Cons] "2.prems" by simp
    then have "json_ws t = d # u \<Longrightarrow> c = 91 \<Longrightarrow> d \<noteq> 93 \<Longrightarrow> json_items (Suc n) t = json_items n t"
      "json_ws t = d # u \<Longrightarrow> c = 123 \<Longrightarrow> d \<noteq> 125 \<Longrightarrow> json_members (Suc n) t = json_members n t" for d u
      using "2.IH" [OF Cons] by auto
    then show ?thesis
      unfolding json_value.simps(2) [of "Suc n" s] json_value.simps(2) [of n s] Cons
      by (auto simp del: json_items.simps json_members.simps split: list.split)
  qed simp
next
  case (4 n s)
  have v: "json_value (Suc n) s = json_value n s" using 4 by simp
  have i: "json_items (Suc n) t = json_items n t" if "json_value n s = Some (x, r)" "json_ws r = c # t" "c \<noteq> 93" "c = 44" for x r c t
    using "4.IH"(2) [OF that(1) refl that(2) that(3,4)] json_shorter(1) [OF that(1)] json_ws_Cons [OF that(2)] "4.prems" by simp
  show ?case
    unfolding json_items.simps(2) [of "Suc n" s] json_items.simps(2) [of n s] v
    by (auto simp del: json_items.simps simp: i split: option.split list.split)
next
  case (6 n s)
  have v: "json_value (Suc n) s3 = json_value n s3"
    if "json_ws s = q # s1" "q = 34" "json_str s1 = Some (k, s2)" "json_ws s2 = col # s3" "col = 58" for q s1 k s2 col s3
    using "6.IH"(1) [OF that(1)] that json_ws_Cons [OF that(1)] json_str_shorter [OF that(3)] json_ws_Cons [OF that(4)] "6.prems" by simp
  have i: "json_members (Suc n) t = json_members n t"
    if "json_ws s = q # s1" "q = 34" "json_str s1 = Some (k, s2)" "json_ws s2 = col # s3" "col = 58"
      "json_value n s3 = Some (x, r)" "json_ws r = c # t" "c \<noteq> 125" "c = 44" for q s1 k s2 col s3 x r c t
    using "6.IH"(2) [OF that(1)] that json_ws_Cons [OF that(1)] json_str_shorter [OF that(3)] json_ws_Cons [OF that(4)]
      json_shorter(1) [OF that(6)] json_ws_Cons [OF that(7)] "6.prems" by simp
  show ?case
    unfolding json_members.simps(2) [of "Suc n" s] json_members.simps(2) [of n s]
    by (auto simp del: json_members.simps json_value.simps simp: v i split: option.split list.split)
qed simp_all

lemma json_fuel: "2 * length s + 1 \<le> n \<Longrightarrow> json_value n s = json_value (2 * length s + 2) s"
proof (induction n)
  case (Suc n)
  then show ?case using json_fuel_Suc(1) [of s n] json_fuel_Suc(1) [of s "2 * length s + 1"]
    by (cases "2 * length s + 1 \<le> n") (auto simp: le_Suc_eq)
qed simp

subsection \<open>Sets as lists\<close>

text \<open>\<open>Array.from(new Set(xs))\<close>: the elements in the order of their first occurrence.\<close>

definition unique :: "'a list \<Rightarrow> 'a list" where
  "unique xs = foldl (\<lambda>acc x. if x \<in> set acc then acc else acc @ [x]) [] xs"

lemma unique_loop:
  "distinct acc \<Longrightarrow>
     distinct (foldl (\<lambda>acc x. if x \<in> set acc then acc else acc @ [x]) acc xs) \<and>
     set (foldl (\<lambda>acc x. if x \<in> set acc then acc else acc @ [x]) acc xs) = set acc \<union> set xs"
  by (induction xs arbitrary: acc) auto

lemma set_unique [simp]: "set (unique xs) = set xs" and distinct_unique [simp]: "distinct (unique xs)"
  using unique_loop [of "[]" xs] by (simp_all add: unique_def)

lemma unique_distinct_loop:
  "distinct (acc @ xs) \<Longrightarrow> foldl (\<lambda>acc x. if x \<in> set acc then acc else acc @ [x]) acc xs = acc @ xs"
  by (induction xs arbitrary: acc) auto

lemma unique_distinct: "distinct xs \<Longrightarrow> unique xs = xs"
  by (simp add: unique_def unique_distinct_loop)

lemma unique_idem [simp]: "unique (unique xs) = unique xs"
  by (simp add: unique_distinct)

end
