(* ===== verification/JSON_Text.thy ===== *)
theory JSON_Text
  imports JS_JSON
begin

text \<open>
  \<open>JSON.stringify\<close>, and that \<open>JSON.parse\<close> reads back what it prints: strings of
  UTF-16 code units, non-negative numbers, and the members of an object of such values.
\<close>

fun JSON_text :: "json \<Rightarrow> jstring" where
  "JSON_text (JStr s) = json_string s"
| "JSON_text (JNum n) = (if isFinite n then number_to_string n else lit ''null'')"
| "JSON_text (JBool b) = (if b then lit ''true'' else lit ''false'')"
| "JSON_text (JArr vs) = lit ''['' @ join (lit '','') (map JSON_text vs) @ lit '']''"
| "JSON_text (JObj es) =
     lit ''{'' @ join (lit '','') (map (\<lambda>e. json_string (fst e) @ lit '':'' @ JSON_text (snd e))
       (filter (\<lambda>e. snd e \<noteq> JUndefined) es)) @ lit ''}''"
| "JSON_text _ = lit ''null''"

subsection \<open>Strings\<close>

definition utf16 :: "jstring \<Rightarrow> bool" where
  "utf16 s \<longleftrightarrow> (\<forall>c \<in> set s. 0 \<le> c \<and> c < 65536)"

lemma hex_digit_read: "0 \<le> d \<Longrightarrow> d < 16 \<Longrightarrow> is_hex (hex_digit d) \<and> hex_val (hex_digit d) = d"
  by (auto simp: hex_digit_def hex_val_def is_hex_def is_digit_def)

lemma base16: "((c div 4096 * 16 + c div 256 mod 16) * 16 + c div 16 mod 16) * 16 + c mod 16 = (c::int)"
proof -
  have "c div 4096 = c div 256 div 16" "c div 256 = c div 16 div 16" by (simp_all add: zdiv_zmult2_eq [symmetric])
  then show ?thesis by (simp add: mult.commute)
qed

lemma base16_flat: "4096 * (c div 4096) + 256 * (c div 256 mod 16) + c div 16 mod 16 * 16 + c mod 16 = (c::int)"
  using base16 [of c] by (simp add: algebra_simps)

lemma unicode_escape_read:
  assumes "0 \<le> c" "c < 65536"
  shows "json_str (unicode_escape c @ r) = map_option (apfst (Cons c)) (json_str r)"
proof -
  have d: "0 \<le> c div 4096" "c div 4096 < 16" "0 \<le> c div 256 mod 16" "c div 256 mod 16 < 16"
    "0 \<le> c div 16 mod 16" "c div 16 mod 16 < 16" "0 \<le> c mod 16" "c mod 16 < 16"
    using assms by (auto simp: div_less_iff_less_mult)
  show ?thesis
    using hex_digit_read [OF d(1,2)] hex_digit_read [OF d(3,4)] hex_digit_read [OF d(5,6)] hex_digit_read [OF d(7,8)]
    by (simp add: unicode_escape_def parse_hex_def base16_flat numeral_eq_Suc del: mult_Suc mult_Suc_right)
qed

lemma json_escape_read:
  assumes "0 \<le> c" "c < 65536"
  shows "json_str (json_escape c @ r) = map_option (apfst (Cons c)) (json_str r)"
  using unicode_escape_read [OF assms, of r] by (simp add: json_escape_def simple_escape_def)

lemma json_chars_read: "utf16 s \<Longrightarrow> json_str (json_chars s @ 34 # r) = Some (s, r)"
proof (induction s rule: json_chars.induct)
  case (2 c s)
  have c: "0 \<le> c" "c < 65536" "utf16 s" using "2.prems" by (auto simp: utf16_def)
  note unit = unicode_escape_read [OF c(1,2)] json_escape_read [OF c(1,2)]
  show ?case
  proof (cases "is_high_surrogate c")
    case True
    show ?thesis
    proof (cases s)
      case Nil
      then show ?thesis using True unit by simp
    next
      case (Cons d t)
      then show ?thesis using True 2 c unit
        by (auto simp: utf16_def is_high_surrogate_def is_low_surrogate_def)
    qed
  next
    case False
    then show ?thesis using 2 c unit by auto
  qed
qed simp

subsection \<open>Numbers\<close>

definition number_end :: "jstring \<Rightarrow> bool" where
  "number_end r \<longleftrightarrow> r = [] \<or> \<not> number_char (hd r)"

lemma exponent_chars: "c \<in> set (exponent_text e) \<Longrightarrow> number_char c"
  using int_digits_props(2) [of e] int_digits_props(2) [of "- e"]
  by (auto simp: exponent_text_def signed_exponent_def number_char_def split: if_splits)

lemma dec_text_json:
  assumes ip: "\<forall>c \<in> set ip. is_digit c" "ip \<noteq> []" "hd ip = 48 \<longrightarrow> length ip = 1"
    and fp: "\<And>f. fp = Some f \<Longrightarrow> (\<forall>c \<in> set f. is_digit c) \<and> f \<noteq> []"
  shows "json_number_ok (dec_text ip fp ex) \<and> (\<forall>c \<in> set (dec_text ip fp ex). number_char c)"
proof -
  define x :: jstring where "x = (case ex of None \<Rightarrow> [] | Some e \<Rightarrow> exponent_text e)"
  have shape: "dec_text ip fp ex = ip @ (case fp of None \<Rightarrow> [] | Some f \<Rightarrow> 46 # f) @ x" by (simp add: dec_text_def x_def)
  have e: "x = [] \<or> \<not> is_digit (hd x)" "x = [] \<or> hd x \<noteq> 46" "scan_exponent x = x" "\<forall>c \<in> set x. number_char c"
    using exponent_text_props exponent_chars by (auto simp: x_def scan_exponent_def split: option.split)
  have chars: "\<forall>c \<in> set (dec_text ip fp ex). number_char c"
    using ip(1) fp e(4) by (auto simp: shape number_char_def split: option.splits)
  have "json_number_ok (dec_text ip fp ex)"
  proof (cases fp)
    case None
    have read: "takeWhile is_digit (ip @ x) = ip" "dropWhile is_digit (ip @ x) = x"
      using ip(1) e(1) by (auto intro!: takeWhile_append_stop dropWhile_append_stop simp del: takeWhile_append2 dropWhile_append2)
    have all: "dec_text ip fp ex = ip @ x" unfolding shape using None by simp
    show ?thesis unfolding json_number_ok_def Let_def all read
      using ip(2,3) e(2,3) by (simp split: list.split) force
  next
    case (Some f)
    have "takeWhile is_digit (ip @ 46 # f @ x) = ip" "dropWhile is_digit (ip @ 46 # f @ x) = 46 # f @ x"
      using ip(1) by (auto intro!: takeWhile_append_stop dropWhile_append_stop simp del: takeWhile_append2 dropWhile_append2)
    moreover have "takeWhile is_digit (f @ x) = f" "dropWhile is_digit (f @ x) = x"
      using fp [OF Some] e(1) by (auto intro!: takeWhile_append_stop dropWhile_append_stop simp del: takeWhile_append2 dropWhile_append2)
    moreover have "dec_text ip fp ex = ip @ 46 # f @ x" unfolding shape using Some by simp
    ultimately show ?thesis using ip(2,3) e(3) fp [OF Some]
      unfolding json_number_ok_def Let_def by simp
  qed
  then show ?thesis using chars by blast
qed

lemma int_digits_hd: "0 < n \<Longrightarrow> hd (int_digits n) \<noteq> 48"
proof (induction n rule: int_digits.induct)
  case (1 n)
  show ?case
  proof (cases "n < 10")
    case True
    then show ?thesis using 1 by (simp add: int_digits.simps [of n])
  next
    case False
    then have "0 < n div 10" by simp
    then have "hd (int_digits (n div 10)) \<noteq> 48" "int_digits (n div 10) \<noteq> []"
      using 1(1) False int_digits_props [of "n div 10"] by auto
    then show ?thesis using False by (simp add: int_digits.simps [of n])
  qed
qed

lemma positive_text_json:
  assumes "is_double (Fin q)" "0 < q"
  shows "json_number_ok (positive_to_string q) \<and> (\<forall>c \<in> set (positive_to_string q). number_char c)"
proof -
  obtain s k n where skn: "shortest q = (s, k, n)" by (cases "shortest q")
  note c = shortest_correct [OF assms skn]
  let ?ds = "int_digits s"
  have ds: "\<forall>c \<in> set ?ds. is_digit c" "?ds \<noteq> []" "hd ?ds \<noteq> 48" "int (length ?ds) = k"
    using int_digits_props [of s] int_digits_hd [of s] c by auto
  have sub: "\<forall>c \<in> set (take i ?ds). is_digit c" "\<forall>c \<in> set (drop i ?ds). is_digit c" for i
    using ds(1) by (meson in_set_takeD, meson in_set_dropD)
  have hd_take: "hd (take i ?ds) \<noteq> 48" "take i ?ds \<noteq> []" if "0 < i" for i
    using that ds(2,3) by (cases ?ds; cases i; simp)+
  obtain ip fp ex where t: "positive_to_string q = dec_text ip fp ex" "\<forall>c \<in> set ip. is_digit c" "ip \<noteq> []"
    "hd ip = 48 \<longrightarrow> length ip = 1" "\<And>f. fp = Some f \<Longrightarrow> (\<forall>c \<in> set f. is_digit c) \<and> f \<noteq> []"
  proof (cases "k \<le> n \<and> n \<le> 21")
    case True
    then show ?thesis using that [of "?ds @ replicate (nat (n - k)) 48" None None] ds
      by (auto simp: positive_to_string_def skn Let_def dec_text_def set_replicate_conv_if)
  next
    case a: False
    show ?thesis
    proof (cases "0 < n \<and> n \<le> 21")
      case True
      then have "drop (nat n) ?ds \<noteq> []" using a ds(4) by auto
      then show ?thesis using a True that [of "take (nat n) ?ds" "Some (drop (nat n) ?ds)" None] sub hd_take [of "nat n"]
        by (auto simp: positive_to_string_def skn Let_def dec_text_def)
    next
      case b: False
      show ?thesis
      proof (cases "- 6 < n \<and> n \<le> 0")
        case True
        then show ?thesis using a b that [of "[48]" "Some (replicate (nat (- n)) 48 @ ?ds)" None] ds
          by (auto simp: positive_to_string_def skn Let_def dec_text_def set_replicate_conv_if)
      next
        case c: False
        show ?thesis
        proof (cases "k = 1")
          case True
          then show ?thesis using a b c that [of ?ds None "Some (n - 1)"] ds
            by (auto simp: positive_to_string_def skn Let_def dec_text_def exponent_text_def)
        next
          case False
          have "drop 1 ?ds \<noteq> []" using ds(2,4) False by (cases ?ds rule: list.exhaust) auto
          then show ?thesis using a b c False that [of "take 1 ?ds" "Some (drop 1 ?ds)" "Some (n - 1)"] sub hd_take [of 1]
            by (auto simp: positive_to_string_def skn Let_def dec_text_def exponent_text_def)
        qed
      qed
    qed
  qed
  then show ?thesis using dec_text_json [OF t(2-5)] by simp
qed

lemma json_number_read:
  assumes "is_double (Fin q)" "0 < q" "number_end r"
  shows "json_number (number_to_string (Fin q) @ r) = Some (JNum (Fin q), r)"
    and "number_to_string (Fin q) \<noteq> []" "is_digit (hd (number_to_string (Fin q)))"
proof -
  let ?t = "number_to_string (Fin q)"
  have ok: "json_number_ok ?t" "\<forall>c \<in> set ?t. number_char c"
    using positive_text_json [OF assms(1,2)] assms(2) by (simp_all add: number_to_string_def)
  then show ne: "?t \<noteq> []" by (auto simp: json_number_ok_def)
  then show dig: "is_digit (hd ?t)" using ok(1) by (cases ?t) (auto simp: json_number_ok_def Let_def split: if_splits)
  have "takeWhile number_char (?t @ r) = ?t" "dropWhile number_char (?t @ r) = r"
    using ok(2) assms(3) unfolding number_end_def by (intro takeWhile_append_stop dropWhile_append_stop; blast)+
  then show "json_number (?t @ r) = Some (JNum (Fin q), r)"
    using ok(1) ne dig number_round_trip(1) [OF assms(1)] assms(2)
    by (cases ?t) (auto simp: json_number_def is_digit_def)
qed

subsection \<open>Objects of strings and numbers\<close>

fun plain_value :: "json \<Rightarrow> bool" where
  "plain_value (JStr s) \<longleftrightarrow> utf16 s"
| "plain_value (JNum (Fin q)) \<longleftrightarrow> is_double (Fin q) \<and> 0 < q"
| "plain_value _ \<longleftrightarrow> False"

lemma json_ws_plain: "c \<noteq> 32 \<Longrightarrow> c \<noteq> 9 \<Longrightarrow> c \<noteq> 10 \<Longrightarrow> c \<noteq> 13 \<Longrightarrow> json_ws (c # s) = c # s"
  by (simp add: json_ws_def)

lemma plain_value_read:
  assumes "plain_value v" "number_end r"
  shows "json_value (Suc n) (JSON_text v @ r) = Some (v, r)"
  using assms(1)
proof (cases v rule: plain_value.cases)
  case (1 s)
  then show ?thesis using assms by (simp add: json_string_def json_ws_plain json_chars_read)
next
  case (2 q)
  then have q: "is_double (Fin q)" "0 < q" using assms(1) by auto
  note n = json_number_read [OF q assms(2)]
  obtain c t where ct: "number_to_string (Fin q) = c # t" using n(2) by (cases "number_to_string (Fin q)") auto
  then show ?thesis using n 2 by (auto simp: isFinite_def json_ws_plain is_digit_def)
qed simp_all

abbreviation member_text :: "jstring \<times> json \<Rightarrow> jstring" where
  "member_text e \<equiv> json_string (fst e) @ lit '':'' @ JSON_text (snd e)"

lemma members_read:
  "es \<noteq> [] \<Longrightarrow> \<forall>e \<in> set es. utf16 (fst e) \<and> plain_value (snd e) \<Longrightarrow> length es < n \<Longrightarrow>
     json_members n (join (lit '','') (map member_text es) @ 125 # r) = Some (es, r)"
proof (induction es arbitrary: n)
  case (Cons e es)
  obtain m where n: "n = Suc (Suc m)" using Cons.prems(3) by (cases n; cases "n - 1") auto
  let ?rest = "if es = [] then 125 # r else 44 # join (lit '','') (map member_text es) @ 125 # r"
  have end_ok: "number_end ?rest" by (simp add: number_end_def number_char_def is_digit_def)
  have printed: "join (lit '','') (map member_text (e # es)) @ 125 # r = 34 # json_chars (fst e) @ 34 # 58 # JSON_text (snd e) @ ?rest"
    by (cases es) (simp_all add: json_string_def lit_def)
  have "json_str (json_chars (fst e) @ 34 # 58 # JSON_text (snd e) @ ?rest) =
      Some (fst e, 58 # JSON_text (snd e) @ ?rest)" using Cons.prems(2) by (intro json_chars_read) simp
  moreover have "json_value (Suc m) (JSON_text (snd e) @ ?rest) = Some (snd e, ?rest)"
    using Cons.prems(2) end_ok by (intro plain_value_read) simp_all
  moreover have "es \<noteq> [] \<Longrightarrow> json_members (Suc m) (join (lit '','') (map member_text es) @ 125 # r) = Some (es, r)"
    using Cons.IH [of "Suc m"] Cons.prems n by simp
  ultimately show ?case unfolding n printed json_members.simps(2) [of "Suc m"]
    by (cases "es = []") (simp_all add: json_ws_plain del: json_value.simps json_members.simps)
qed simp

lemma length_join: "length ps \<le> length (join [c] ps) + 1"
  by (induction "[c]" ps rule: join.induct) auto

lemma object_read:
  assumes "es \<noteq> []" "\<forall>e \<in> set es. utf16 (fst e) \<and> plain_value (snd e)" "json_object es = JObj es"
  shows "JSON_parse (JSON_text (JObj es)) = Some (JObj es)"
proof -
  have defined: "filter (\<lambda>e. snd e \<noteq> JUndefined) es = es" using assms(2) by (intro filter_True) auto
  let ?body = "join (lit '','') (map member_text es) @ 125 # []"
  have body: "JSON_text (JObj es) = 123 # ?body" by (simp add: defined lit_def)
  have "length es \<le> length ?body" using length_join [of "map member_text es" 44] by (simp add: lit_def)
  then have members: "json_members (Suc (2 * length ?body + 2)) ?body = Some (es, [])"
    using assms by (intro members_read) simp_all
  obtain c t where ct: "?body = c # t" "c = 34"
    using assms(1) by (cases es rule: list.exhaust; cases "tl es") (auto simp: json_string_def)
  have "json_value (2 * length (JSON_text (JObj es)) + 2) (JSON_text (JObj es)) = Some (JObj es, [])"
    using members ct assms(3) unfolding body
    by (simp add: json_ws_plain del: json_members.simps)
  then show ?thesis by (simp add: JSON_parse_def json_ws_def)
qed

end
