(* ===== verification/Auth_Sync.thy ===== *)
theory Auth_Sync
  imports JSON_Text Auth_Session
begin

text \<open>
  Synchronisation of the tabs of a browser (\<open>lib/auth-session-sync.ts\<close>) and the
  cookie that hints at a session (\<open>lib/session-hint.ts\<close>). What a tab publishes goes
  through a broadcast channel, or through a storage event where the browser has no
  channels; every other tab checks what it receives.
\<close>

subsection \<open>Events\<close>

record sync_event =
  se_kind :: sync_kind
  se_sid :: jstring
  se_source :: jstring
  se_nonce :: jstring
  se_timestamp :: number

fun kind_text :: "sync_kind \<Rightarrow> jstring" where
  "kind_text Sync_Authenticated = lit ''authenticated''"
| "kind_text Sync_Signed_Out = lit ''signed_out''"

text \<open>The event as the object that is posted or stored.\<close>

definition event_object :: "sync_event \<Rightarrow> json" where
  "event_object e = JObj [(lit ''kind'', JStr (kind_text (se_kind e))), (lit ''sid'', JStr (se_sid e)),
     (lit ''source'', JStr (se_source e)), (lit ''nonce'', JStr (se_nonce e)), (lit ''timestamp'', JNum (se_timestamp e))]"

definition isAuthSessionSyncEvent :: "json \<Rightarrow> bool" where
  "isAuthSessionSyncEvent v \<longleftrightarrow> isRecord v \<and>
     (jfield v (lit ''kind'') = JStr (lit ''authenticated'') \<or> jfield v (lit ''kind'') = JStr (lit ''signed_out'')) \<and>
     (case jstr (jfield v (lit ''sid'')) of Some s \<Rightarrow> s \<noteq> [] | None \<Rightarrow> False) \<and>
     jstr (jfield v (lit ''source'')) \<noteq> None \<and>
     jstr (jfield v (lit ''nonce'')) \<noteq> None \<and>
     jnum (jfield v (lit ''timestamp'')) \<noteq> None"

definition event_of :: "json \<Rightarrow> sync_event" where
  "event_of v =
     \<lparr>se_kind = (if jfield v (lit ''kind'') = JStr (lit ''authenticated'') then Sync_Authenticated else Sync_Signed_Out),
      se_sid = the (jstr (jfield v (lit ''sid''))), se_source = the (jstr (jfield v (lit ''source''))),
      se_nonce = the (jstr (jfield v (lit ''nonce''))), se_timestamp = the (jnum (jfield v (lit ''timestamp'')))\<rparr>"

subsection \<open>Publishing\<close>

text \<open>
  What a tab runs in: whether there is a window, whether it has broadcast channels
  and a usable storage, the identifier of the tab, and the clock. The identifiers
  come from the random source of the browser.
\<close>

record tab_env =
  te_window :: bool
  te_channel :: bool
  te_storage :: bool
  te_source :: jstring
  te_now :: int

definition AUTH_SYNC_STORAGE_KEY :: jstring where
  "AUTH_SYNC_STORAGE_KEY = lit ''new-api:auth-session:event''"

text \<open>A message on the channel, or a write of the storage key; the removal of the key that follows carries no value.\<close>

datatype sync_message =
    Broadcast json
  | Storage_Event jstring "jstring option"

definition publishAuthSessionEvent :: "tab_env \<Rightarrow> jstring \<Rightarrow> sync_kind \<Rightarrow> jstring \<Rightarrow> sync_message list" where
  "publishAuthSessionEvent env nonce kind sid =
     (if \<not> te_window env \<or> sid = [] then []
      else
        let event = event_object \<lparr>se_kind = kind, se_sid = sid, se_source = te_source env, se_nonce = nonce,
              se_timestamp = Fin (of_int (te_now env))\<rparr>
        in if te_channel env then [Broadcast event]
           else if te_storage env then
             [Storage_Event AUTH_SYNC_STORAGE_KEY (Some (JSON_text event)), Storage_Event AUTH_SYNC_STORAGE_KEY None]
           else [])"

subsection \<open>Receiving\<close>

definition deliver :: "tab_env \<Rightarrow> json \<Rightarrow> sync_event option" where
  "deliver env v =
     (if isAuthSessionSyncEvent v \<and> jfield v (lit ''source'') \<noteq> JStr (te_source env) \<and>
         num_lt (math_abs (num_sub (Fin (of_int (te_now env))) (se_timestamp (event_of v)))) (Fin 60000)
      then Some (event_of v) else None)"

definition handleStorage :: "tab_env \<Rightarrow> jstring \<Rightarrow> jstring option \<Rightarrow> sync_event option" where
  "handleStorage env key newValue =
     (case newValue of
        None \<Rightarrow> None
      | Some text \<Rightarrow>
        if key \<noteq> AUTH_SYNC_STORAGE_KEY \<or> text = [] then None
        else (case JSON_parse text of Some v \<Rightarrow> deliver env v | None \<Rightarrow> None))"

text \<open>The calls of the listener that \<open>subscribeAuthSessionEvents\<close> makes for a sequence of messages.\<close>

fun receive :: "tab_env \<Rightarrow> sync_message \<Rightarrow> sync_event option" where
  "receive env (Broadcast v) = (if te_channel env then deliver env v else None)"
| "receive env (Storage_Event key newValue) = (if te_channel env then None else handleStorage env key newValue)"

definition subscribeAuthSessionEvents :: "tab_env \<Rightarrow> sync_message list \<Rightarrow> sync_event list" where
  "subscribeAuthSessionEvents env messages = (if te_window env then List.map_filter (receive env) messages else [])"

subsection \<open>The session hint\<close>

definition SESSION_HINT_COOKIE_NAME :: jstring where
  "SESSION_HINT_COOKIE_NAME = lit ''new_api_has_session''"

fun read_parts :: "jstring \<Rightarrow> jstring list \<Rightarrow> jstring option" where
  "read_parts name [] = None"
| "read_parts name (part # parts) =
     (if 61 \<notin> set part then read_parts name parts
      else if trim (takeWhile (\<lambda>c. c \<noteq> 61) part) \<noteq> name then read_parts name parts
      else Some (trim (tl (dropWhile (\<lambda>c. c \<noteq> 61) part))))"

definition readCookie :: "jstring \<Rightarrow> jstring \<Rightarrow> jstring option" where
  "readCookie cookieHeader name = read_parts name (split_on 59 cookieHeader)"

text \<open>The cookies of the document, or \<open>None\<close> outside a browser.\<close>

definition hasSessionHint :: "jstring option \<Rightarrow> bool" where
  "hasSessionHint cookie =
     (case cookie of None \<Rightarrow> True | Some c \<Rightarrow> readCookie c SESSION_HINT_COOKIE_NAME \<noteq> None)"

subsection \<open>Properties\<close>

lemma hint_iff:
  "hasSessionHint (Some cookie) \<longleftrightarrow>
     (\<exists>part \<in> set (split_on 59 cookie). 61 \<in> set part \<and> trim (takeWhile (\<lambda>c. c \<noteq> 61) part) = SESSION_HINT_COOKIE_NAME)"
proof -
  have "read_parts name parts \<noteq> None \<longleftrightarrow> (\<exists>part \<in> set parts. 61 \<in> set part \<and> trim (takeWhile (\<lambda>c. c \<noteq> 61) part) = name)"
    for name parts by (induction parts) auto
  then show ?thesis by (simp add: hasSessionHint_def readCookie_def)
qed

lemma lit_utf16: "utf16 (lit s)"
proof -
  have "0 \<le> (of_char c :: int) \<and> of_char c < (65536 :: int)" for c
  proof -
    have "int (of_char c) = of_char c" by (rule of_nat_of_char)
    moreover have "(of_char c :: nat) < 256" by (rule nat_of_char_less_256)
    ultimately show ?thesis by linarith
  qed
  then show ?thesis by (simp add: utf16_def lit_def)
qed

lemma event_object_read:
  assumes "utf16 (se_sid e)" "utf16 (se_source e)" "utf16 (se_nonce e)" "plain_value (JNum (se_timestamp e))"
  shows "JSON_parse (JSON_text (event_object e)) = Some (event_object e)"
  unfolding event_object_def
proof (rule object_read)
  show "\<forall>x \<in> set [(lit ''kind'', JStr (kind_text (se_kind e))), (lit ''sid'', JStr (se_sid e)),
     (lit ''source'', JStr (se_source e)), (lit ''nonce'', JStr (se_nonce e)), (lit ''timestamp'', JNum (se_timestamp e))].
      utf16 (fst x) \<and> plain_value (snd x)"
    using assms lit_utf16 by (cases "se_kind e") auto
  have "\<not> is_index (lit ''kind'')" "\<not> is_index (lit ''sid'')" "\<not> is_index (lit ''source'')" "\<not> is_index (lit ''nonce'')"
    "\<not> is_index (lit ''timestamp'')" by (simp_all add: is_index_def lit_def is_digit_def)
  then show "json_object [(lit ''kind'', JStr (kind_text (se_kind e))), (lit ''sid'', JStr (se_sid e)),
     (lit ''source'', JStr (se_source e)), (lit ''nonce'', JStr (se_nonce e)), (lit ''timestamp'', JNum (se_timestamp e))] =
     JObj [(lit ''kind'', JStr (kind_text (se_kind e))), (lit ''sid'', JStr (se_sid e)),
     (lit ''source'', JStr (se_source e)), (lit ''nonce'', JStr (se_nonce e)), (lit ''timestamp'', JNum (se_timestamp e))]"
    by (simp add: json_object_def own_order_def)
qed simp

lemma event_object_fields:
  "jfield (event_object e) (lit ''kind'') = JStr (kind_text (se_kind e))"
  "jfield (event_object e) (lit ''sid'') = JStr (se_sid e)"
  "jfield (event_object e) (lit ''source'') = JStr (se_source e)"
  "jfield (event_object e) (lit ''nonce'') = JStr (se_nonce e)"
  "jfield (event_object e) (lit ''timestamp'') = JNum (se_timestamp e)"
  "isRecord (event_object e)"
  by (simp_all add: event_object_def jfield_def isRecord_def is_object_def)

lemma event_of_object: "event_of (event_object e) = e"
  by (cases "se_kind e") (simp_all add: event_of_def event_object_fields)

lemma deliver_event:
  assumes "se_sid e \<noteq> []" "se_timestamp e = Fin (of_int sent)" "0 \<le> sent" "sent \<le> 2 ^ 52" "0 \<le> te_now env" "te_now env \<le> 2 ^ 52"
  shows "deliver env (event_object e) = (if se_source e \<noteq> te_source env \<and> \<bar>te_now env - sent\<bar> < 60000 then Some e else None)"
proof -
  have "num_sub (Fin (of_int (te_now env))) (Fin (of_int sent)) = Fin (of_int (te_now env - sent))"
    using num_of_rat_int [of "te_now env - sent"] num_of_rat_int [of "te_now env"] assms(3-6)
    by (auto simp: num_sub_def num_add_def num_neg_def)
  then have "num_lt (math_abs (num_sub (Fin (of_int (te_now env))) (Fin (of_int sent)))) (Fin 60000) \<longleftrightarrow> \<bar>te_now env - sent\<bar> < 60000"
    by (simp add: math_abs_def num_lt_def) linarith
  moreover have "isAuthSessionSyncEvent (event_object e)"
    using assms(1) by (cases "se_kind e") (simp_all add: isAuthSessionSyncEvent_def event_object_fields)
  ultimately show ?thesis by (auto simp: deliver_def event_of_object event_object_fields assms(2))
qed

text \<open>
  C29: what one tab publishes reaches the others unchanged, over the channel and over
  the storage event alike. A tab with the same transport hears exactly the published
  event when it is another tab and its clock is within a minute; otherwise nothing.
\<close>

theorem published_event_reaches_other_tabs:
  assumes "te_window env" "te_window env'" "te_channel env' = te_channel env" "te_channel env \<or> te_storage env"
    and "sid \<noteq> []" "utf16 sid" "utf16 nonce" "utf16 (te_source env)"
    and "0 < te_now env" "te_now env \<le> 2 ^ 52" "0 \<le> te_now env'" "te_now env' \<le> 2 ^ 52"
  shows "subscribeAuthSessionEvents env' (publishAuthSessionEvent env nonce kind sid) =
    (if te_source env' \<noteq> te_source env \<and> \<bar>te_now env' - te_now env\<bar> < 60000
     then [\<lparr>se_kind = kind, se_sid = sid, se_source = te_source env, se_nonce = nonce,
       se_timestamp = Fin (of_int (te_now env))\<rparr>] else [])"
proof -
  let ?e = "\<lparr>se_kind = kind, se_sid = sid, se_source = te_source env, se_nonce = nonce, se_timestamp = Fin (of_int (te_now env))\<rparr>"
  have deliver: "deliver env' (event_object ?e) =
      (if te_source env' \<noteq> te_source env \<and> \<bar>te_now env' - te_now env\<bar> < 60000 then Some ?e else None)"
    using deliver_event [of ?e "te_now env" env'] assms by auto
  have "is_double (Fin (of_int (te_now env)))" using assms(9,10) by (intro is_double_int) simp
  then have "JSON_parse (JSON_text (event_object ?e)) = Some (event_object ?e)"
    using assms by (intro event_object_read) (simp_all del: is_double.simps)
  moreover have "JSON_text (event_object ?e) \<noteq> []" by (simp add: event_object_def)
  ultimately have storage: "handleStorage env' AUTH_SYNC_STORAGE_KEY (Some (JSON_text (event_object ?e))) = deliver env' (event_object ?e)"
    by (simp add: handleStorage_def)
  show ?thesis
  proof (cases "te_channel env")
    case True
    then show ?thesis using assms deliver
      by (simp add: publishAuthSessionEvent_def subscribeAuthSessionEvents_def List.map_filter_def)
  next
    case False
    then have "publishAuthSessionEvent env nonce kind sid =
        [Storage_Event AUTH_SYNC_STORAGE_KEY (Some (JSON_text (event_object ?e))), Storage_Event AUTH_SYNC_STORAGE_KEY None]"
      using assms by (simp add: publishAuthSessionEvent_def)
    then show ?thesis using assms False deliver storage
      by (simp add: subscribeAuthSessionEvents_def List.map_filter_def) (simp add: handleStorage_def)
  qed
qed

theorem published_event_reaches_other_tabs_witness:
  "subscribeAuthSessionEvents \<lparr>te_window = True, te_channel = False, te_storage = True, te_source = lit ''b'', te_now = 1060\<rparr>
     (publishAuthSessionEvent \<lparr>te_window = True, te_channel = False, te_storage = True, te_source = lit ''a'', te_now = 1000\<rparr>
       (lit ''n'') Sync_Signed_Out (lit ''s'')) =
   [\<lparr>se_kind = Sync_Signed_Out, se_sid = lit ''s'', se_source = lit ''a'', se_nonce = lit ''n'', se_timestamp = Fin 1000\<rparr>]"
  using published_event_reaches_other_tabs
    [of "\<lparr>te_window = True, te_channel = False, te_storage = True, te_source = lit ''a'', te_now = 1000\<rparr>"
      "\<lparr>te_window = True, te_channel = False, te_storage = True, te_source = lit ''b'', te_now = 1060\<rparr>"
      "lit ''s''" "lit ''n''" Sync_Signed_Out]
  by (simp add: lit_utf16)

end
