(* ===== verification/Model_Mapping.thy ===== *)
theory Model_Mapping
  imports JS_JSON
begin

text \<open>
  The model list and model mapping of a channel
  (\<open>features/channels/lib/model-mapping-validation.ts\<close>). A mapping is the text of a
  JSON object from requested to upstream model names.
\<close>

subsection \<open>Definitions\<close>

definition parseModelsString :: "jstring \<Rightarrow> jstring list" where
  "parseModelsString modelsStr =
     (if modelsStr = [] then [] else filter (\<lambda>m. m \<noteq> []) (map trim (split_on 44 modelsStr)))"

definition formatModelsArray :: "jstring list \<Rightarrow> jstring" where
  "formatModelsArray models = join [44] (unique models)"

definition normalizeModelName :: "jstring \<Rightarrow> jstring" where
  "normalizeModelName model = trim model"

text \<open>\<open>JSON.parse\<close> followed by the test for an object that is not an array; a syntax error is caught.\<close>

definition mapping_object :: "jstring \<Rightarrow> (jstring \<times> json) list option" where
  "mapping_object s = (case JSON_parse s of Some (JObj entries) \<Rightarrow> Some entries | _ \<Rightarrow> None)"

definition extractMappingSourceModels :: "jstring \<Rightarrow> jstring list" where
  "extractMappingSourceModels modelMapping =
     (let trimmed = trim modelMapping
      in if trimmed = [] then []
         else
           case mapping_object trimmed of
             None \<Rightarrow> []
           | Some parsed \<Rightarrow> unique (filter (\<lambda>k. k \<noteq> []) (map (\<lambda>e. trim (fst e)) parsed)))"

fun redirect_target :: "json \<Rightarrow> jstring option" where
  "redirect_target (JStr s) = (if trim s = [] then None else Some (trim s))"
| "redirect_target _ = None"

definition extractRedirectModels :: "jstring \<Rightarrow> jstring list" where
  "extractRedirectModels modelMapping =
     (let trimmed = trim modelMapping
      in if trimmed = [] then []
         else
           case mapping_object trimmed of
             None \<Rightarrow> []
           | Some parsed \<Rightarrow> unique (List.map_filter (\<lambda>e. redirect_target (snd e)) parsed))"

fun models_differ :: "jstring list \<Rightarrow> jstring list \<Rightarrow> bool" where
  "models_differ (c # cs) (i # is) \<longleftrightarrow> c \<noteq> i \<or> models_differ cs is"
| "models_differ _ _ \<longleftrightarrow> False"

definition hasModelConfigChanged :: "jstring list \<Rightarrow> jstring \<Rightarrow> jstring list \<Rightarrow> jstring \<Rightarrow> bool" where
  "hasModelConfigChanged currentModels currentModelMapping initialModels initialModelMapping =
     (if initialModels = [] \<and> initialModelMapping = [] then True
      else if length currentModels \<noteq> length initialModels then True
      else if models_differ currentModels initialModels then True
      else trim currentModelMapping \<noteq> trim initialModelMapping)"

definition findMissingModelsInMapping :: "jstring \<Rightarrow> jstring list \<Rightarrow> jstring list" where
  "findMissingModelsInMapping modelMapping currentModels =
     (if modelMapping = [] \<or> trim modelMapping = [] then []
      else
        case mapping_object modelMapping of
          None \<Rightarrow> []
        | Some parsedMapping \<Rightarrow>
          let modelSet = set (map normalizeModelName currentModels)
          in unique (filter (\<lambda>k. k \<noteq> [] \<and> k \<notin> modelSet) (map (\<lambda>e. normalizeModelName (fst e)) parsedMapping)))"

datatype mapping_verdict = Mapping_Valid | Mapping_Invalid jstring

fun is_string :: "json \<Rightarrow> bool" where
  "is_string (JStr s) \<longleftrightarrow> True"
| "is_string _ \<longleftrightarrow> False"

definition validateModelMappingJson :: "jstring \<Rightarrow> mapping_verdict" where
  "validateModelMappingJson modelMapping =
     (if modelMapping = [] \<or> trim modelMapping = [] then Mapping_Valid
      else
        case JSON_parse modelMapping of
          None \<Rightarrow> Mapping_Invalid (lit ''Model mapping must be valid JSON format'')
        | Some parsed \<Rightarrow>
          (case parsed of
             JObj entries \<Rightarrow>
               if \<exists>e \<in> set entries. \<not> is_string (snd e)
               then Mapping_Invalid (lit ''Model mapping values must be strings'')
               else Mapping_Valid
           | _ \<Rightarrow> Mapping_Invalid (lit ''Model mapping must be a valid JSON object'')))"

definition findExposedTargetModels :: "jstring \<Rightarrow> jstring list \<Rightarrow> jstring list" where
  "findExposedTargetModels modelMapping currentModels =
     (let redirectModels = extractRedirectModels modelMapping
      in if redirectModels = [] then []
         else filter (\<lambda>m. normalizeModelName m \<in> set (map normalizeModelName currentModels)) redirectModels)"

record model_classes =
  mc_normalizedCurrentModels :: "jstring list"
  mc_normalizedRedirectModels :: "jstring list"
  mc_classificationSet :: "jstring list"
  mc_redirectOnlySet :: "jstring list"

definition categorizeModelsWithRedirect :: "jstring list \<Rightarrow> jstring list \<Rightarrow> model_classes" where
  "categorizeModelsWithRedirect currentModels redirectModels =
     (let cur = unique (filter (\<lambda>m. m \<noteq> []) (map normalizeModelName currentModels));
          red = unique (filter (\<lambda>m. m \<noteq> []) (map normalizeModelName redirectModels))
      in \<lparr>mc_normalizedCurrentModels = cur, mc_normalizedRedirectModels = red,
          mc_classificationSet = unique (cur @ red),
          mc_redirectOnlySet = unique (filter (\<lambda>m. m \<notin> set cur) red)\<rparr>)"

subsection \<open>Helper lemmas\<close>

definition model_name :: "jstring \<Rightarrow> bool" where
  "model_name m \<longleftrightarrow> m \<noteq> [] \<and> trim m = m \<and> 44 \<notin> set m"

lemma set_trim: "set (trim s) \<subseteq> set s"
proof -
  have "set (dropWhile P xs) \<subseteq> set xs" for P and xs :: jstring by (rule subsetI) (erule set_dropWhileD)
  from this [of is_space "rev (dropWhile is_space s)"] this [of is_space s] show ?thesis by (simp add: trim_def)
qed

lemma parsed_names: "m \<in> set (parseModelsString s) \<Longrightarrow> model_name m"
  using set_trim by (auto simp: parseModelsString_def model_name_def dest: split_on_parts split: if_splits)

lemma parse_join_names:
  assumes "\<forall>m \<in> set ms. model_name m"
  shows "parseModelsString (join [44] ms) = ms"
proof (cases "ms = []")
  case False
  have "join [44] ms \<noteq> []" using False assms by (cases "([44::int], ms)" rule: join.cases) (auto simp: model_name_def)
  moreover have "split_on 44 (join [44] ms) = ms" using assms False by (intro split_on_join) (auto simp: model_name_def)
  moreover have "map trim ms = ms" using assms by (intro map_idI) (auto simp: model_name_def)
  moreover have "filter (\<lambda>m. m \<noteq> []) ms = ms" using assms by (intro filter_True) (auto simp: model_name_def)
  ultimately show ?thesis by (simp add: parseModelsString_def)
qed (simp add: parseModelsString_def)

lemma redirect_models_trimmed: "m \<in> set (extractRedirectModels s) \<Longrightarrow> trim m = m \<and> m \<noteq> []"
proof -
  have "redirect_target v = Some x \<Longrightarrow> trim x = x \<and> x \<noteq> []" for v x
    by (cases v rule: redirect_target.cases) (auto split: if_splits)
  then show "m \<in> set (extractRedirectModels s) \<Longrightarrow> trim m = m \<and> m \<noteq> []"
    by (auto simp: extractRedirectModels_def Let_def List.map_filter_def split: if_splits option.splits)
qed

lemma models_differ_iff: "length cs = length is \<Longrightarrow> models_differ cs is \<longleftrightarrow> cs \<noteq> is"
  by (induction cs "is" rule: list_induct2) auto

text \<open>
  A configuration counts as unchanged exactly when the models and the trimmed
  mapping are the initial ones and there was an initial configuration.
\<close>

lemma config_unchanged_iff:
  "\<not> hasModelConfigChanged models mapping models' mapping' \<longleftrightarrow>
     models = models' \<and> trim mapping = trim mapping' \<and> (models' \<noteq> [] \<or> mapping' \<noteq> [])"
  by (auto simp: hasModelConfigChanged_def models_differ_iff)

text \<open>
  The classification of the models is the disjoint union of the current models
  and of the models that are only redirect targets.
\<close>

lemma classification_partition:
  "let c = categorizeModelsWithRedirect models redirects in
     set (mc_classificationSet c) = set (mc_normalizedCurrentModels c) \<union> set (mc_redirectOnlySet c) \<and>
     set (mc_normalizedCurrentModels c) \<inter> set (mc_redirectOnlySet c) = {} \<and>
     set (mc_redirectOnlySet c) \<subseteq> set (mc_normalizedRedirectModels c) \<and>
     [] \<notin> set (mc_classificationSet c) \<and> distinct (mc_classificationSet c)"
  by (auto simp: categorizeModelsWithRedirect_def Let_def)

subsection \<open>Properties\<close>

text \<open>
  C36: the missing models of a mapping are, without repetition, exactly the non-empty
  source names that no listed model has, and adding them to the list leaves none
  missing.
\<close>

theorem missing_models_are_exact:
  assumes "mapping_object modelMapping = Some entries" "trim modelMapping \<noteq> []"
  shows "distinct (findMissingModelsInMapping modelMapping models) \<and>
    set (findMissingModelsInMapping modelMapping models) = {trim k | k v. (k, v) \<in> set entries \<and> trim k \<noteq> []} - trim ` set models \<and>
    findMissingModelsInMapping modelMapping (models @ findMissingModelsInMapping modelMapping models) = []"
proof -
  have found: "findMissingModelsInMapping modelMapping ms =
      unique (filter (\<lambda>k. k \<noteq> [] \<and> k \<notin> trim ` set ms) (map (\<lambda>e. trim (fst e)) entries))" for ms
    using assms by (auto simp: findMissingModelsInMapping_def normalizeModelName_def Let_def)
  have sets: "set (findMissingModelsInMapping modelMapping ms) =
      {trim k | k v. (k, v) \<in> set entries \<and> trim k \<noteq> []} - trim ` set ms" for ms
    unfolding found by force
  let ?f = "findMissingModelsInMapping modelMapping models"
  have "trim x = x" if "x \<in> set ?f" for x using that unfolding sets by auto
  then have "trim ` set ?f = set ?f" by simp
  then have "set (findMissingModelsInMapping modelMapping (models @ ?f)) = {}"
    unfolding sets [of "models @ ?f"] by (simp add: image_Un) (auto simp: sets [of models])
  then have "findMissingModelsInMapping modelMapping (models @ ?f) = []" unfolding set_empty .
  moreover have "distinct ?f" unfolding found by simp
  ultimately show ?thesis using sets [of models] by blast
qed

theorem missing_models_are_exact_witness:
  "findMissingModelsInMapping (lit ''{\"a\":\"b\",\" c \":\"d\"}'') ([lit ''a''] @ [lit ''c'']) = []"
proof -
  let ?m = "lit ''{\"a\":\"b\",\" c \":\"d\"}''"
  have "mapping_object ?m = Some [(lit ''a'', JStr (lit ''b'')), (lit '' c '', JStr (lit ''d''))]" "trim ?m \<noteq> []"
    "findMissingModelsInMapping ?m [lit ''a''] = [lit ''c'']" by code_simp+
  then show ?thesis using missing_models_are_exact [of ?m _ "[lit ''a'']"] by simp
qed

text \<open>
  C37: the exposed targets of a mapping are exactly the redirect targets that a listed
  model names, and a list from which they are removed exposes none.
\<close>

theorem exposed_targets_are_exact:
  "set (findExposedTargetModels modelMapping models) = set (extractRedirectModels modelMapping) \<inter> trim ` set models \<and>
   distinct (findExposedTargetModels modelMapping models) \<and>
   findExposedTargetModels modelMapping
     (filter (\<lambda>m. trim m \<notin> set (findExposedTargetModels modelMapping models)) models) = []"
proof -
  have redirect: "distinct (extractRedirectModels modelMapping)"
    by (simp add: extractRedirectModels_def Let_def split: option.split)
  have sets: "set (findExposedTargetModels modelMapping ms) = set (extractRedirectModels modelMapping) \<inter> trim ` set ms" for ms
  proof -
    have "normalizeModelName m = m" if "m \<in> set (extractRedirectModels modelMapping)" for m
      using redirect_models_trimmed [OF that] by (simp add: normalizeModelName_def)
    then show ?thesis by (auto simp: findExposedTargetModels_def normalizeModelName_def Let_def)
  qed
  have "set (findExposedTargetModels modelMapping
     (filter (\<lambda>m. trim m \<notin> set (findExposedTargetModels modelMapping models)) models)) = {}"
    unfolding sets [of "filter _ _"] by (auto simp: sets)
  then have "findExposedTargetModels modelMapping
     (filter (\<lambda>m. trim m \<notin> set (findExposedTargetModels modelMapping models)) models) = []" unfolding set_empty .
  moreover have "distinct (findExposedTargetModels modelMapping models)"
    using redirect by (simp add: findExposedTargetModels_def Let_def)
  ultimately show ?thesis using sets [of models] by blast
qed

text \<open>
  C38: formatting a model list and parsing it again gives the list without
  repetitions, so that what the form stores is stable.
\<close>

theorem model_list_round_trip:
  "parseModelsString (formatModelsArray (parseModelsString s)) = unique (parseModelsString s) \<and>
   formatModelsArray (parseModelsString (formatModelsArray (parseModelsString s))) = formatModelsArray (parseModelsString s)"
proof -
  have "parseModelsString (formatModelsArray (parseModelsString s)) = unique (parseModelsString s)"
    unfolding formatModelsArray_def using parsed_names by (intro parse_join_names) auto
  then show ?thesis by (simp add: formatModelsArray_def)
qed

end
