(* ===== verification/Condition_Display.thy ===== *)
theory Condition_Display
  imports Billing_Visual JS_JSON
begin

text \<open>
  The readable text of a pricing condition
  (\<open>billing-expression/condition-display.ts\<close>). Comparisons of one clock field in one
  time zone are merged to a range. The translation function and the locale's
  formatting of weekdays and numbers are parameters. The lemmas show that a range
  describes exactly the times its comparisons select, and that the zone that is shown
  is the zone of every comparison.
\<close>

subsection \<open>Definitions\<close>

datatype description_kind = Calendar | Clock | Combined

record description =
  ds_text :: jstring
  ds_kind :: description_kind
  ds_timezone :: jstring
  ds_disjunction :: bool

record time_comparison =
  cmp_name :: jstring
  cmp_timezone :: jstring
  cmp_operator :: jstring
  cmp_value :: number

text \<open>
  The translation of a key with its options; the short name of the weekday \<open>k\<close> days
  after Sunday 4 January 2026; a number in the locale.
\<close>

record display_env =
  de_t :: "jstring \<Rightarrow> (jstring \<times> json) list \<Rightarrow> jstring"
  de_weekday :: "int \<Rightarrow> jstring"
  de_number :: "number \<Rightarrow> jstring"

definition DOMAINS :: "(jstring \<times> int \<times> int) list" where
  "DOMAINS = [(lit ''hour'', 0, 24), (lit ''minute'', 0, 60), (lit ''weekday'', 0, 7), (lit ''month'', 1, 13), (lit ''day'', 1, 32)]"

definition timeComparison :: "node \<Rightarrow> time_comparison option" where
  "timeComparison n =
     (case n of
        Binary p (Call f (Literal (LString z) _ _ _ # _) _ _) (Literal (LNumber v) _ _ _) _ _ \<Rightarrow>
          if p \<in> set (map lit [''=='', ''>='', ''>'', ''<='', ''<'']) \<and> f \<in> set TIME_FUNCTIONS \<and> isInteger v
          then Some \<lparr>cmp_name = f, cmp_timezone = (if trim z = [] then lit ''UTC'' else trim z),
            cmp_operator = p, cmp_value = v\<rparr>
          else None
      | _ \<Rightarrow> None)"

text \<open>
  One comparison narrows the range. The value is an integer; where adding one to it
  would round, it lies outside every domain and the narrowed range is the same.
\<close>

definition narrow :: "int \<times> int \<Rightarrow> time_comparison \<Rightarrow> int \<times> int" where
  "narrow bounds c =
     (let (lo, hi) = bounds; v = \<lfloor>num_val (cmp_value c)\<rfloor>; p = cmp_operator c
      in if p = lit ''>='' then (max lo v, hi)
         else if p = lit ''>'' then (max lo (v + 1), hi)
         else if p = lit ''<'' then (lo, min hi v)
         else if p = lit ''<='' then (lo, min hi (v + 1))
         else if p = lit ''=='' then (max lo v, min hi (v + 1))
         else (lo, hi))"

definition time_bounds :: "time_comparison list \<Rightarrow> (int \<times> int) option" where
  "time_bounds comparisons =
     (case map_of DOMAINS (cmp_name (hd comparisons)) of
        None \<Rightarrow> None
      | Some domain \<Rightarrow>
        let (lo, hi) = foldl narrow domain comparisons
        in if hi \<le> lo then None else Some (lo, hi))"

definition range_key :: jstring where
  "range_key = lit ''{{start}}'' @ [0x2013] @ lit ''{{end}}''"

definition pad2 :: "int \<Rightarrow> jstring" where
  "pad2 n = replicate (2 - length (int_digits n)) 48 @ int_digits n"

definition describeTimeRange :: "display_env \<Rightarrow> time_comparison list \<Rightarrow> description option" where
  "describeTimeRange env comparisons =
     (case time_bounds comparisons of
        None \<Rightarrow> None
      | Some (lo, hi) \<Rightarrow>
        let c = hd comparisons; name = cmp_name c in
        Some (if name = lit ''hour'' then
            \<lparr>ds_text = de_t env range_key [(lit ''start'', JStr (pad2 lo @ lit '':00'')), (lit ''end'', JStr (pad2 hi @ lit '':00''))],
             ds_kind = Clock, ds_timezone = cmp_timezone c, ds_disjunction = False\<rparr>
          else if name = lit ''weekday'' then
            \<lparr>ds_text = (if lo = hi - 1 then de_weekday env lo
                else de_t env range_key [(lit ''start'', JStr (de_weekday env lo)), (lit ''end'', JStr (de_weekday env (hi - 1)))]),
             ds_kind = Calendar, ds_timezone = cmp_timezone c, ds_disjunction = False\<rparr>
          else
            \<lparr>ds_text = de_t env (if name = lit ''minute'' then lit ''Minute'' else if name = lit ''month'' then lit ''Month'' else lit ''Day'') []
                @ lit '': '' @
                (if lo = hi - 1 then int_digits lo
                 else de_t env range_key [(lit ''start'', JNum (Fin (of_int lo))), (lit ''end'', JNum (Fin (of_int (hi - 1))))]),
             ds_kind = Calendar, ds_timezone = cmp_timezone c, ds_disjunction = False\<rparr>))"

text \<open>The comparisons of a conjunction by field and zone, in the order of their first occurrence.\<close>

definition range_of :: "time_comparison \<Rightarrow> jstring" where
  "range_of c = cmp_name c @ lit '':'' @ cmp_timezone c"

definition add_range :: "(jstring \<times> time_comparison list) list \<Rightarrow> time_comparison \<Rightarrow> (jstring \<times> time_comparison list) list" where
  "add_range ranges c =
     assoc_set (range_of c) ((case map_of ranges (range_of c) of Some rs \<Rightarrow> rs | None \<Rightarrow> []) @ [c]) ranges"

definition bracketed :: "jstring \<Rightarrow> description \<Rightarrow> jstring" where
  "bracketed p part = (if p = lit ''&&'' \<and> ds_disjunction part then lit ''('' @ ds_text part @ lit '')'' else ds_text part)"

definition combine_parts :: "display_env \<Rightarrow> jstring \<Rightarrow> description list \<Rightarrow> description option" where
  "combine_parts env p parts =
     (let zones = unique (filter (\<lambda>z. z \<noteq> []) (map ds_timezone parts))
      in if parts = [] \<or> 1 < length zones then None
         else
           let timezone = (case zones of z # _ \<Rightarrow> z | [] \<Rightarrow> []);
               calendars = filter (\<lambda>part. ds_kind part = Calendar) parts;
               clocks = filter (\<lambda>part. ds_kind part = Clock) parts
           in if length parts = 1 then Some (hd parts)
              else if p = lit ''&&'' \<and> length parts = 2 \<and> length calendars = 1 \<and> length clocks = 1 then
                Some \<lparr>ds_text = ds_text (hd calendars) @ lit '' '' @ ds_text (hd clocks), ds_kind = Combined,
                  ds_timezone = ds_timezone (hd parts), ds_disjunction = False\<rparr>
              else
                Some \<lparr>ds_text = foldl (\<lambda>text part. de_t env
                      (if p = lit ''&&'' then lit ''{{first}} and {{second}}'' else lit ''{{first}} or {{second}}'')
                      [(lit ''first'', JStr text), (lit ''second'', JStr (bracketed p part))]) (bracketed p (hd parts)) (tl parts),
                  ds_kind = (if length clocks = length parts then Clock else Combined),
                  ds_timezone = timezone, ds_disjunction = (p = lit ''||'')\<rparr>)"

text \<open>A comparison of a token count with a number.\<close>

definition describe_variable :: "display_env \<Rightarrow> jstring \<Rightarrow> jstring \<Rightarrow> number \<Rightarrow> description option" where
  "describe_variable env p x v =
     map_option (\<lambda>label. \<lparr>ds_text = de_t env label [] @ lit '' '' @ p @ lit '' '' @ de_number env v,
       ds_kind = Combined, ds_timezone = [], ds_disjunction = False\<rparr>)
       (map_of [(lit ''p'', lit ''Input''), (lit ''c'', lit ''Output''), (lit ''len'', lit ''Full input length'')] x)"

fun token_comparison :: "node \<Rightarrow> (jstring \<times> jstring \<times> number) option" where
  "token_comparison (Binary p (Variable x _ _) (Literal (LNumber v) _ _ _) _ _) =
     (if p \<in> set (map lit [''<'', ''<='', ''>'', ''>='', ''=='', ''!='']) then Some (p, x, v) else None)"
| "token_comparison _ = None"

function describeBillingCondition :: "display_env \<Rightarrow> node \<Rightarrow> description option" where
  "describeBillingCondition env n =
     (case n of
        Unary p operand _ _ \<Rightarrow>
          if p = lit ''!'' then
            map_option (\<lambda>d. d\<lparr>ds_text := de_t env (lit ''Outside these times: {{condition}}'') [(lit ''condition'', JStr (ds_text d))],
              ds_kind := Combined\<rparr>) (describeBillingCondition env operand)
          else None
      | Binary p l r _ _ \<Rightarrow>
          (case token_comparison n of
             Some (q, x, v) \<Rightarrow> describe_variable env q x v
           | None \<Rightarrow>
             (case timeComparison n of
                Some c \<Rightarrow> describeTimeRange env [c]
              | None \<Rightarrow>
                if p = lit ''&&'' then
                  (case (those (map (describeBillingCondition env) (filter (\<lambda>m. timeComparison m = None) (flattenBinary l p @ flattenBinary r p))),
                         those (map (\<lambda>e. describeTimeRange env (snd e))
                           (foldl add_range [] (List.map_filter timeComparison (flattenBinary l p @ flattenBinary r p))))) of
                     (Some others, Some ranges) \<Rightarrow> combine_parts env p (others @ ranges)
                   | _ \<Rightarrow> None)
                else if p = lit ''||'' then
                  Option.bind (those (map (describeBillingCondition env) (flattenBinary l p @ flattenBinary r p))) (combine_parts env p)
                else None))
      | _ \<Rightarrow> None)"
  by pat_completeness auto
termination describeBillingCondition
proof (relation "measure (\<lambda>(env, n). size n)", goal_cases)
  case (3 env n p l r a b m)
  then show ?case using size_flattenBinary [of m l p] size_flattenBinary [of m r p] by auto
next
  case (4 env n p l r a b m)
  then show ?case using size_flattenBinary [of m l p] size_flattenBinary [of m r p] by auto
qed auto

declare describeBillingCondition.simps [simp del]

definition formatBillingCondition :: "display_env \<Rightarrow> jstring \<Rightarrow> jstring option" where
  "formatBillingCondition env source =
     (case compile_result source of
        Ready compiled \<Rightarrow>
          let env' = env\<lparr>de_t := (\<lambda>key options. de_t env key (options @ [(lit ''interpolation'', JObj [(lit ''escapeValue'', JBool False)])]))\<rparr>
          in map_option (\<lambda>d. if ds_timezone d = [] then ds_text d
               else de_t env' (lit ''{{condition}} ({{timezone}})'')
                 [(lit ''condition'', JStr (ds_text d)), (lit ''timezone'', JStr (ds_timezone d))])
               (describeBillingCondition env' (ce_ast compiled))
      | _ \<Rightarrow> None)"

subsection \<open>Ranges\<close>

text \<open>The comparison as the runtime evaluates it, for an integer field.\<close>

definition comparison_holds :: "time_comparison \<Rightarrow> int \<Rightarrow> bool" where
  "comparison_holds c v =
     (let a = Fin (of_int v); b = cmp_value c; p = cmp_operator c
      in if p = lit ''>='' then num_le b a else if p = lit ''>'' then num_lt b a
         else if p = lit ''<'' then num_lt a b else if p = lit ''<='' then num_le a b
         else if p = lit ''=='' then num_eq a b else True)"

lemma integer_comparisons:
  assumes "isInteger b"
  shows "num_lt b (Fin (of_int v)) \<longleftrightarrow> \<lfloor>num_val b\<rfloor> < v" "num_lt (Fin (of_int v)) b \<longleftrightarrow> v < \<lfloor>num_val b\<rfloor>"
    "num_eq b (Fin (of_int v)) \<longleftrightarrow> \<lfloor>num_val b\<rfloor> = v" "num_eq (Fin (of_int v)) b \<longleftrightarrow> \<lfloor>num_val b\<rfloor> = v"
proof -
  obtain k where k: "num_val b = of_int k" "b \<noteq> NaN" "b \<noteq> PInf" "b \<noteq> NInf"
    using assms by (auto simp: isInteger_def isFinite_def intro: that [of "\<lfloor>num_val b\<rfloor>"])
  then show "num_lt b (Fin (of_int v)) \<longleftrightarrow> \<lfloor>num_val b\<rfloor> < v" "num_lt (Fin (of_int v)) b \<longleftrightarrow> v < \<lfloor>num_val b\<rfloor>"
    "num_eq b (Fin (of_int v)) \<longleftrightarrow> \<lfloor>num_val b\<rfloor> = v" "num_eq (Fin (of_int v)) b \<longleftrightarrow> \<lfloor>num_val b\<rfloor> = v"
    by (auto simp: num_lt_def num_eq_def isFinite_def)
qed

lemma narrow_exact:
  assumes "isInteger (cmp_value c)" "narrow (lo, hi) c = (lo', hi')"
  shows "lo' \<le> v \<and> v < hi' \<longleftrightarrow> lo \<le> v \<and> v < hi \<and> comparison_holds c v" "lo \<le> lo'" "hi' \<le> hi"
  using assms(2) integer_comparisons [OF assms(1), of v]
  by (auto simp: narrow_def comparison_holds_def Let_def num_le_def split: if_splits)

lemma narrow_all_exact:
  assumes "\<forall>c \<in> set cs. isInteger (cmp_value c)" "foldl narrow (lo, hi) cs = (lo', hi')"
  shows "(\<forall>v. lo' \<le> v \<and> v < hi' \<longleftrightarrow> lo \<le> v \<and> v < hi \<and> (\<forall>c \<in> set cs. comparison_holds c v)) \<and> lo \<le> lo' \<and> hi' \<le> hi"
  using assms
proof (induction cs arbitrary: lo hi)
  case (Cons c cs)
  obtain lo1 hi1 where r: "narrow (lo, hi) c = (lo1, hi1)" by (cases "narrow (lo, hi) c")
  have c: "isInteger (cmp_value c)" using Cons.prems(1) by simp
  have "(\<forall>v. lo' \<le> v \<and> v < hi' \<longleftrightarrow> lo1 \<le> v \<and> v < hi1 \<and> (\<forall>c \<in> set cs. comparison_holds c v)) \<and> lo1 \<le> lo' \<and> hi' \<le> hi1"
    using Cons.IH [of lo1 hi1] Cons.prems r by simp
  then show ?case using narrow_exact [OF c r] by auto
qed simp

subsection \<open>Time zones\<close>

fun condition_zones :: "node \<Rightarrow> jstring list" where
  "condition_zones (Unary p operand a b) = condition_zones operand"
| "condition_zones (Binary p l r a b) =
     (case timeComparison (Binary p l r a b) of Some c \<Rightarrow> [cmp_timezone c] | None \<Rightarrow> condition_zones l @ condition_zones r)"
| "condition_zones _ = []"

lemma timeComparison_op: "timeComparison (Binary p l r a b) = Some c \<Longrightarrow> p \<noteq> lit ''&&'' \<and> p \<noteq> lit ''||'' \<and> cmp_timezone c \<noteq> []"
  by (auto simp: timeComparison_def split: node.splits literal_value.splits list.splits if_splits)

lemma zones_flatten:
  "p = lit ''&&'' \<or> p = lit ''||'' \<Longrightarrow> set (condition_zones n) = (\<Union>m \<in> set (flattenBinary n p). set (condition_zones m))"
proof (induction n p rule: flattenBinary.induct)
  case (1 q l r a b p)
  have "timeComparison (Binary p l r a b) = None" using timeComparison_op [of p l r a b] 1(3) by (cases "timeComparison (Binary p l r a b)") auto
  then show ?case using 1 by auto
qed auto

text \<open>A description shows every zone of its condition; clocks and calendars have one.\<close>

definition zone_ok :: "jstring set \<Rightarrow> description \<Rightarrow> bool" where
  "zone_ok zones d \<longleftrightarrow> zones \<subseteq> {ds_timezone d} \<and> [] \<notin> zones \<and> (ds_kind d \<noteq> Combined \<longrightarrow> ds_timezone d \<noteq> [])"

lemma describeTimeRange_zone:
  assumes "describeTimeRange env cs = Some d" "\<forall>c \<in> set cs. cmp_timezone c = z" "cs \<noteq> []"
  shows "ds_timezone d = z \<and> ds_kind d \<noteq> Combined"
  using assms by (cases cs) (auto simp: describeTimeRange_def Let_def split: option.splits if_splits)

lemma unique_zones:
  assumes "\<not> 1 < length (unique zs)" "z \<in> set zs"
  shows "unique zs = [z]"
proof -
  have "z \<in> set (unique zs)" using assms(2) by simp
  then show ?thesis using assms(1) by (cases "unique zs") (auto simp del: set_unique)
qed

lemma list_all2_right: "list_all2 P xs ys \<Longrightarrow> y \<in> set ys \<Longrightarrow> \<exists>x \<in> set xs. P x y"
  by (induction rule: list_all2_induct) auto

lemma list_all2_left: "list_all2 P xs ys \<Longrightarrow> x \<in> set xs \<Longrightarrow> \<exists>y \<in> set ys. P x y"
  by (induction rule: list_all2_induct) auto

lemma list_all2_mono_in: "list_all2 P xs ys \<Longrightarrow> (\<And>x y. x \<in> set xs \<Longrightarrow> P x y \<Longrightarrow> Q x y) \<Longrightarrow> list_all2 Q xs ys"
  by (induction rule: list_all2_induct) auto

lemma filter_all: "length (filter P xs) = length xs \<longleftrightarrow> (\<forall>x \<in> set xs. P x)"
proof (induction xs)
  case (Cons x xs)
  have "length (filter P xs) \<noteq> Suc (length xs)" using length_filter_le [of P xs] by linarith
  then show ?case using Cons by auto
qed simp

lemma combine_zone:
  assumes "combine_parts env p parts = Some d" "list_all2 zone_ok zss parts"
  shows "zone_ok (\<Union> (set zss)) d"
proof -
  let ?zs = "filter (\<lambda>z. z \<noteq> []) (map ds_timezone parts)"
  define timezone where "timezone = (case unique ?zs of z # _ \<Rightarrow> z | [] \<Rightarrow> [])"
  have one: "parts \<noteq> []" "\<not> 1 < length (unique ?zs)" using assms(1) by (auto simp: combine_parts_def Let_def split: if_splits)
  have same: "ds_timezone part = [] \<or> ds_timezone part = timezone" if "part \<in> set parts" for part
  proof (cases "ds_timezone part = []")
    case False
    then have "unique ?zs = [ds_timezone part]" using unique_zones [OF one(2)] that by auto
    then show ?thesis by (simp add: timezone_def)
  qed simp
  have parts: "\<exists>zs \<in> set zss. zone_ok zs part" if "part \<in> set parts" for part
    using assms(2) that by (rule list_all2_right)
  have zss: "zs \<subseteq> {timezone} \<and> [] \<notin> zs" if "zs \<in> set zss" for zs
  proof -
    obtain part where "part \<in> set parts" "zone_ok zs part"
      using list_all2_left [OF assms(2), of zs] \<open>zs \<in> set zss\<close> by blast
    then show ?thesis using same [of part] by (auto simp: zone_ok_def)
  qed
  have timed: "ds_timezone part = timezone" "timezone \<noteq> []" if "part \<in> set parts" "ds_kind part \<noteq> Combined" for part
    using parts [OF that(1)] same [OF that(1)] that(2) by (auto simp: zone_ok_def)
  have union: "\<Union> (set zss) \<subseteq> {timezone}" "[] \<notin> \<Union> (set zss)" using zss by auto
  consider "parts = [d]"
    | a b where "parts = [a, b]" "ds_kind a \<noteq> Combined" "ds_timezone d = ds_timezone a" "ds_kind d = Combined"
    | "ds_timezone d = timezone" "ds_kind d \<noteq> Combined \<longrightarrow> (\<forall>part \<in> set parts. ds_kind part = Clock)"
  proof (cases "length parts = 1")
    case True
    then show ?thesis using that(1) assms(1) one by (cases parts) (auto simp: combine_parts_def Let_def)
  next
    case False
    let ?pair = "p = lit ''&&'' \<and> length parts = 2 \<and> length (filter (\<lambda>part. ds_kind part = Calendar) parts) = 1 \<and>
      length (filter (\<lambda>part. ds_kind part = Clock) parts) = 1"
    show ?thesis
    proof (cases ?pair)
      case True
      then obtain a b where ab: "parts = [a, b]" by (auto simp: length_Suc_conv numeral_2_eq_2)
      have "ds_kind a \<noteq> Combined" using True unfolding ab by (auto split: if_splits)
      moreover have "ds_timezone d = ds_timezone a \<and> ds_kind d = Combined"
        using assms(1) one True unfolding combine_parts_def Let_def ab by auto
      ultimately show ?thesis using that(2) [OF ab] by blast
    next
      case False
      have "length (filter (\<lambda>part. ds_kind part = Clock) parts) = length parts \<longleftrightarrow> (\<forall>part \<in> set parts. ds_kind part = Clock)"
        by (rule filter_all)
      then show ?thesis using that(3) assms(1) one False \<open>length parts \<noteq> 1\<close>
        by (auto simp: combine_parts_def Let_def timezone_def split: if_splits)
    qed
  qed
  then show ?thesis
  proof cases
    case 1
    then show ?thesis using assms(2) by (auto simp: list_all2_Cons2)
  next
    case (2 a b)
    then show ?thesis using timed [of a] union by (auto simp: zone_ok_def)
  next
    case 3
    have "hd parts \<in> set parts" using one(1) by simp
    then have "ds_kind d \<noteq> Combined \<Longrightarrow> timezone \<noteq> []" using timed(2) [of "hd parts"] 3(2) by auto
    then show ?thesis using 3 union by (auto simp: zone_ok_def)
  qed
qed

text \<open>The groups of comparisons.\<close>

definition groups_ok :: "(jstring \<times> time_comparison list) list \<Rightarrow> bool" where
  "groups_ok ranges \<longleftrightarrow> distinct (map fst ranges) \<and>
     (\<forall>key cs. map_of ranges key = Some cs \<longrightarrow> cs \<noteq> [] \<and> (\<forall>c \<in> set cs. range_of c = key \<and> cmp_name c \<in> set TIME_FUNCTIONS))"

lemma add_range_ok: "groups_ok ranges \<Longrightarrow> cmp_name c \<in> set TIME_FUNCTIONS \<Longrightarrow> groups_ok (add_range ranges c)"
  by (auto simp: groups_ok_def add_range_def distinct_assoc_set split: option.split if_split_asm)

lemma add_ranges_ok:
  "groups_ok ranges \<Longrightarrow> \<forall>c \<in> set cs. cmp_name c \<in> set TIME_FUNCTIONS \<Longrightarrow> groups_ok (foldl add_range ranges cs)"
  by (induction cs arbitrary: ranges) (auto simp: add_range_ok)

definition grouped :: "(jstring \<times> time_comparison list) list \<Rightarrow> time_comparison \<Rightarrow> bool" where
  "grouped ranges c \<longleftrightarrow> (\<exists>cs. map_of ranges (range_of c) = Some cs \<and> c \<in> set cs)"

lemma grouped_add: "grouped (add_range ranges c) c" "grouped ranges d \<Longrightarrow> grouped (add_range ranges c) d"
  by (auto simp: grouped_def add_range_def)

lemma set_assoc_set: "set (assoc_set k v m) \<subseteq> insert (k, v) (set m)"
  by (induction k v m rule: assoc_set.induct) auto

lemma add_range_member:
  assumes "e \<in> set (add_range ranges x)" "c \<in> set (snd e)"
  shows "c = x \<or> (\<exists>e \<in> set ranges. c \<in> set (snd e))"
  using assms set_assoc_set unfolding add_range_def
  by (fastforce split: option.splits dest: map_of_SomeD)

lemma grouped_all: "c \<in> set cs \<or> grouped ranges c \<Longrightarrow> grouped (foldl add_range ranges cs) c"
  by (induction cs arbitrary: ranges) (auto simp: grouped_add)

lemma group_zone:
  assumes "range_of c = range_of c'" "cmp_name c \<in> set TIME_FUNCTIONS" "cmp_name c' \<in> set TIME_FUNCTIONS"
  shows "cmp_timezone c = cmp_timezone c'"
proof -
  have "\<forall>f \<in> set TIME_FUNCTIONS. 58 \<notin> set f" by code_simp
  then have none: "58 \<notin> set (cmp_name c)" "58 \<notin> set (cmp_name c')" using assms(2,3) by blast+
  have colon: "lit '':'' = [58]" by (simp add: lit_def)
  have "split_on 58 (range_of c) = cmp_name c # split_on 58 (cmp_timezone c)"
    "split_on 58 (range_of c') = cmp_name c' # split_on 58 (cmp_timezone c')"
    unfolding range_of_def colon append_Cons append_Nil by (rule split_on_append, rule none)+
  then have "join [58] (split_on 58 (cmp_timezone c)) = join [58] (split_on 58 (cmp_timezone c'))" using assms(1) by simp
  then show ?thesis unfolding join_split_on .
qed

lemma timeComparison_name: "timeComparison n = Some c \<Longrightarrow> cmp_name c \<in> set TIME_FUNCTIONS"
  by (auto simp: timeComparison_def split: node.splits literal_value.splits list.splits if_splits)

lemma timeComparison_binary: "timeComparison n = Some c \<Longrightarrow> \<exists>p l r a b. n = Binary p l r a b"
  by (cases n) (simp_all add: timeComparison_def)

lemma timeComparison_zones: "timeComparison n = Some c \<Longrightarrow> condition_zones n = [cmp_timezone c] \<and> cmp_timezone c \<noteq> []"
proof (cases n)
  case (Binary p l r a b)
  then show "timeComparison n = Some c \<Longrightarrow> ?thesis" using timeComparison_op [of p l r a b c] by simp
qed (simp_all add: timeComparison_def)

lemma those_list_all2: "those (map f xs) = Some ys \<Longrightarrow> list_all2 (\<lambda>x y. f x = Some y) xs ys"
  by (induction xs arbitrary: ys) (auto split: option.splits)

lemma zone_ok_subset: "zone_ok zones d \<Longrightarrow> zones' \<subseteq> zones \<Longrightarrow> zone_ok zones' d"
  by (auto simp: zone_ok_def)

lemma group_described:
  assumes "groups_ok ranges" "(key, cs) \<in> set ranges" "describeTimeRange env cs = Some d" "\<forall>c \<in> set cs. cmp_timezone c \<noteq> []"
  shows "zone_ok (cmp_timezone ` set cs) d"
proof -
  have "map_of ranges key = Some cs" using assms(1,2) unfolding groups_ok_def by (intro map_of_is_SomeI) blast+
  then have cs: "cs \<noteq> []" "\<forall>c \<in> set cs. range_of c = key \<and> cmp_name c \<in> set TIME_FUNCTIONS"
    using assms(1) unfolding groups_ok_def by blast+
  have hd: "hd cs \<in> set cs" using cs(1) by simp
  have "\<forall>c \<in> set cs. cmp_timezone c = cmp_timezone (hd cs)"
  proof
    fix c assume "c \<in> set cs"
    then show "cmp_timezone c = cmp_timezone (hd cs)" using cs(2) hd by (intro group_zone) simp_all
  qed
  then have zone: "cmp_timezone ` set cs \<subseteq> {cmp_timezone (hd cs)}" and "ds_timezone d = cmp_timezone (hd cs)"
    using describeTimeRange_zone [OF assms(3) _ cs(1)] by auto
  then show ?thesis using assms(4) hd by (auto simp: zone_ok_def)
qed

lemma parts_zone:
  assumes "combine_parts env p (others @ ranges) = Some d"
    and "list_all2 (\<lambda>m part. describeBillingCondition env m = Some part) ms others"
    and "list_all2 (\<lambda>e part. describeTimeRange env (snd e) = Some part) groups ranges"
    and "\<And>m part. m \<in> set ms \<Longrightarrow> describeBillingCondition env m = Some part \<Longrightarrow> zone_ok (set (condition_zones m)) part"
    and "groups_ok groups" "\<And>key cs c. (key, cs) \<in> set groups \<Longrightarrow> c \<in> set cs \<Longrightarrow> cmp_timezone c \<noteq> []"
  shows "zone_ok (\<Union> (set (map (\<lambda>m. set (condition_zones m)) ms @ map (\<lambda>e. cmp_timezone ` set (snd e)) groups))) d"
proof (rule combine_zone [OF assms(1)])
  have "list_all2 zone_ok (map (\<lambda>m. set (condition_zones m)) ms) others"
    unfolding list_all2_map1 by (rule list_all2_mono_in [OF assms(2)]) (rule assms(4))
  moreover have "list_all2 zone_ok (map (\<lambda>e. cmp_timezone ` set (snd e)) groups) ranges"
    unfolding list_all2_map1
  proof (rule list_all2_mono_in [OF assms(3)])
    fix e part assume e: "e \<in> set groups" "describeTimeRange env (snd e) = Some part"
    then show "zone_ok (cmp_timezone ` set (snd e)) part"
      using group_described [OF assms(5), of "fst e" "snd e"] assms(6) [of "fst e" "snd e"] by simp
  qed
  ultimately show "list_all2 zone_ok (map (\<lambda>m. set (condition_zones m)) ms @ map (\<lambda>e. cmp_timezone ` set (snd e)) groups) (others @ ranges)"
    by (rule list_all2_appendI)
qed

lemma comparisons_ok:
  assumes "cs = List.map_filter timeComparison ms"
  shows "groups_ok (foldl add_range [] cs)"
    and "(key, g) \<in> set (foldl add_range [] cs) \<Longrightarrow> c \<in> set g \<Longrightarrow> cmp_timezone c \<noteq> []"
    and "m \<in> set ms \<Longrightarrow> timeComparison m = Some c \<Longrightarrow> \<exists>e \<in> set (foldl add_range [] cs). cmp_timezone c \<in> cmp_timezone ` set (snd e)"
proof -
  have cs: "cmp_name c \<in> set TIME_FUNCTIONS \<and> cmp_timezone c \<noteq> []" if "c \<in> set cs" for c
    using that timeComparison_name timeComparison_zones unfolding assms by (auto simp: List.map_filter_def)
  then show "groups_ok (foldl add_range [] cs)" by (intro add_ranges_ok) (auto simp: groups_ok_def)
  have "c \<in> set cs \<or> (\<exists>e \<in> set ranges. c \<in> set (snd e))" if "e \<in> set (foldl add_range ranges cs)" "c \<in> set (snd e)" for e c ranges
    using that
  proof (induction cs arbitrary: ranges)
    case (Cons x xs)
    then have "c \<in> set xs \<or> (\<exists>e \<in> set (add_range ranges x). c \<in> set (snd e))" by simp
    then show ?case
    proof
      assume "\<exists>e \<in> set (add_range ranges x). c \<in> set (snd e)"
      then obtain e where "e \<in> set (add_range ranges x)" "c \<in> set (snd e)" by blast
      from add_range_member [OF this] show ?case by auto
    qed simp
  qed auto
  from this [of "(key, g)" "[]" c] show "(key, g) \<in> set (foldl add_range [] cs) \<Longrightarrow> c \<in> set g \<Longrightarrow> cmp_timezone c \<noteq> []"
    using cs by auto
  assume "m \<in> set ms" "timeComparison m = Some c"
  then have "c \<in> set cs" unfolding assms by (force simp: List.map_filter_def)
  then have "grouped (foldl add_range [] cs) c" by (intro grouped_all) simp
  then show "\<exists>e \<in> set (foldl add_range [] cs). cmp_timezone c \<in> cmp_timezone ` set (snd e)"
    by (auto simp: grouped_def dest!: map_of_SomeD intro!: bexI)
qed

lemma describe_zone: "describeBillingCondition env n = Some d \<Longrightarrow> zone_ok (set (condition_zones n)) d"
proof (induction n arbitrary: d rule: measure_induct_rule [where f = size])
  case (less n)
  note describe = less.prems [unfolded describeBillingCondition.simps [of env n]]
  consider (neg) operand a b where "n = Unary (lit ''!'') operand a b"
    | (token) q x v where "token_comparison n = Some (q, x, v)"
    | (time) c where "token_comparison n = None" "timeComparison n = Some c"
    | (conj) l r a b where "n = Binary (lit ''&&'') l r a b" "token_comparison n = None" "timeComparison n = None"
    | (disj) l r a b where "n = Binary (lit ''||'') l r a b" "token_comparison n = None" "timeComparison n = None"
    using describe by (cases n) (auto split: if_split_asm option.split_asm)
  then show ?case
  proof cases
    case neg
    then obtain z where z: "describeBillingCondition env operand = Some z" "ds_timezone d = ds_timezone z" "ds_kind d = Combined"
      using describe by auto
    have "zone_ok (set (condition_zones operand)) z" by (rule less.IH [OF _ z(1)]) (simp add: neg)
    then show ?thesis by (simp add: zone_ok_def neg z)
  next
    case token
    then obtain p y a b v' i a' b' a'' b'' where n: "n = Binary p (Variable y a b) (Literal (LNumber v') i a' b') a'' b''"
      by (cases n rule: token_comparison.cases) auto
    then have "condition_zones n = []" by (simp add: timeComparison_def)
    moreover have "ds_timezone d = [] \<and> ds_kind d = Combined"
      using describe token unfolding n by (auto simp: describe_variable_def split: if_splits)
    ultimately show ?thesis by (simp add: zone_ok_def)
  next
    case time
    then have "describeTimeRange env [c] = Some d" using describe timeComparison_binary [OF time(2)] by auto
    then show ?thesis using describeTimeRange_zone [of env "[c]" d "cmp_timezone c"] timeComparison_zones [OF time(2)]
      by (auto simp: zone_ok_def)
  next
    case conj
    let ?ms = "flattenBinary l (lit ''&&'') @ flattenBinary r (lit ''&&'')"
    let ?plain = "filter (\<lambda>m. timeComparison m = None) ?ms" and ?groups = "foldl add_range [] (List.map_filter timeComparison ?ms)"
    obtain others ranges where parts: "those (map (describeBillingCondition env) ?plain) = Some others"
      "those (map (\<lambda>e. describeTimeRange env (snd e)) ?groups) = Some ranges" "combine_parts env (lit ''&&'') (others @ ranges) = Some d"
      using describe conj by (auto split: option.splits)
    have small: "m \<in> set ?ms \<Longrightarrow> size m < size n" for m
      using size_flattenBinary [of m l] size_flattenBinary [of m r] unfolding conj(1) by fastforce
    note groups = comparisons_ok [of "List.map_filter timeComparison ?ms" ?ms, OF refl]
    have "zone_ok (\<Union> (set (map (\<lambda>m. set (condition_zones m)) ?plain @ map (\<lambda>e. cmp_timezone ` set (snd e)) ?groups))) d"
      using parts(3) those_list_all2 [OF parts(1)] those_list_all2 [OF parts(2)]
      by (rule parts_zone) (use small less.IH groups(1,2) in auto)
    moreover have "set (condition_zones n) \<subseteq>
        \<Union> (set (map (\<lambda>m. set (condition_zones m)) ?plain @ map (\<lambda>e. cmp_timezone ` set (snd e)) ?groups))"
    proof
      fix z assume "z \<in> set (condition_zones n)"
      then obtain m where m: "m \<in> set ?ms" "z \<in> set (condition_zones m)"
        using zones_flatten [of "lit ''&&''" n] conj(1) by auto
      show "z \<in> \<Union> (set (map (\<lambda>m. set (condition_zones m)) ?plain @ map (\<lambda>e. cmp_timezone ` set (snd e)) ?groups))"
      proof (cases "timeComparison m")
        case (Some c)
        then show ?thesis using groups(3) [OF m(1) Some] m(2) timeComparison_zones [OF Some] by auto
      qed (use m in auto)
    qed
    ultimately show ?thesis by (rule zone_ok_subset)
  next
    case disj
    let ?ms = "flattenBinary l (lit ''||'') @ flattenBinary r (lit ''||'')"
    obtain others where parts: "those (map (describeBillingCondition env) ?ms) = Some others"
      "combine_parts env (lit ''||'') others = Some d"
      using describe disj by (auto split: option.splits Option.bind_splits)
    have small: "m \<in> set ?ms \<Longrightarrow> size m < size n" for m
      using size_flattenBinary [of m l] size_flattenBinary [of m r] unfolding disj(1) by fastforce
    have "list_all2 zone_ok (map (\<lambda>m. set (condition_zones m)) ?ms) others"
      unfolding list_all2_map1 by (rule list_all2_mono_in [OF those_list_all2 [OF parts(1)]]) (use small less.IH in blast)
    then have "zone_ok (\<Union> (set (map (\<lambda>m. set (condition_zones m)) ?ms))) d" by (rule combine_zone [OF parts(2)])
    then show ?thesis using zones_flatten [of "lit ''||''" n] disj(1) by simp
  qed
qed

subsection \<open>Properties\<close>

text \<open>
  C24: the range that a list of comparisons is described with is exact. Within the
  domain of the field, an integer lies in the range if and only if the runtime's
  comparisons all hold for it, and no range is shown only if no value of the domain
  passes them all.
\<close>

theorem described_range_is_exact:
  assumes "map_of DOMAINS (cmp_name (hd cs)) = Some (lo, hi)" "\<forall>c \<in> set cs. isInteger (cmp_value c)"
  shows "case time_bounds cs of
      Some (a, b) \<Rightarrow> lo \<le> a \<and> a < b \<and> b \<le> hi \<and>
        (\<forall>v. a \<le> v \<and> v < b \<longleftrightarrow> lo \<le> v \<and> v < hi \<and> (\<forall>c \<in> set cs. comparison_holds c v))
    | None \<Rightarrow> \<not> (\<exists>v. lo \<le> v \<and> v < hi \<and> (\<forall>c \<in> set cs. comparison_holds c v))"
proof -
  obtain a b where r: "foldl narrow (lo, hi) cs = (a, b)" by (cases "foldl narrow (lo, hi) cs")
  note exact = narrow_all_exact [OF assms(2) r]
  show ?thesis
  proof (cases "b \<le> a")
    case True
    then have "\<not> (a \<le> v \<and> v < b)" for v by simp
    then show ?thesis using True exact by (simp add: time_bounds_def assms(1) r)
  next
    case False
    then show ?thesis using exact by (simp add: time_bounds_def assms(1) r)
  qed
qed

theorem described_range_is_exact_witness:
  "time_bounds [\<lparr>cmp_name = lit ''hour'', cmp_timezone = lit ''UTC'', cmp_operator = lit ''>'', cmp_value = Fin 8\<rparr>,
      \<lparr>cmp_name = lit ''hour'', cmp_timezone = lit ''UTC'', cmp_operator = lit ''<'', cmp_value = Fin 18\<rparr>] = Some (9, 18) \<and>
   comparison_holds \<lparr>cmp_name = lit ''hour'', cmp_timezone = lit ''UTC'', cmp_operator = lit ''>'', cmp_value = Fin 8\<rparr> 9"
proof -
  let ?a = "\<lparr>cmp_name = lit ''hour'', cmp_timezone = lit ''UTC'', cmp_operator = lit ''>'', cmp_value = Fin 8\<rparr>"
  let ?b = "\<lparr>cmp_name = lit ''hour'', cmp_timezone = lit ''UTC'', cmp_operator = lit ''<'', cmp_value = Fin 18\<rparr>"
  have bounds: "time_bounds [?a, ?b] = Some (9, 18)" by code_simp
  have "map_of DOMAINS (cmp_name (hd [?a, ?b])) = Some (0, 24)" "\<forall>c \<in> set [?a, ?b]. isInteger (cmp_value c)" by code_simp+
  from described_range_is_exact [OF this]
  have "\<forall>v. 9 \<le> v \<and> v < 18 \<longleftrightarrow> 0 \<le> v \<and> v < 24 \<and> (\<forall>c \<in> set [?a, ?b]. comparison_holds c v)" unfolding bounds by simp
  from spec [OF this, of 9] show ?thesis using bounds by simp
qed

text \<open>
  C25: a description never mixes time zones. The zone that is shown for a condition is
  the zone of every clock comparison in it, at any depth of negations, conjunctions
  and disjunctions.
\<close>

theorem described_zone_is_every_zone:
  assumes "describeBillingCondition env n = Some d"
  shows "\<forall>z \<in> set (condition_zones n). z = ds_timezone d \<and> z \<noteq> []"
  using describe_zone [OF assms] by (auto simp: zone_ok_def)

theorem described_zone_is_every_zone_witness:
  "condition_zones (Binary (lit ''>='') (Call (lit ''hour'') [Literal (LString (lit ''Asia/Tokyo'')) False 5 17] 0 18)
     (Literal (LNumber (Fin 9)) True 22 23) 0 23) = [lit ''Asia/Tokyo''] \<and>
   map_option ds_timezone (describeBillingCondition \<lparr>de_t = (\<lambda>key options. key), de_weekday = (\<lambda>k. []), de_number = (\<lambda>x. [])\<rparr>
     (Binary (lit ''>='') (Call (lit ''hour'') [Literal (LString (lit ''Asia/Tokyo'')) False 5 17] 0 18)
       (Literal (LNumber (Fin 9)) True 22 23) 0 23)) = Some (lit ''Asia/Tokyo'')"
proof -
  let ?n = "Binary (lit ''>='') (Call (lit ''hour'') [Literal (LString (lit ''Asia/Tokyo'')) False 5 17] 0 18)
     (Literal (LNumber (Fin 9)) True 22 23) 0 23"
  let ?env = "\<lparr>de_t = (\<lambda>key options. key), de_weekday = (\<lambda>k. []), de_number = (\<lambda>x. [])\<rparr>"
  have zones: "condition_zones ?n = [lit ''Asia/Tokyo'']" by code_simp
  have "describeBillingCondition ?env ?n \<noteq> None" by code_simp
  then obtain d where d: "describeBillingCondition ?env ?n = Some d" by blast
  have "lit ''Asia/Tokyo'' = ds_timezone d" using described_zone_is_every_zone [OF d] unfolding zones by simp
  then show ?thesis using zones d by (intro conjI) (simp_all only: option.map)
qed

end
