(* ===== verification/Task_Matrix.thy ===== *)
theory Task_Matrix
  imports Billing_Display
begin

text \<open>
  The price matrix of task models (\<open>features/pricing/lib/task-expr.ts\<close>): one row per
  combination of the enumerated usage fields. A matrix is turned into a chain of
  tiers, and a chain of tiers back into a matrix. \<open>localeCompare\<close> depends on the
  locale data of the browser; \<open>before\<close> says whether it puts its left string first.
\<close>

subsection \<open>Fields and combinations\<close>

record task_row =
  tr_combination :: "(jstring \<times> jstring) list"
  tr_constant :: number
  tr_unitPrices :: "(jstring \<times> number) list"

text \<open>\<open>sort\<close> by the first components; the sort of the language is stable.\<close>

fun insert_by :: "(jstring \<Rightarrow> jstring \<Rightarrow> bool) \<Rightarrow> jstring \<times> 'a \<Rightarrow> (jstring \<times> 'a) list \<Rightarrow> (jstring \<times> 'a) list" where
  "insert_by before e [] = [e]"
| "insert_by before e (f # fs) = (if before (fst f) (fst e) then f # insert_by before e fs else e # f # fs)"

definition sort_by :: "(jstring \<Rightarrow> jstring \<Rightarrow> bool) \<Rightarrow> (jstring \<times> 'a) list \<Rightarrow> (jstring \<times> 'a) list" where
  "sort_by before es = foldr (insert_by before) es []"

definition getTaskNumberFields :: "(jstring \<Rightarrow> jstring \<Rightarrow> bool) \<Rightarrow> usage_schema option \<Rightarrow> (jstring \<times> usage_field) list" where
  "getTaskNumberFields before schema =
     (case schema of
        None \<Rightarrow> []
      | Some s \<Rightarrow> sort_by before (filter (\<lambda>e. uf_type (snd e) = Some Usage_number \<and> uf_unit (snd e) \<noteq> None) s))"

definition getTaskEnumFields :: "(jstring \<Rightarrow> jstring \<Rightarrow> bool) \<Rightarrow> usage_schema option \<Rightarrow> (jstring \<times> usage_field) list" where
  "getTaskEnumFields before schema =
     (case schema of
        None \<Rightarrow> []
      | Some s \<Rightarrow> sort_by before (filter (\<lambda>e. case uf_enum (snd e) of Some vs \<Rightarrow> vs \<noteq> [] | None \<Rightarrow> False) s))"

definition enum_values :: "usage_field \<Rightarrow> jstring list" where
  "enum_values definition' = (case uf_enum definition' of Some vs \<Rightarrow> vs | None \<Rightarrow> [])"

definition extend_combinations :: "(jstring \<times> jstring) list list \<Rightarrow> jstring \<times> usage_field \<Rightarrow> (jstring \<times> jstring) list list" where
  "extend_combinations combinations e =
     concat (map (\<lambda>combination. map (\<lambda>v. assoc_set (fst e) v combination) (enum_values (snd e))) combinations)"

definition getTaskEnumCombinations :: "(jstring \<Rightarrow> jstring \<Rightarrow> bool) \<Rightarrow> usage_schema option \<Rightarrow> (jstring \<times> jstring) list list" where
  "getTaskEnumCombinations before schema = foldl extend_combinations [[]] (getTaskEnumFields before schema)"

definition createDefaultTaskVisualConfig :: "(jstring \<Rightarrow> jstring \<Rightarrow> bool) \<Rightarrow> usage_schema \<Rightarrow> task_tier list" where
  "createDefaultTaskVisualConfig before schema =
     [\<lparr>tk_label = lit ''base'', tk_conditions = [], tk_constant = Fin 0,
       tk_unitPrices = map (\<lambda>e. (fst e, Fin 0)) (getTaskNumberFields before (Some schema))\<rparr>]"

definition createDefaultTaskMatrixConfig :: "(jstring \<Rightarrow> jstring \<Rightarrow> bool) \<Rightarrow> usage_schema \<Rightarrow> task_row list" where
  "createDefaultTaskMatrixConfig before schema =
     map (\<lambda>combination. \<lparr>tr_combination = combination, tr_constant = Fin 0,
         tr_unitPrices = map (\<lambda>e. (fst e, Fin 0)) (getTaskNumberFields before (Some schema))\<rparr>)
       (getTaskEnumCombinations before (Some schema))"

subsection \<open>From rows to tiers and back\<close>

definition taskMatrixRowLabel :: "(jstring \<Rightarrow> jstring \<Rightarrow> bool) \<Rightarrow> (jstring \<times> jstring) list \<Rightarrow> jstring" where
  "taskMatrixRowLabel before combination =
     (let vs = map snd (sort_by before combination) in if vs \<noteq> [] then join [0xB7] vs else lit ''base'')"

text \<open>\<open>===\<close> of two prices, either of which may be undefined.\<close>

definition same_price :: "number option \<Rightarrow> number option \<Rightarrow> bool" where
  "same_price a b =
     (case (a, b) of (Some x, Some y) \<Rightarrow> num_eq x y | (None, None) \<Rightarrow> True | _ \<Rightarrow> False)"

definition row_prices :: "(jstring \<times> usage_field) list \<Rightarrow> (jstring \<times> number) list \<Rightarrow> (jstring \<times> number) list" where
  "row_prices names prices = map (\<lambda>e. (fst e, case map_of prices (fst e) of Some p \<Rightarrow> p | None \<Rightarrow> Fin 0)) names"

definition row_tier :: "(jstring \<Rightarrow> jstring \<Rightarrow> bool) \<Rightarrow> (jstring \<times> usage_field) list \<Rightarrow> bool \<Rightarrow> task_row \<Rightarrow> task_tier" where
  "row_tier before names is_last row =
     \<lparr>tk_label = taskMatrixRowLabel before (tr_combination row),
      tk_conditions = (if is_last then [] else sort_by before (tr_combination row)),
      tk_constant = tr_constant row, tk_unitPrices = row_prices names (tr_unitPrices row)\<rparr>"

definition is_uniform :: "(jstring \<times> usage_field) list \<Rightarrow> task_row list \<Rightarrow> bool" where
  "is_uniform names rows =
     list_all (\<lambda>row. num_eq (tr_constant row) (tr_constant (hd rows)) \<and>
       list_all (\<lambda>e. same_price (map_of (tr_unitPrices row) (fst e)) (map_of (tr_unitPrices (hd rows)) (fst e))) names) rows"

definition taskMatrixToTiers :: "(jstring \<Rightarrow> jstring \<Rightarrow> bool) \<Rightarrow> task_row list \<Rightarrow> usage_schema \<Rightarrow> task_tier list" where
  "taskMatrixToTiers before rows schema =
     (let numberFields = getTaskNumberFields before (Some schema)
      in if numberFields = [] \<or> rows = [] then []
         else if is_uniform numberFields rows then
           [\<lparr>tk_label = lit ''base'', tk_conditions = [], tk_constant = tr_constant (hd rows),
             tk_unitPrices = row_prices numberFields (tr_unitPrices (hd rows))\<rparr>]
         else map (\<lambda>i. row_tier before numberFields (i = length rows - 1) (rows ! i)) [0..<length rows])"

definition tier_covers :: "(jstring \<times> jstring) list \<Rightarrow> task_tier \<Rightarrow> bool" where
  "tier_covers combination tier = list_all (\<lambda>c. map_of combination (fst c) = Some (snd c)) (tk_conditions tier)"

text \<open>\<open>tryParseTaskMatrixConfig\<close> from the tiers that were read from the expression on.\<close>

definition matrix_of_tiers :: "(jstring \<Rightarrow> jstring \<Rightarrow> bool) \<Rightarrow> usage_schema \<Rightarrow> task_tier list \<Rightarrow> task_row list option" where
  "matrix_of_tiers before schema tiers =
     (if tiers = [] then None
      else
        let numberFields = getTaskNumberFields before (Some schema); fallbackTier = last tiers
        in if tk_conditions fallbackTier \<noteq> [] then None
           else if \<not> list_all (\<lambda>tier. distinct (map fst (tk_conditions tier))) tiers then None
           else Some (map (\<lambda>combination.
             let tier = (case find (tier_covers combination) tiers of Some t \<Rightarrow> t | None \<Rightarrow> fallbackTier)
             in \<lparr>tr_combination = combination, tr_constant = tk_constant tier,
                 tr_unitPrices = row_prices numberFields (tk_unitPrices tier)\<rparr>)
             (getTaskEnumCombinations before (Some schema))))"

text \<open>The tier of the preview (\<open>evaluateTaskVisualConfig\<close>): the first but the last whose conditions the facts meet, else the last.\<close>

definition matched_tier :: "task_tier list \<Rightarrow> (jstring \<times> json) list \<Rightarrow> task_tier option" where
  "matched_tier tiers sample =
     (if tiers = [] then None
      else Some (case find (\<lambda>tier. list_all (\<lambda>c. map_of sample (fst c) = Some (JStr (snd c))) (tk_conditions tier)) (butlast tiers) of
        Some tier \<Rightarrow> tier | None \<Rightarrow> last tiers))"

subsection \<open>Normal form and text\<close>

definition clean_price :: "number \<Rightarrow> number" where
  "clean_price v = (if isFinite v \<and> num_le (Fin 0) v then v else Fin 0)"

definition enum_has :: "(jstring \<times> usage_field) list \<Rightarrow> jstring \<times> jstring \<Rightarrow> bool" where
  "enum_has enumFields c = (case map_of enumFields (fst c) of Some d \<Rightarrow> snd c \<in> set (enum_values d) | None \<Rightarrow> False)"

definition normalize_tier :: "(jstring \<times> usage_field) list \<Rightarrow> (jstring \<times> usage_field) list \<Rightarrow> nat \<Rightarrow> task_tier \<Rightarrow> task_tier" where
  "normalize_tier numberFields enumFields index tier =
     \<lparr>tk_label = (if tk_label tier \<noteq> [] then tk_label tier
         else if index = 0 then lit ''base'' else lit ''tier_'' @ int_digits (int index + 1)),
      tk_conditions = filter (enum_has enumFields) (tk_conditions tier),
      tk_constant = clean_price (tk_constant tier),
      tk_unitPrices = map (\<lambda>e. (fst e, clean_price (case map_of (tk_unitPrices tier) (fst e) of Some v \<Rightarrow> v | None \<Rightarrow> NaN))) numberFields\<rparr>"

definition normalizeTaskVisualConfig :: "(jstring \<Rightarrow> jstring \<Rightarrow> bool) \<Rightarrow> task_tier list option \<Rightarrow> usage_schema \<Rightarrow> task_tier list" where
  "normalizeTaskVisualConfig before config schema =
     (case config of
        None \<Rightarrow> createDefaultTaskVisualConfig before schema
      | Some tiers \<Rightarrow>
        if tiers = [] then createDefaultTaskVisualConfig before schema
        else map (\<lambda>i. normalize_tier (getTaskNumberFields before (Some schema)) (getTaskEnumFields before (Some schema)) i (tiers ! i))
          [0..<length tiers])"

definition generateTaskTierBody :: "task_tier \<Rightarrow> (jstring \<times> usage_field) list \<Rightarrow> jstring" where
  "generateTaskTierBody tier numberFields =
     join (lit '' + '')
       ((if num_lt (Fin 0) (tk_constant tier) then [number_to_string (tk_constant tier)] else []) @
        map (\<lambda>e. let price = (case map_of (tk_unitPrices tier) (fst e) of Some p \<Rightarrow> p | None \<Rightarrow> Fin 0) in
          lit ''u('' @ json_string (fst e) @ lit '') * '' @ number_to_string price @
          (if uf_unit (snd e) = Some Unit_token then lit '' / 1000000'' else [])) numberFields)"

definition generateTaskTierCall :: "task_tier \<Rightarrow> (jstring \<times> usage_field) list \<Rightarrow> jstring" where
  "generateTaskTierCall tier numberFields =
     lit ''tier('' @ json_string (tk_label tier) @ lit '', '' @ generateTaskTierBody tier numberFields @ lit '')''"

definition generateTaskCondition :: "(jstring \<times> jstring) list \<Rightarrow> jstring" where
  "generateTaskCondition conditions =
     join (lit '' && '') (map (\<lambda>c. lit ''u('' @ json_string (fst c) @ lit '') == '' @ json_string (snd c)) conditions)"

text \<open>A tier before the last without conditions has no text, and then the whole expression has none.\<close>

definition generateTaskExprFromConfig :: "(jstring \<Rightarrow> jstring \<Rightarrow> bool) \<Rightarrow> task_tier list option \<Rightarrow> usage_schema \<Rightarrow> jstring" where
  "generateTaskExprFromConfig before config schema =
     (let numberFields = getTaskNumberFields before (Some schema)
      in if numberFields = [] then []
         else
           let tiers = normalizeTaskVisualConfig before config schema
           in if length tiers = 1 then generateTaskTierCall (hd tiers) numberFields
              else if \<exists>tier \<in> set (butlast tiers). generateTaskCondition (tk_conditions tier) = [] then []
              else join (lit '' : '')
                (map (\<lambda>tier. generateTaskCondition (tk_conditions tier) @ lit '' ? '' @ generateTaskTierCall tier numberFields) (butlast tiers) @
                 [generateTaskTierCall (last tiers) numberFields]))"

subsection \<open>Sorting and combinations\<close>

lemma set_insert_by [simp]: "set (insert_by before e es) = insert e (set es)"
  by (induction es) auto

lemma length_insert_by [simp]: "length (insert_by before e es) = Suc (length es)"
  by (induction es) auto

lemma set_sort_by [simp]: "set (sort_by before es) = set es"
  by (induction es) (auto simp: sort_by_def)

lemma length_sort_by [simp]: "length (sort_by before es) = length es"
  by (induction es) (auto simp: sort_by_def)

lemma distinct_sort_by: "distinct (map fst es) \<Longrightarrow> distinct (map fst (sort_by before es))"
proof -
  assume "distinct (map fst es)"
  then have "card (fst ` set es) = length es" using distinct_card [of "map fst es"] by simp
  then show ?thesis by (intro card_distinct) simp
qed

lemma assoc_set_new: "k \<notin> fst ` set m \<Longrightarrow> assoc_set k v m = m @ [(k, v)]"
  by (induction k v m rule: assoc_set.induct) auto

definition combinations_ok :: "jstring list \<Rightarrow> (jstring \<times> jstring) list list \<Rightarrow> bool" where
  "combinations_ok names cs \<longleftrightarrow> distinct cs \<and> (\<forall>c \<in> set cs. map fst c = names)"

lemma extend_ok:
  assumes "combinations_ok names cs" "fst e \<notin> set names" "distinct (enum_values (snd e))"
  shows "combinations_ok (names @ [fst e]) (extend_combinations cs e)"
proof -
  have new: "assoc_set (fst e) v c = c @ [(fst e, v)]" if "c \<in> set cs" for c v
    using that assms(1,2) by (intro assoc_set_new) (auto simp: combinations_ok_def simp flip: set_map)
  have "extend_combinations cs e = concat (map (\<lambda>c. map (\<lambda>v. c @ [(fst e, v)]) (enum_values (snd e))) cs)"
    unfolding extend_combinations_def using new by (intro arg_cong [of _ _ concat] map_cong) auto
  moreover have "distinct (concat (map (\<lambda>c. map (\<lambda>v. c @ [(fst e, v)]) (enum_values (snd e))) cs))"
    using assms(1,3) unfolding combinations_ok_def
    by (induction cs) (auto simp: distinct_map inj_on_def)
  ultimately show ?thesis using assms(1) by (auto simp: combinations_ok_def)
qed

lemma extend_all_ok:
  "combinations_ok names cs \<Longrightarrow> distinct (names @ map fst es) \<Longrightarrow> \<forall>e \<in> set es. distinct (enum_values (snd e)) \<Longrightarrow>
     combinations_ok (names @ map fst es) (foldl extend_combinations cs es)"
proof (induction es arbitrary: names cs)
  case (Cons e es)
  then have "combinations_ok (names @ [fst e]) (extend_combinations cs e)" by (intro extend_ok) auto
  then show ?case using Cons.IH [of "names @ [fst e]" "extend_combinations cs e"] Cons.prems by simp
qed simp

definition schema_ok :: "usage_schema \<Rightarrow> bool" where
  "schema_ok schema \<longleftrightarrow> distinct (map fst schema) \<and> list_all (\<lambda>e. distinct (enum_values (snd e))) schema"

lemma combinations_are_ok:
  assumes "schema_ok schema"
  shows "\<exists>names. distinct names \<and> combinations_ok names (getTaskEnumCombinations before (Some schema))"
proof -
  let ?es = "filter (\<lambda>e. case uf_enum (snd e) of Some vs \<Rightarrow> vs \<noteq> [] | None \<Rightarrow> False) schema"
  have "distinct (map fst ?es)" using assms by (simp add: schema_ok_def distinct_map_filter)
  then have d: "distinct (map fst (sort_by before ?es))" by (rule distinct_sort_by)
  have "combinations_ok ([] @ map fst (sort_by before ?es)) (foldl extend_combinations [[]] (sort_by before ?es))"
    using d assms by (intro extend_all_ok) (auto simp: combinations_ok_def schema_ok_def list_all_iff)
  then show ?thesis using d by (auto simp: getTaskEnumCombinations_def getTaskEnumFields_def)
qed

lemma entries_by_name: "distinct (map fst c) \<Longrightarrow> c = map (\<lambda>k. (k, the (map_of c k))) (map fst c)"
proof (induction c)
  case (Cons e c)
  have "map (\<lambda>k. (k, the (map_of (e # c) k))) (map fst c) = map (\<lambda>k. (k, the (map_of c k))) (map fst c)"
  proof (rule map_cong)
    fix k assume k: "k \<in> set (map fst c)"
    have "fst e \<notin> set (map fst c)" using Cons.prems by simp
    then have "k \<noteq> fst e" using k by blast
    then show "(k, the (map_of (e # c) k)) = (k, the (map_of c k))" by simp
  qed simp
  also have "\<dots> = c" using Cons by simp
  finally have rest: "map (\<lambda>k. (k, the (map_of (e # c) k))) (map fst c) = c" .
  show ?case unfolding list.map(2) rest by (cases e) simp
qed simp

lemma same_combination:
  assumes "map fst c = names" "map fst c' = names" "distinct names" "\<forall>e \<in> set c'. map_of c (fst e) = Some (snd e)"
  shows "c = c'"
proof -
  have "map_of c k = map_of c' k" if "k \<in> set names" for k
  proof -
    have "k \<in> fst ` set c'" using that assms(2) by (metis set_map)
    then obtain v where "(k, v) \<in> set c'" by auto
    then show ?thesis using assms(2-4) by auto
  qed
  then have "map (\<lambda>k. (k, the (map_of c k))) names = map (\<lambda>k. (k, the (map_of c' k))) names" by simp
  then show ?thesis using entries_by_name [of c] entries_by_name [of c'] assms(1-3) by (simp only:)
qed

lemma find_first:
  assumes "i < length xs" "P (xs ! i)" "\<And>j. j < i \<Longrightarrow> \<not> P (xs ! j)"
  shows "find P xs = Some (xs ! i)"
  using assms
proof (induction xs arbitrary: i)
  case (Cons x xs)
  show ?case
  proof (cases i)
    case (Suc k)
    have "\<not> P x" using Cons.prems(3) [of 0] Suc by simp
    moreover have "find P xs = Some (xs ! k)"
    proof (rule Cons.IH)
      show "\<not> P (xs ! j)" if "j < k" for j using Cons.prems(3) [of "Suc j"] that Suc by simp
    qed (use Cons.prems Suc in simp_all)
    ultimately show ?thesis using Suc by simp
  qed (use Cons.prems in simp)
qed simp

text \<open>In a matrix over all combinations, a tier made from a row covers that row's combination only.\<close>

lemma row_tier_covers:
  assumes "combinations_ok names (map tr_combination rows)" "distinct names" "i < length rows" "j < length rows"
  shows "tier_covers (tr_combination (rows ! i)) (row_tier before fs False (rows ! j)) \<longleftrightarrow> i = j"
proof -
  have keys: "map fst (tr_combination (rows ! k)) = names" if "k < length rows" for k
    using assms(1) that by (auto simp: combinations_ok_def)
  have covers: "tier_covers c (row_tier before fs False row) \<longleftrightarrow> (\<forall>e \<in> set (tr_combination row). map_of c (fst e) = Some (snd e))" for c row
    by (simp add: tier_covers_def row_tier_def list_all_iff)
  show ?thesis
  proof
    assume "tier_covers (tr_combination (rows ! i)) (row_tier before fs False (rows ! j))"
    then have "tr_combination (rows ! i) = tr_combination (rows ! j)"
      using same_combination [OF keys [OF assms(3)] keys [OF assms(4)] assms(2)] covers by blast
    then show "i = j"
      using assms(1,3,4) nth_eq_iff_index_eq [of "map tr_combination rows" i j] by (simp add: combinations_ok_def)
  next
    assume "i = j"
    then show "tier_covers (tr_combination (rows ! i)) (row_tier before fs False (rows ! j))"
      using keys [OF assms(4)] assms(2) unfolding covers by auto
  qed
qed

definition plain_row :: "task_row \<Rightarrow> bool" where
  "plain_row row \<longleftrightarrow> (\<exists>q. tr_constant row = Fin q) \<and> (\<forall>e \<in> set (tr_unitPrices row). \<exists>q. snd e = Fin q)"

lemma num_eq_plain: "num_eq x y \<Longrightarrow> \<exists>q. x = Fin q \<Longrightarrow> \<exists>q. y = Fin q \<Longrightarrow> x = y"
  by (auto simp: num_eq_def)

lemma same_price_eq:
  assumes "plain_row row" "plain_row row'" "same_price (map_of (tr_unitPrices row) k) (map_of (tr_unitPrices row') k)"
  shows "map_of (tr_unitPrices row) k = map_of (tr_unitPrices row') k"
proof -
  have "\<exists>q. x = Fin q" if "plain_row r" "map_of (tr_unitPrices r) k = Some x" for r x
    using that map_of_SomeD [OF that(2)] by (auto simp: plain_row_def)
  then show ?thesis using assms num_eq_plain by (auto simp: same_price_def split: option.splits)
qed

lemma uniform_row:
  assumes "is_uniform fs rows" "row \<in> set rows" "\<forall>r \<in> set rows. plain_row r"
  shows "tr_constant row = tr_constant (hd rows)" "row_prices fs (tr_unitPrices row) = row_prices fs (tr_unitPrices (hd rows))"
proof -
  have hd: "hd rows \<in> set rows" using assms(2) by (cases rows) auto
  have u: "num_eq (tr_constant row) (tr_constant (hd rows))"
    "\<forall>e \<in> set fs. same_price (map_of (tr_unitPrices row) (fst e)) (map_of (tr_unitPrices (hd rows)) (fst e))"
    using assms(1,2) by (auto simp: is_uniform_def list_all_iff)
  show "tr_constant row = tr_constant (hd rows)"
    using u(1) assms(2,3) hd by (intro num_eq_plain) (auto simp: plain_row_def)
  have "map_of (tr_unitPrices row) (fst e) = map_of (tr_unitPrices (hd rows)) (fst e)" if "e \<in> set fs" for e
    using that u(2) assms(2,3) hd by (intro same_price_eq) auto
  then show "row_prices fs (tr_unitPrices row) = row_prices fs (tr_unitPrices (hd rows))" by (simp add: row_prices_def)
qed

lemma row_prices_idem:
  assumes "distinct (map fst fs)"
  shows "row_prices fs (row_prices fs prices) = row_prices fs prices"
proof -
  have "map_of (row_prices fs prices) (fst e) = Some (case map_of prices (fst e) of Some p \<Rightarrow> p | None \<Rightarrow> Fin 0)" if "e \<in> set fs" for e
  proof (rule map_of_is_SomeI)
    show "distinct (map fst (row_prices fs prices))" using assms by (simp add: row_prices_def comp_def)
  qed (use that in \<open>auto simp: row_prices_def\<close>)
  then show ?thesis unfolding row_prices_def [of fs "row_prices fs prices"] by (simp add: row_prices_def)
qed

lemma number_fields_distinct: "schema_ok schema \<Longrightarrow> distinct (map fst (getTaskNumberFields before (Some schema)))"
  by (auto simp: getTaskNumberFields_def schema_ok_def intro!: distinct_sort_by distinct_map_filter)

text \<open>A matrix over all combinations of the schema.\<close>

definition matrix_ok :: "(jstring \<Rightarrow> jstring \<Rightarrow> bool) \<Rightarrow> usage_schema \<Rightarrow> task_row list \<Rightarrow> bool" where
  "matrix_ok before schema rows \<longleftrightarrow> schema_ok schema \<and> rows \<noteq> [] \<and> getTaskNumberFields before (Some schema) \<noteq> [] \<and>
     map tr_combination rows = getTaskEnumCombinations before (Some schema) \<and> (\<forall>row \<in> set rows. plain_row row)"

lemma covering_tier:
  assumes "matrix_ok before schema rows" "i < length rows"
  shows "\<exists>tier. find (tier_covers (tr_combination (rows ! i))) (taskMatrixToTiers before rows schema) = Some tier \<and>
    tk_constant tier = tr_constant (rows ! i) \<and>
    tk_unitPrices tier = row_prices (getTaskNumberFields before (Some schema)) (tr_unitPrices (rows ! i))"
proof -
  let ?fs = "getTaskNumberFields before (Some schema)" and ?n = "length rows"
  let ?tiers = "taskMatrixToTiers before rows schema"
  have ok: "?fs \<noteq> []" "rows \<noteq> []" "\<forall>row \<in> set rows. plain_row row" "rows ! i \<in> set rows"
    using assms by (auto simp: matrix_ok_def)
  obtain names where names: "distinct names" "combinations_ok names (map tr_combination rows)"
    using combinations_are_ok [of schema before] assms(1) by (auto simp: matrix_ok_def)
  show ?thesis
  proof (cases "is_uniform ?fs rows")
    case True
    then show ?thesis using ok uniform_row [OF True ok(4,3)] by (simp add: taskMatrixToTiers_def tier_covers_def)
  next
    case False
    then have tiers: "?tiers = map (\<lambda>j. row_tier before ?fs (j = ?n - 1) (rows ! j)) [0..<?n]"
      using ok by (simp add: taskMatrixToTiers_def)
    have "find (tier_covers (tr_combination (rows ! i))) ?tiers = Some (?tiers ! i)"
    proof (rule find_first)
      show "i < length ?tiers" using assms(2) by (simp add: tiers)
      show "tier_covers (tr_combination (rows ! i)) (?tiers ! i)"
        using assms(2) row_tier_covers [OF names(2,1) assms(2,2)]
        by (cases "i = ?n - 1") (simp_all add: tiers, simp add: row_tier_def tier_covers_def)
      show "\<not> tier_covers (tr_combination (rows ! i)) (?tiers ! j)" if "j < i" for j
      proof -
        have "j < ?n" "j \<noteq> ?n - 1" "i \<noteq> j" using that assms(2) by auto
        then show ?thesis using row_tier_covers [OF names(2,1) assms(2), of j before ?fs] by (simp add: tiers)
      qed
    qed
    then show ?thesis using assms(2) by (simp add: tiers row_tier_def)
  qed
qed

lemma meets_covers:
  assumes "combinations_ok names (map tr_combination rows)" "distinct names" "i < length rows" "j < length rows"
    and "\<forall>e \<in> set (tr_combination (rows ! i)). map_of sample (fst e) = Some (JStr (snd e))"
  shows "list_all (\<lambda>c. map_of sample (fst c) = Some (JStr (snd c))) (tk_conditions (row_tier before fs False (rows ! j))) \<longleftrightarrow>
    tier_covers (tr_combination (rows ! i)) (row_tier before fs False (rows ! j))"
proof -
  have keys: "map fst (tr_combination (rows ! k)) = names" if "k < length rows" for k
    using assms(1) that by (simp add: combinations_ok_def)
  have "map_of sample k = map_option JStr (map_of (tr_combination (rows ! i)) k)" if "k \<in> set names" for k
  proof -
    have "k \<in> set (map fst (tr_combination (rows ! i)))" unfolding keys [OF assms(3)] using that .
    then obtain v where v: "(k, v) \<in> set (tr_combination (rows ! i))" by auto
    have "map_of (tr_combination (rows ! i)) k = Some v"
      using v keys [OF assms(3)] assms(2) by (intro map_of_is_SomeI) simp_all
    then show ?thesis using assms(5) v by auto
  qed
  moreover have "fst e \<in> set names" if "e \<in> set (tr_combination (rows ! j))" for e
    unfolding keys [OF assms(4), symmetric] using that by simp
  ultimately show ?thesis by (auto simp: row_tier_def tier_covers_def list_all_iff)
qed

subsection \<open>Properties\<close>

text \<open>
  C26: the price matrix survives its way through the tiers. Turning a matrix over all
  combinations into tiers and reading the tiers back gives the same rows, with a zero
  for every price that was not set.
\<close>

theorem task_matrix_round_trip:
  assumes "matrix_ok before schema rows"
  shows "matrix_of_tiers before schema (taskMatrixToTiers before rows schema) =
    Some (map (\<lambda>row. row\<lparr>tr_unitPrices := row_prices (getTaskNumberFields before (Some schema)) (tr_unitPrices row)\<rparr>) rows)"
proof -
  let ?fs = "getTaskNumberFields before (Some schema)" and ?tiers = "taskMatrixToTiers before rows schema"
  have ok: "?fs \<noteq> []" "rows \<noteq> []" "schema_ok schema" "getTaskEnumCombinations before (Some schema) = map tr_combination rows"
    using assms by (auto simp: matrix_ok_def)
  obtain names where names: "distinct names" "combinations_ok names (map tr_combination rows)"
    using combinations_are_ok [OF ok(3)] ok(4) by metis
  have tiers: "?tiers \<noteq> []" "tk_conditions (last ?tiers) = []" "list_all (\<lambda>tier. distinct (map fst (tk_conditions tier))) ?tiers"
    using ok(1,2) names
    by (auto simp: taskMatrixToTiers_def Let_def last_map row_tier_def list_all_iff combinations_ok_def intro!: distinct_sort_by)
  have "(let tier = (case find (tier_covers (tr_combination row)) ?tiers of Some t \<Rightarrow> t | None \<Rightarrow> last ?tiers)
      in \<lparr>tr_combination = tr_combination row, tr_constant = tk_constant tier, tr_unitPrices = row_prices ?fs (tk_unitPrices tier)\<rparr>) =
      row\<lparr>tr_unitPrices := row_prices ?fs (tr_unitPrices row)\<rparr>" if "row \<in> set rows" for row
  proof -
    obtain i where i: "i < length rows" "row = rows ! i" using \<open>row \<in> set rows\<close> by (auto simp: in_set_conv_nth)
    show ?thesis
      using covering_tier [OF assms i(1)] row_prices_idem [OF number_fields_distinct [OF ok(3)]] unfolding i(2) by auto
  qed
  then show ?thesis using tiers unfolding matrix_of_tiers_def Let_def ok(4) by simp
qed

theorem task_matrix_round_trip_witness:
  "matrix_of_tiers string_lt
     [(lit ''q'', \<lparr>uf_type = None, uf_unit = None, uf_enum = Some [lit ''hd'', lit ''sd'']\<rparr>),
      (lit ''s'', \<lparr>uf_type = Some Usage_number, uf_unit = Some Unit_second, uf_enum = None\<rparr>)]
     (taskMatrixToTiers string_lt
       [\<lparr>tr_combination = [(lit ''q'', lit ''hd'')], tr_constant = Fin 1, tr_unitPrices = [(lit ''s'', Fin 3)]\<rparr>,
        \<lparr>tr_combination = [(lit ''q'', lit ''sd'')], tr_constant = Fin 0, tr_unitPrices = []\<rparr>]
       [(lit ''q'', \<lparr>uf_type = None, uf_unit = None, uf_enum = Some [lit ''hd'', lit ''sd'']\<rparr>),
        (lit ''s'', \<lparr>uf_type = Some Usage_number, uf_unit = Some Unit_second, uf_enum = None\<rparr>)]) =
   Some [\<lparr>tr_combination = [(lit ''q'', lit ''hd'')], tr_constant = Fin 1, tr_unitPrices = [(lit ''s'', Fin 3)]\<rparr>,
        \<lparr>tr_combination = [(lit ''q'', lit ''sd'')], tr_constant = Fin 0, tr_unitPrices = [(lit ''s'', Fin 0)]\<rparr>]"
proof -
  let ?schema = "[(lit ''q'', \<lparr>uf_type = None, uf_unit = None, uf_enum = Some [lit ''hd'', lit ''sd'']\<rparr>),
      (lit ''s'', \<lparr>uf_type = Some Usage_number, uf_unit = Some Unit_second, uf_enum = None\<rparr>)]"
  let ?rows = "[\<lparr>tr_combination = [(lit ''q'', lit ''hd'')], tr_constant = Fin 1, tr_unitPrices = [(lit ''s'', Fin 3)]\<rparr>,
        \<lparr>tr_combination = [(lit ''q'', lit ''sd'')], tr_constant = Fin 0, tr_unitPrices = []\<rparr>]"
  have fields: "getTaskNumberFields string_lt (Some ?schema) =
      [(lit ''s'', \<lparr>uf_type = Some Usage_number, uf_unit = Some Unit_second, uf_enum = None\<rparr>)]" by code_simp
  have "schema_ok ?schema" "map tr_combination ?rows = getTaskEnumCombinations string_lt (Some ?schema)" by code_simp+
  then have "matrix_ok string_lt ?schema ?rows" unfolding matrix_ok_def fields by (simp add: plain_row_def)
  from task_matrix_round_trip [OF this] show ?thesis unfolding fields by (simp add: row_prices_def)
qed

text \<open>
  C27: the preview of a matrix bills the row of the facts. When the facts have the
  values of a row's combination, the tier that the preview selects among the tiers of
  the matrix has the constant and the unit prices of that row.
\<close>

theorem preview_bills_the_row:
  assumes "matrix_ok before schema rows" "row \<in> set rows"
    and "\<forall>e \<in> set (tr_combination row). map_of sample (fst e) = Some (JStr (snd e))"
  shows "\<exists>tier. matched_tier (taskMatrixToTiers before rows schema) sample = Some tier \<and>
    tk_constant tier = tr_constant row \<and>
    tk_unitPrices tier = row_prices (getTaskNumberFields before (Some schema)) (tr_unitPrices row)"
proof -
  let ?fs = "getTaskNumberFields before (Some schema)" and ?n = "length rows"
  let ?tiers = "taskMatrixToTiers before rows schema"
  let ?meets = "\<lambda>tier. list_all (\<lambda>c. map_of sample (fst c) = Some (JStr (snd c))) (tk_conditions tier)"
  have ok: "?fs \<noteq> []" "rows \<noteq> []" "\<forall>row \<in> set rows. plain_row row" using assms(1) by (auto simp: matrix_ok_def)
  obtain names where names: "distinct names" "combinations_ok names (map tr_combination rows)"
    using combinations_are_ok [of schema before] assms(1) by (auto simp: matrix_ok_def)
  obtain i where i: "i < ?n" "row = rows ! i" using assms(2) by (auto simp: in_set_conv_nth)
  show ?thesis
  proof (cases "is_uniform ?fs rows")
    case True
    then show ?thesis using ok uniform_row [OF True assms(2) ok(3)] by (simp add: taskMatrixToTiers_def matched_tier_def)
  next
    case False
    then have tiers: "?tiers = map (\<lambda>j. row_tier before ?fs (j = ?n - 1) (rows ! j)) [0..<?n]"
      using ok by (simp add: taskMatrixToTiers_def)
    have meets: "?meets (row_tier before ?fs False (rows ! j)) \<longleftrightarrow> i = j" if "j < ?n" for j
      using row_tier_covers [OF names(2,1) i(1) that, of before ?fs] meets_covers [OF names(2,1) i(1) that] assms(3) i(2) by simp
    have butlast: "butlast ?tiers = map (\<lambda>j. row_tier before ?fs False (rows ! j)) [0..<?n - 1]"
      unfolding tiers map_butlast [symmetric] by (cases ?n) (auto intro: map_cong)
    have "tk_constant (?tiers ! i) = tr_constant row" "tk_unitPrices (?tiers ! i) = row_prices ?fs (tr_unitPrices row)"
      using i by (simp_all add: tiers row_tier_def)
    moreover have "matched_tier ?tiers sample = Some (?tiers ! i)"
    proof (cases "i < ?n - 1")
      case True
      have "find ?meets (butlast ?tiers) = Some (butlast ?tiers ! i)"
        by (rule find_first) (use True meets in \<open>simp_all add: butlast\<close>)
      moreover have "butlast ?tiers ! i = ?tiers ! i" using True by (intro nth_butlast) (simp add: butlast)
      moreover have "?tiers \<noteq> []" using ok(2) by (simp add: tiers)
      ultimately show ?thesis unfolding matched_tier_def by simp
    next
      case False
      then have "i = ?n - 1" using i(1) by simp
      then have "find ?meets (butlast ?tiers) = None" using meets by (auto simp: find_None_iff butlast)
      moreover have "last ?tiers = ?tiers ! i" using \<open>i = ?n - 1\<close> ok(2) by (simp add: tiers last_conv_nth)
      ultimately show ?thesis using ok(2) by (simp add: matched_tier_def tiers)
    qed
    ultimately show ?thesis by blast
  qed
qed

theorem preview_bills_the_row_witness:
  "\<exists>tier. matched_tier (taskMatrixToTiers string_lt
       [\<lparr>tr_combination = [(lit ''q'', lit ''hd'')], tr_constant = Fin 1, tr_unitPrices = [(lit ''s'', Fin 3)]\<rparr>,
        \<lparr>tr_combination = [(lit ''q'', lit ''sd'')], tr_constant = Fin 0, tr_unitPrices = []\<rparr>]
       [(lit ''q'', \<lparr>uf_type = None, uf_unit = None, uf_enum = Some [lit ''hd'', lit ''sd'']\<rparr>),
        (lit ''s'', \<lparr>uf_type = Some Usage_number, uf_unit = Some Unit_second, uf_enum = None\<rparr>)])
       [(lit ''s'', JNum (Fin 5)), (lit ''q'', JStr (lit ''hd''))] = Some tier \<and> tk_constant tier = Fin 1"
proof -
  let ?schema = "[(lit ''q'', \<lparr>uf_type = None, uf_unit = None, uf_enum = Some [lit ''hd'', lit ''sd'']\<rparr>),
      (lit ''s'', \<lparr>uf_type = Some Usage_number, uf_unit = Some Unit_second, uf_enum = None\<rparr>)]"
  let ?row = "\<lparr>tr_combination = [(lit ''q'', lit ''hd'')], tr_constant = Fin 1, tr_unitPrices = [(lit ''s'', Fin 3)]\<rparr>"
  let ?rows = "[?row, \<lparr>tr_combination = [(lit ''q'', lit ''sd'')], tr_constant = Fin 0, tr_unitPrices = []\<rparr>]"
  have "schema_ok ?schema" "map tr_combination ?rows = getTaskEnumCombinations string_lt (Some ?schema)"
    "getTaskNumberFields string_lt (Some ?schema) \<noteq> []" by code_simp+
  then have m: "matrix_ok string_lt ?schema ?rows" unfolding matrix_ok_def by (simp add: plain_row_def)
  have "\<forall>e \<in> set (tr_combination ?row). map_of [(lit ''s'', JNum (Fin 5)), (lit ''q'', JStr (lit ''hd''))] (fst e) = Some (JStr (snd e))"
    by simp
  from preview_bills_the_row [OF m _ this] show ?thesis by fastforce
qed

text \<open>
  C28: normalising a configuration of task tiers is idempotent, and leaves only
  finite non-negative prices for exactly the number fields of the schema, and only
  conditions on values that the schema lists.
\<close>

theorem normalized_tiers_are_stable:
  assumes "schema_ok schema"
  shows "normalizeTaskVisualConfig before (Some (normalizeTaskVisualConfig before config schema)) schema =
      normalizeTaskVisualConfig before config schema \<and>
    (\<forall>tier \<in> set (normalizeTaskVisualConfig before config schema).
       tk_label tier \<noteq> [] \<and> clean_price (tk_constant tier) = tk_constant tier \<and>
       map fst (tk_unitPrices tier) = map fst (getTaskNumberFields before (Some schema)) \<and>
       (\<forall>e \<in> set (tk_unitPrices tier). isFinite (snd e) \<and> num_le (Fin 0) (snd e)) \<and>
       (\<forall>c \<in> set (tk_conditions tier). enum_has (getTaskEnumFields before (Some schema)) c))"
proof -
  let ?nf = "getTaskNumberFields before (Some schema)" and ?ef = "getTaskEnumFields before (Some schema)"
  have clean: "clean_price (clean_price v) = clean_price v" "isFinite (clean_price v) \<and> num_le (Fin 0) (clean_price v)" for v
    by (auto simp: clean_price_def isFinite_def num_le_def num_eq_def)
  have price: "map_of (map (\<lambda>e. (fst e, g e)) ?nf) (fst e) = Some (g e)" if "e \<in> set ?nf" for e and g :: "jstring \<times> usage_field \<Rightarrow> number"
    using that number_fields_distinct [OF assms, of before] by (intro map_of_is_SomeI) (auto simp: comp_def)
  have idem: "normalize_tier ?nf ?ef i (normalize_tier ?nf ?ef i tier) = normalize_tier ?nf ?ef i tier" for i tier
    by (simp add: normalize_tier_def clean(1) price)
  have base: "createDefaultTaskVisualConfig before schema = [normalize_tier ?nf ?ef 0 \<lparr>tk_label = lit ''base'', tk_conditions = [],
      tk_constant = Fin 0, tk_unitPrices = []\<rparr>]"
    by (simp add: createDefaultTaskVisualConfig_def normalize_tier_def clean_price_def isFinite_def num_le_def num_eq_def)
  obtain ts where ts: "ts \<noteq> []" "normalizeTaskVisualConfig before config schema = map (\<lambda>i. normalize_tier ?nf ?ef i (ts ! i)) [0..<length ts]"
  proof (cases "config = None \<or> config = Some []")
    case True
    then show ?thesis using that [of "[\<lparr>tk_label = lit ''base'', tk_conditions = [], tk_constant = Fin 0, tk_unitPrices = []\<rparr>]"] base
      by (auto simp: normalizeTaskVisualConfig_def)
  next
    case False
    then obtain tiers where "config = Some tiers" "tiers \<noteq> []" by auto
    then show ?thesis using that [of tiers] by (simp add: normalizeTaskVisualConfig_def)
  qed
  have "normalizeTaskVisualConfig before (Some (map (\<lambda>i. normalize_tier ?nf ?ef i (ts ! i)) [0..<length ts])) schema =
      map (\<lambda>i. normalize_tier ?nf ?ef i (ts ! i)) [0..<length ts]"
    using ts(1) by (simp add: normalizeTaskVisualConfig_def idem)
  then show ?thesis unfolding ts(2) using clean by (auto simp: normalize_tier_def)
qed

theorem normalized_tiers_are_stable_witness:
  "normalizeTaskVisualConfig string_lt (Some (normalizeTaskVisualConfig string_lt (Some [\<lparr>tk_label = [], tk_conditions = [(lit ''q'', lit ''no'')],
      tk_constant = NaN, tk_unitPrices = []\<rparr>]) [(lit ''s'', \<lparr>uf_type = Some Usage_number, uf_unit = Some Unit_second, uf_enum = None\<rparr>)]))
      [(lit ''s'', \<lparr>uf_type = Some Usage_number, uf_unit = Some Unit_second, uf_enum = None\<rparr>)] =
   [\<lparr>tk_label = lit ''base'', tk_conditions = [], tk_constant = Fin 0, tk_unitPrices = [(lit ''s'', Fin 0)]\<rparr>]"
proof -
  let ?schema = "[(lit ''s'', \<lparr>uf_type = Some Usage_number, uf_unit = Some Unit_second, uf_enum = None\<rparr>)]"
  let ?config = "Some [\<lparr>tk_label = [], tk_conditions = [(lit ''q'', lit ''no'')], tk_constant = NaN, tk_unitPrices = []\<rparr>]"
  have "schema_ok ?schema" by code_simp
  from normalized_tiers_are_stable [OF this, of string_lt ?config]
  have "normalizeTaskVisualConfig string_lt (Some (normalizeTaskVisualConfig string_lt ?config ?schema)) ?schema =
    normalizeTaskVisualConfig string_lt ?config ?schema" by blast
  also have "\<dots> = [\<lparr>tk_label = lit ''base'', tk_conditions = [], tk_constant = Fin 0, tk_unitPrices = [(lit ''s'', Fin 0)]\<rparr>]" by code_simp
  finally show ?thesis .
qed

end
