(* ===== verification/Spec2Isabelle.thy ===== *)
theory Spec2Isabelle
  imports Billing_Structure Time_Facts Task_Facts Visual_Ids Status_Code_Rules Auth_Facts Auth_Sync Model_Mapping Condition_Display Task_Matrix
begin

text \<open>
  Verification of the web front end of the gateway: the billing expression language
  with its displays and its visual editor, the session coordination between tabs and
  server, and two form validators. All source paths are below \<open>src/web/src/\<close>.

  \<^bold>\<open>The program.\<close> A model is priced by a billing expression, a small typed language
  of tiers, prices, token counts, request data and times. The front end compiles
  expressions, evaluates them to simulate a bill, shows them as price tables and
  readable conditions, and edits them in place. A separate part keeps the login
  session: it refreshes the access token, and keeps the tabs of a browser in step.

  \<^bold>\<open>The language library.\<close> Theory \<open>Prelude\<close> has strings, errors as values,
  association lists and the interface of a memo table. \<open>JS_Number\<close>, \<open>JS_Decimal\<close>,
  \<open>JS_String\<close> and \<open>JS_Value\<close> model what the sources use of the language: binary64
  numbers as rationals with rounding, their decimal text in both directions, string
  operations, values of unknown type, dates. \<open>JS_JSON\<close> is \<open>JSON.parse\<close>, with fuel
  twice the length of the text, which is shown to be enough; \<open>JSON_Text\<close> is
  \<open>JSON.stringify\<close> and that its output is read back.

  \<^bold>\<open>Billing expressions\<close> (\<open>features/pricing/lib/billing-expression/\<close>).
  \<open>Billing_Types\<close> is \<open>types.ts\<close>: the syntax tree, the bounded traversal, the
  dependencies. \<open>Billing_Lexer\<close> and \<open>Billing_Parser\<close> are the class
  \<open>BillingParser\<close> of \<open>parser.ts\<close>, \<open>Billing_Check\<close> its type check, its rules on
  fixed prices and request rules, and the compiler with its cache.
  \<open>Billing_Structure\<close> is \<open>structure.ts\<close>. \<open>Billing_Runtime\<close> is the class
  \<open>BillingRuntime\<close> of \<open>runtime.ts\<close>. \<open>Billing_Display\<close> is \<open>display.ts\<close>,
  \<open>Billing_Visual\<close> is \<open>visual.ts\<close>, \<open>Condition_Display\<close> is \<open>condition-display.ts\<close>.
  The lemmas show that an accepted source has a well-formed tree with nested spans;
  that the type check decides a typing relation stated apart from it, and an
  evaluation respects the types it found; that unwrapping takes off exactly the
  parentheses around the whole of an expression;
  that the compile cache and the cache of time values are invisible; that an
  evaluation reads only declared inputs, is exact on integers, and succeeds only with
  a finite non-negative cost; that request paths read what is stored under their keys
  and the time functions show the wall clock of their zone; that the tiers shown for tokens, times and tasks are the
  tiers billed (\<open>Display_Facts\<close>, \<open>Time_Facts\<close>, \<open>Task_Facts\<close>); that opening and
  saving in the editor keeps the source to the letter and names its parts apart
  (\<open>Visual_Facts\<close>, \<open>Visual_Ids\<close>); and that the readable conditions describe exactly
  the times they stand for. \<open>Task_Matrix\<close> is the price matrix of task models of
  \<open>features/pricing/lib/task-expr.ts\<close>: a matrix survives its way through tiers, and a
  preview bills the row of its facts.

  \<^bold>\<open>Sessions.\<close> \<open>Auth_Store\<close> is \<open>stores/auth-store.ts\<close> with the guards of
  \<open>lib/auth-session.ts\<close> on server responses. \<open>Auth_Session\<close> is the rest of that
  file: the asynchronous refresh is cut at its \<open>await\<close> points into phases, and the
  step relations \<open>refresh_step\<close> and \<open>client_step\<close> interleave it with every other
  operation of the module. The HTTP client, the browser locks, the timers and the
  clock appear as the arguments of the steps. \<open>Auth_Facts\<close> shows the invariant of
  the reachable states, that every refresh settles in a fair run, that it never undoes
  a newer sign-in or sign-out, what each response does, and that a rotated token
  leaves the user and the session as they were. \<open>Auth_Sync\<close> is
  \<open>lib/auth-session-sync.ts\<close> and \<open>lib/session-hint.ts\<close>: events reach the other tabs
  unchanged over both transports.

  \<^bold>\<open>Forms.\<close> \<open>Status_Code_Rules\<close> is \<open>lib/http-status-code-rules.ts\<close>: merging of code
  ranges and the stability of the normalised text. \<open>Model_Mapping\<close> is
  \<open>features/channels/lib/model-mapping-validation.ts\<close>: missing and exposed models,
  and the round trip of model lists.

  \<^bold>\<open>Interfaces.\<close> \<open>memo_cache\<close> is the contract of a cache, interpreted for the compile
  cache and for the time values; \<open>runtime_steps_on\<close> turns a relation that every single
  update respects into an invariant of evaluations; \<open>tier_reader\<close> is what a reader of
  a chain of tiers promises, interpreted for token and task tiers; \<open>refresh_laws\<close> is
  what the refresh runner needs of its runtime, interpreted for the store.

  \<^bold>\<open>Bounds.\<close> The limits of the code (128 levels of parsing, 10000 tokens, 128 cached
  compilations, the depth of traversal and evaluation) are those of the sources. The
  recursive functions are total: the parser recurses on the tokens left, the tree
  functions on the size of the tree, digit generation on the number; only
  \<open>JSON_parse\<close> has fuel.

  \<^bold>\<open>Parameters.\<close> \<open>Intl.DateTimeFormat\<close>, \<open>toLowerCase\<close> and the current time are the
  fields of the record \<open>host\<close>, the first as a function of the locale and the options
  the code passes (its documented behaviour, \<open>intl_documented\<close>, is assumed for the time
  fields only); the translation function and the locale's formatting
  are the fields of \<open>display_env\<close>; \<open>localeCompare\<close> is the argument \<open>before\<close> of the
  matrix functions; the query cache of the HTTP library is an argument
  of \<open>clearAuthenticatedClientState\<close>.

  \<^bold>\<open>Not modelled.\<close> The Go server with its relays, database models and plugins, and the
  desktop shell: their work is network, database and operating system calls. The
  React components, routes and styles: rendering. The translation tables. The readers
  of expression text for the pricing forms (\<open>billing-expr.ts\<close>, \<open>tier-expr.ts\<close>), which
  rest on regular expressions, and with them the entry points of \<open>task-expr.ts\<close> that
  start from text and the itemised amounts of its preview. The formatting of currencies and times over the locale data of the
  browser. In the modelled parts: the texts of error messages shown to the user
  beyond their diagnostic data, the removal of event listeners, and the identity of
  objects, which no modelled operation observes except of syntax nodes, whose spans
  tell them apart.
\<close>

end
